(* ===== verification/Prelude.thy ===== *)
theory Prelude
  imports Main "HOL-Library.AList" "HOL-Library.Char_ord" "HOL-Library.List_Lexorder"
begin

section \<open>Shared vocabulary of the development\<close>

text \<open>
  What every component uses: the named collections of facts, the result type of code that
  can raise, Python dictionaries as association lists in insertion order, and the list and
  option lemmas that several components share.

  A Python \<open>dict\<close> keeps insertion order and has distinct keys. It is an association list:
  \<open>map_of d k\<close> is \<open>d.get(k)\<close>, \<open>dset k v d\<close> is \<open>d[k] = v\<close> (an existing key keeps its place, a
  new one goes to the end), \<open>dpop k d\<close> is \<open>d.pop(k, None)\<close> and \<open>dupdate d e\<close> is \<open>d.update(e)\<close>.
\<close>

named_theorems py_simps \<open>defining equations that evaluate the Python primitives\<close>
named_theorems dict_simps \<open>lookup, key set and distinctness of updated dictionaries\<close>
named_theorems log_simps \<open>what operations do to event logs\<close>

type_synonym 'v dict = "(string \<times> 'v) list"

abbreviation dget :: "'v dict \<Rightarrow> string \<Rightarrow> 'v option" where
  "dget d k \<equiv> map_of d k"

abbreviation dset :: "string \<Rightarrow> 'v \<Rightarrow> 'v dict \<Rightarrow> 'v dict" where
  "dset k v d \<equiv> AList.update k v d"

abbreviation dpop :: "string \<Rightarrow> 'v dict \<Rightarrow> 'v dict" where
  "dpop k d \<equiv> AList.delete k d"

abbreviation dkeys :: "'v dict \<Rightarrow> string list" where
  "dkeys d \<equiv> map fst d"

abbreviation dict_ok :: "'v dict \<Rightarrow> bool" where
  "dict_ok d \<equiv> distinct (map fst d)"

definition dhas :: "'v dict \<Rightarrow> string \<Rightarrow> bool" where
  "dhas d k \<longleftrightarrow> map_of d k \<noteq> None"

fun dupdate :: "'v dict \<Rightarrow> 'v dict \<Rightarrow> 'v dict" where
  "dupdate d [] = d"
| "dupdate d ((k, v) # e) = dupdate (dset k v d) e"

lemma dget_dset [simp, dict_simps]: "dget (dset k v d) k' = (if k = k' then Some v else dget d k')"
  by (simp add: update_conv')

lemma dget_dpop [simp, dict_simps]: "dget (dpop k d) k' = (if k = k' then None else dget d k')"
  by (simp add: delete_conv')

lemma dict_ok_dset [simp, intro, dict_simps]: "dict_ok d \<Longrightarrow> dict_ok (dset k v d)"
  by (rule distinct_update)

lemma dict_ok_dpop [simp, intro, dict_simps]: "dict_ok d \<Longrightarrow> dict_ok (dpop k d)"
  by (rule distinct_delete)

lemma dkeys_dset [simp, dict_simps]: "fst ` set (dset k v d) = insert k (fst ` set d)"
  by (induction d) auto

lemma dset_new: "k \<notin> fst ` set d \<Longrightarrow> dset k v d = d @ [(k, v)]"
  by (induction d) auto

lemma dget_dupdate_notin: "k \<notin> fst ` set e \<Longrightarrow> dget (dupdate d e) k = dget d k"
  by (induction d e rule: dupdate.induct) auto

lemma dget_dupdate [dict_simps]:
  "dict_ok e \<Longrightarrow> dget (dupdate d e) k = (case dget e k of None \<Rightarrow> dget d k | Some v \<Rightarrow> Some v)"
proof (induction d e rule: dupdate.induct)
  case (2 d k' v e)
  show ?case
  proof (cases "k = k'")
    case True
    moreover from 2 True have "dget e k = None" by (simp add: map_of_eq_None_iff)
    ultimately show ?thesis using 2 by (simp add: dget_dupdate_notin)
  next
    case False
    with 2 show ?thesis by (auto split: option.splits)
  qed
qed simp

lemma dict_ok_dupdate [simp, intro, dict_simps]: "dict_ok d \<Longrightarrow> dict_ok (dupdate d e)"
  by (induction d e rule: dupdate.induct) auto

lemma dkeys_dupdate [simp, dict_simps]:
  "fst ` set (dupdate d e) = fst ` set d \<union> fst ` set e"
  by (induction d e rule: dupdate.induct) auto

lemma dupdate_disjoint:
  "dict_ok e \<Longrightarrow> fst ` set d \<inter> fst ` set e = {} \<Longrightarrow> dupdate d e = d @ e"
  by (induction d e rule: dupdate.induct) (auto simp: dset_new)

lemma dupdate_Nil: "dict_ok d \<Longrightarrow> dupdate [] d = d"
  by (simp add: dupdate_disjoint)

lemma dict_ok_set_iff: "dict_ok d \<Longrightarrow> (k, v) \<in> set d \<longleftrightarrow> dget d k = Some v"
  by (simp add: map_of_eq_Some_iff)

lemma dget_notin [simp]: "k \<notin> fst ` set d \<Longrightarrow> dget d k = None"
  by (simp add: map_of_eq_None_iff)

lemma dget_filter:
  "dict_ok d \<Longrightarrow> dget (filter (\<lambda>(k, v). P k v) d) k
     = (case dget d k of None \<Rightarrow> None | Some v \<Rightarrow> if P k v then Some v else None)"
  by (induction d) (force split: option.splits)+

section \<open>Code that raises\<close>

text \<open>
  A raise of the source is \<open>Inl\<close> of the exception, a normal return is \<open>Inr\<close>. \<open>bindE\<close> runs the
  second computation on the result of the first, as the next statement of a Python body does.
\<close>

definition bindE :: "'e + 'a \<Rightarrow> ('a \<Rightarrow> 'e + 'b) \<Rightarrow> 'e + 'b" where
  "bindE m f = (case m of Inl e \<Rightarrow> Inl e | Inr x \<Rightarrow> f x)"

lemma bindE_simps [simp, py_simps]: "bindE (Inl e) f = Inl e" "bindE (Inr x) f = f x"
  by (simp_all add: bindE_def)

lemma bindE_Inr: "bindE m f = Inr y \<longleftrightarrow> (\<exists>x. m = Inr x \<and> f x = Inr y)"
  by (cases m) auto

lemma bindE_Inl: "bindE m f = Inl e \<longleftrightarrow> m = Inl e \<or> (\<exists>x. m = Inr x \<and> f x = Inl e)"
  by (cases m) auto

definition assertE :: "bool \<Rightarrow> 'e \<Rightarrow> 'e + unit" where
  "assertE b e = (if b then Inr () else Inl e)"

lemma assertE_simps [simp]: "assertE b e = Inr u \<longleftrightarrow> b" "assertE b e = Inl e' \<longleftrightarrow> \<not> b \<and> e' = e"
  by (auto simp: assertE_def)

fun mapE :: "('a \<Rightarrow> 'e + 'b) \<Rightarrow> 'a list \<Rightarrow> 'e + 'b list" where
  "mapE f [] = Inr []"
| "mapE f (x # xs) = bindE (f x) (\<lambda>y. bindE (mapE f xs) (\<lambda>ys. Inr (y # ys)))"

lemma mapE_Inr_iff: "mapE f xs = Inr ys \<longleftrightarrow> list_all2 (\<lambda>x y. f x = Inr y) xs ys"
  by (induction xs arbitrary: ys) (auto simp: bindE_Inr list_all2_Cons1)

lemma mapE_length: "mapE f xs = Inr ys \<Longrightarrow> length ys = length xs"
  by (simp add: mapE_Inr_iff list_all2_lengthD)

section \<open>Lists\<close>

lemma takeWhile_append_stop: "(\<forall>x \<in> set xs. P x) \<Longrightarrow> \<not> P y \<Longrightarrow> takeWhile P (xs @ y # ys) = xs"
  by (induction xs) auto

lemma dropWhile_append_stop: "(\<forall>x \<in> set xs. P x) \<Longrightarrow> \<not> P y \<Longrightarrow> dropWhile P (xs @ y # ys) = y # ys"
  by (induction xs) auto

section \<open>Runs of operations and simulations\<close>

text \<open>A component is a function from an operation and a state to a result and the next state.
  A simulation relates it, through an abstraction function on the states that satisfy an
  invariant, to a specification over simpler states: same results, abstraction preserved.\<close>

fun run_ops :: "('op \<Rightarrow> 's \<Rightarrow> 'r \<times> 's) \<Rightarrow> 'op list \<Rightarrow> 's \<Rightarrow> 'r list \<times> 's" where
  "run_ops step [] s = ([], s)"
| "run_ops step (a # as) s =
     (let (r, s1) = step a s; (rs, s2) = run_ops step as s1 in (r # rs, s2))"

lemma run_ops_append:
  "run_ops step (as @ bs) s =
     (let (rs, s1) = run_ops step as s; (qs, s2) = run_ops step bs s1 in (rs @ qs, s2))"
  by (induction as arbitrary: s) (auto simp: Let_def split: prod.splits)

lemma run_ops_length: "length (fst (run_ops step as s)) = length as"
proof (induction as arbitrary: s)
  case (Cons a as)
  obtain r s1 where a: "step a s = (r, s1)" by fastforce
  show ?case using Cons.IH [of s1] by (simp add: a split_beta)
qed simp

locale simulation =
  fixes step :: "'op \<Rightarrow> 's \<Rightarrow> 'r \<times> 's" and spec :: "'op \<Rightarrow> 'a \<Rightarrow> 'r \<times> 'a"
    and abst :: "'s \<Rightarrow> 'a" and inv :: "'s \<Rightarrow> bool" and op_ok :: "'op \<Rightarrow> bool"
  assumes step_inv: "inv s \<Longrightarrow> op_ok a \<Longrightarrow> step a s = (r, s') \<Longrightarrow> inv s'"
    and step_spec: "inv s \<Longrightarrow> op_ok a \<Longrightarrow> step a s = (r, s') \<Longrightarrow> spec a (abst s) = (r, abst s')"
begin

lemma run_inv: "inv s \<Longrightarrow> list_all op_ok as \<Longrightarrow> run_ops step as s = (rs, s') \<Longrightarrow> inv s'"
proof (induction as arbitrary: s rs)
  case (Cons a as)
  then obtain r s1 qs where st: "step a s = (r, s1)" "run_ops step as s1 = (qs, s')"
    by (auto simp: Let_def split: prod.splits)
  have "inv s1" using step_inv [OF Cons.prems(1) _ st(1)] Cons.prems(2) by simp
  then show ?case using Cons.IH [OF _ _ st(2)] Cons.prems(2) by simp
qed simp

lemma run_spec:
  "inv s \<Longrightarrow> list_all op_ok as \<Longrightarrow> run_ops step as s = (rs, s') \<Longrightarrow>
   run_ops spec as (abst s) = (rs, abst s')"
proof (induction as arbitrary: s rs)
  case (Cons a as)
  then obtain r s1 qs where st: "step a s = (r, s1)" "run_ops step as s1 = (qs, s')" "rs = r # qs"
    by (auto simp: Let_def split: prod.splits)
  moreover have "spec a (abst s) = (r, abst s1)" "inv s1"
    using step_spec [OF Cons.prems(1) _ st(1)] step_inv [OF Cons.prems(1) _ st(1)] Cons.prems(2) by auto
  ultimately show ?case using Cons.IH [of s1 qs] Cons.prems(2) by simp
qed simp

end

section \<open>Seeded generators\<close>

text \<open>What a seeded generator draws is an argument of the model: \<open>draw n g\<close> is a number and the
  generator after drawing it. The number drawn is below the bound.\<close>

definition draw_ok :: "(nat \<Rightarrow> 'g \<Rightarrow> nat \<times> 'g) \<Rightarrow> bool" where
  "draw_ok draw \<longleftrightarrow> (\<forall>n g. 0 < n \<longrightarrow> fst (draw n g) < n)"

lemma draw_below: "draw_ok draw \<Longrightarrow> draw n g = (k, g') \<Longrightarrow> 0 < n \<Longrightarrow> k < n"
  unfolding draw_ok_def by (metis fst_conv)

end
