(* ===== verification/Utf8.thy ===== *)
theory Utf8
  imports Py_Text
begin

section \<open>UTF-8\<close>

text \<open>
  Encoding of code points and the strict decoder of Python's \<open>bytes.decode("utf-8")\<close>: no
  overlong form, no surrogate, nothing above 0x10FFFF. The decoder says which byte strings are
  texts; the encoder is what a JSON \<open>\u\<close> escape denotes. The two are inverse on text.
\<close>

definition scalar :: "nat \<Rightarrow> bool" where
  "scalar n \<longleftrightarrow> n < 0xD800 \<or> (0xE000 \<le> n \<and> n < 0x110000)"

definition utf8_encode_cp :: "nat \<Rightarrow> string" where
  "utf8_encode_cp n =
     (if n < 0x80 then [char_of n]
      else if n < 0x800 then [char_of (0xC0 + n div 64), char_of (0x80 + n mod 64)]
      else if n < 0x10000 then
        [char_of (0xE0 + n div 4096), char_of (0x80 + n div 64 mod 64), char_of (0x80 + n mod 64)]
      else
        [char_of (0xF0 + n div 262144), char_of (0x80 + n div 4096 mod 64),
         char_of (0x80 + n div 64 mod 64), char_of (0x80 + n mod 64)])"

definition utf8_encode :: "nat list \<Rightarrow> string" where
  "utf8_encode cps = concat (map utf8_encode_cp cps)"

definition cont_val :: "char \<Rightarrow> nat" where
  "cont_val c = code c - 0x80"

text \<open>One character off the front of a byte string: its code point and the rest.\<close>

definition utf8_step :: "string \<Rightarrow> (nat \<times> string) option" where
  "utf8_step s = (case s of
     [] \<Rightarrow> None
   | a # s1 \<Rightarrow>
       (if code a < 0x80 then Some (code a, s1)
        else if code a < 0xC0 then None
        else (case s1 of
          [] \<Rightarrow> None
        | b # s2 \<Rightarrow>
            (if \<not> is_cont b then None
             else if code a < 0xE0 then
               (let n = (code a - 0xC0) * 64 + cont_val b
                in if 0x80 \<le> n then Some (n, s2) else None)
             else (case s2 of
               [] \<Rightarrow> None
             | c # s3 \<Rightarrow>
                 (if \<not> is_cont c then None
                  else if code a < 0xF0 then
                    (let n = (code a - 0xE0) * 4096 + cont_val b * 64 + cont_val c
                     in if 0x800 \<le> n \<and> scalar n then Some (n, s3) else None)
                  else (case s3 of
                    [] \<Rightarrow> None
                  | d # s4 \<Rightarrow>
                      (if \<not> is_cont d then None
                       else
                         (let n = (code a - 0xF0) * 262144 + cont_val b * 4096
                                  + cont_val c * 64 + cont_val d
                          in if 0x10000 \<le> n \<and> scalar n then Some (n, s4) else None)))))))))"

lemma utf8_step_length: "utf8_step s = Some (n, r) \<Longrightarrow> length r < length s"
  by (auto simp: utf8_step_def Let_def split: list.splits if_splits)

function utf8_decode :: "string \<Rightarrow> nat list option" where
  "utf8_decode s =
     (if s = [] then Some []
      else (case utf8_step s of
        None \<Rightarrow> None
      | Some (n, r) \<Rightarrow> (case utf8_decode r of None \<Rightarrow> None | Some ns \<Rightarrow> Some (n # ns))))"
  by pat_completeness auto
termination
  by (relation "measure length") (auto simp: utf8_step_length)

declare utf8_decode.simps [simp del]

definition valid_utf8 :: "string \<Rightarrow> bool" where
  "valid_utf8 s \<longleftrightarrow> utf8_decode s \<noteq> None"

lemma utf8_decode_Nil [simp]: "utf8_decode [] = Some []"
  by (simp add: utf8_decode.simps)

lemma utf8_decode_step:
  "utf8_step s = Some (n, r) \<Longrightarrow> utf8_decode s = map_option (Cons n) (utf8_decode r)"
  by (cases "s = []") (auto simp: utf8_step_def utf8_decode.simps [of s] split: option.splits)

lemma split64: "n = n div 4096 * 4096 + n div 64 mod 64 * 64 + n mod (64::nat)"
proof -
  have "n div 64 = n div 64 div 64 * 64 + n div 64 mod 64" by simp
  moreover have "n div 64 div 64 = n div 4096" by (simp add: div_mult2_eq [symmetric])
  moreover have "n = n div 64 * 64 + n mod 64" by simp
  ultimately show ?thesis by linarith
qed

lemma split64_4:
  "n = n div 262144 * 262144 + n div 4096 mod 64 * 4096 + n div 64 mod 64 * 64 + n mod (64::nat)"
proof -
  have "n div 4096 = n div 4096 div 64 * 64 + n div 4096 mod 64" by simp
  moreover have "n div 4096 div 64 = n div 262144" by (simp add: div_mult2_eq [symmetric])
  ultimately show ?thesis using split64 [of n] by linarith
qed

lemma utf8_step_encode_cp: "scalar n \<Longrightarrow> utf8_step (utf8_encode_cp n @ r) = Some (n, r)"
proof -
  assume n: "scalar n"
  consider "n < 0x80" | "0x80 \<le> n" "n < 0x800" | "0x800 \<le> n" "n < 0x10000"
    | "0x10000 \<le> n" "n < 0x110000"
    using n by (force simp: scalar_def)
  then show ?thesis
  proof cases
    case 1
    then show ?thesis by (simp add: utf8_encode_cp_def utf8_step_def)
  next
    case 2
    then have "n div 64 < 32" by (simp add: less_mult_imp_div_less)
    with 2 show ?thesis
      by (simp add: utf8_encode_cp_def utf8_step_def is_cont_def cont_val_def Let_def)
  next
    case 3
    then have "n div 4096 < 16" by (simp add: less_mult_imp_div_less)
    with 3 n split64 [of n] show ?thesis
      by (simp add: utf8_encode_cp_def utf8_step_def is_cont_def cont_val_def Let_def)
  next
    case 4
    then have "n div 262144 < 5" by (simp add: less_mult_imp_div_less)
    with 4 n split64_4 [of n] show ?thesis
      by (simp add: utf8_encode_cp_def utf8_step_def is_cont_def cont_val_def Let_def)
  qed
qed

lemma cont_val_bounds: "is_cont c \<Longrightarrow> cont_val c < 64"
  unfolding is_cont_def cont_val_def by linarith

lemma cont_char: "is_cont c \<Longrightarrow> char_of (0x80 + cont_val c) = c"
  by (simp add: is_cont_def cont_val_def)

lemma mod64: "c < 64 \<Longrightarrow> (k * 64 + c) mod 64 = (c::nat)"
  by simp

lemma encode2:
  assumes "b < 64" "0x80 \<le> x * 64 + b" "x < 32"
  shows "utf8_encode_cp (x * 64 + b) = [char_of (0xC0 + x), char_of (0x80 + b)]"
proof -
  from assms have "x * 64 + b < 0x800" by linarith
  with assms show ?thesis by (simp add: utf8_encode_cp_def)
qed

lemma encode3:
  assumes "b < 64" "c < 64" "0x800 \<le> x * 4096 + b * 64 + c" "x < 16"
  shows "utf8_encode_cp (x * 4096 + b * 64 + c)
    = [char_of (0xE0 + x), char_of (0x80 + b), char_of (0x80 + c)]"
proof -
  let ?n = "x * 4096 + b * 64 + c"
  from assms have "?n < 0x10000" by linarith
  moreover have "?n div 4096 = x" "?n div 64 = x * 64 + b"
    using assms by (auto intro!: div_nat_eqI)
  moreover have "?n mod 64 = c" using assms mod64 [of c "x * 64 + b"] by (simp add: mult.commute)
  ultimately show ?thesis using assms by (simp add: utf8_encode_cp_def)
qed

lemma encode4:
  assumes "b < 64" "c < 64" "d < 64" "0x10000 \<le> x * 262144 + b * 4096 + c * 64 + d"
  shows "utf8_encode_cp (x * 262144 + b * 4096 + c * 64 + d)
    = [char_of (0xF0 + x), char_of (0x80 + b), char_of (0x80 + c), char_of (0x80 + d)]"
proof -
  let ?n = "x * 262144 + b * 4096 + c * 64 + d"
  have "?n div 262144 = x" "?n div 4096 = x * 64 + b" "?n div 64 = x * 4096 + b * 64 + c"
    using assms by (auto intro!: div_nat_eqI)
  moreover have "?n mod 64 = d" using assms mod64 [of d "x * 4096 + b * 64 + c"] by (simp add: mult.commute)
  moreover have "(x * 4096 + b * 64 + c) mod 64 = c" using assms mod64 [of c "x * 64 + b"] by (simp add: mult.commute)
  ultimately show ?thesis using assms by (simp add: utf8_encode_cp_def)
qed

text \<open>The decoder only accepts what the encoder writes.\<close>

lemma utf8_encode_step:
  assumes "utf8_step s = Some (n, r)"
  shows "s = utf8_encode_cp n @ r \<and> scalar n"
proof -
  from assms obtain a s1 where s: "s = a # s1"
    by (cases s) (auto simp: utf8_step_def)
  show ?thesis
  proof (cases "code a < 0x80")
    case True
    with assms s show ?thesis by (auto simp: utf8_step_def utf8_encode_cp_def scalar_def)
  next
    case a1: False
    with assms s obtain b s2 where s1: "s1 = b # s2" "is_cont b" "\<not> code a < 0xC0"
      by (auto simp: utf8_step_def split: list.splits if_splits)
    note b = cont_val_bounds [OF s1(2)] cont_char [OF s1(2)]
    show ?thesis
    proof (cases "code a < 0xE0")
      case True
      with assms s s1 a1 b show ?thesis
        by (auto simp: utf8_step_def Let_def encode2 scalar_def split: if_splits)
    next
      case a2: False
      with assms s s1 a1 obtain c s3 where s2: "s2 = c # s3" "is_cont c"
        by (auto simp: utf8_step_def split: list.splits if_splits)
      note c = cont_val_bounds [OF s2(2)] cont_char [OF s2(2)]
      show ?thesis
      proof (cases "code a < 0xF0")
        case True
        with assms s s1 s2 a1 a2 b c show ?thesis
          by (auto simp: utf8_step_def Let_def encode3 split: if_splits)
      next
        case a3: False
        with assms s s1 s2 a1 a2 obtain d s4 where s3: "s3 = d # s4" "is_cont d"
          by (auto simp: utf8_step_def split: list.splits if_splits)
        note d = cont_val_bounds [OF s3(2)] cont_char [OF s3(2)]
        from assms s s1 s2 s3 a1 a2 a3 b c d show ?thesis
          by (auto simp: utf8_step_def Let_def encode4 split: if_splits)
      qed
    qed
  qed
qed

theorem utf8_decode_encode: "(\<forall>n \<in> set ns. scalar n) \<Longrightarrow> utf8_decode (utf8_encode ns) = Some ns"
  by (induction ns)
     (simp_all add: utf8_encode_def utf8_decode_step [OF utf8_step_encode_cp])

theorem utf8_encode_decode:
  "utf8_decode s = Some ns \<Longrightarrow> utf8_encode ns = s \<and> (\<forall>n \<in> set ns. scalar n)"
proof (induction s arbitrary: ns rule: utf8_decode.induct)
  case (1 s)
  show ?case
  proof (cases "s = []")
    case True
    with "1.prems" show ?thesis by (simp add: utf8_encode_def)
  next
    case False
    with "1.prems" obtain n r ms where
      st: "utf8_step s = Some (n, r)" and ms: "utf8_decode r = Some ms" "ns = n # ms"
      by (auto simp: utf8_decode.simps [of s] split: option.splits)
    from "1.IH" [OF False st refl ms(1)] utf8_encode_step [OF st] ms(2)
    show ?thesis by (auto simp: utf8_encode_def)
  qed
qed

lemma utf8_step_ascii: "code c < 0x80 \<Longrightarrow> utf8_step (c # s) = Some (code c, s)"
  by (simp add: utf8_step_def)

lemma valid_utf8_Nil [simp]: "valid_utf8 []"
  by (simp add: valid_utf8_def)

lemma valid_utf8_Cons_ascii [simp]: "code c < 0x80 \<Longrightarrow> valid_utf8 (c # s) = valid_utf8 s"
  by (simp add: valid_utf8_def utf8_decode_step [OF utf8_step_ascii])

lemma valid_utf8_ascii: "(\<forall>c \<in> set s. code c < 0x80) \<Longrightarrow> valid_utf8 s"
  by (induction s) auto

lemma valid_utf8_append [simp]: "valid_utf8 s \<Longrightarrow> valid_utf8 t \<Longrightarrow> valid_utf8 (s @ t)"
proof -
  assume "valid_utf8 s" "valid_utf8 t"
  then obtain ns ms where d: "utf8_decode s = Some ns" "utf8_decode t = Some ms"
    by (auto simp: valid_utf8_def)
  from utf8_encode_decode [OF d(1)] utf8_encode_decode [OF d(2)]
  have "utf8_encode (ns @ ms) = s @ t" "\<forall>n \<in> set (ns @ ms). scalar n"
    by (auto simp: utf8_encode_def)
  with utf8_decode_encode [of "ns @ ms"] show ?thesis by (simp add: valid_utf8_def)
qed

subsection \<open>Decoding with replacement\<close>

text \<open>\<open>bytes.decode("utf-8", errors="replace")\<close>: where no character starts, the longest prefix of
  the bytes that begins a character (one byte if none does) becomes one U+FFFD.\<close>

definition second_ok :: "char \<Rightarrow> char \<Rightarrow> bool" where
  "second_ok a b \<longleftrightarrow> is_cont b \<and>
     (code a = 0xE0 \<longrightarrow> 0xA0 \<le> code b) \<and> (code a = 0xED \<longrightarrow> code b < 0xA0) \<and>
     (code a = 0xF0 \<longrightarrow> 0x90 \<le> code b) \<and> (code a = 0xF4 \<longrightarrow> code b < 0x90)"

definition bad_prefix :: "string \<Rightarrow> nat" where
  "bad_prefix s =
     (case s of
        a # b # t \<Rightarrow>
          (if 0xE0 \<le> code a \<and> code a < 0xF5 \<and> second_ok a b then
             (if 0xF0 \<le> code a then
                (case t of c # _ \<Rightarrow> if is_cont c then 3 else 2 | [] \<Rightarrow> 2)
              else 2)
           else 1)
      | _ \<Rightarrow> 1)"

function decode_replace :: "string \<Rightarrow> string" where
  "decode_replace s =
     (if s = [] then []
      else (case utf8_step s of
        Some (n, r) \<Rightarrow> utf8_encode_cp n @ decode_replace r
      | None \<Rightarrow> utf8_encode_cp 0xFFFD @ decode_replace (drop (bad_prefix s) s)))"
  by pat_completeness auto

lemma bad_prefix_pos: "0 < bad_prefix s"
  by (auto simp: bad_prefix_def split: list.splits)

termination decode_replace
  by (relation "measure length") (auto simp: utf8_step_length bad_prefix_pos)

declare decode_replace.simps [simp del]

end
