(* ===== verification/Py_Values.thy ===== *)
theory Py_Values
  imports Complex_Main Utf8
begin

section \<open>Python values that come from JSON\<close>

text \<open>
  What \<open>json.loads\<close> can return and what the code computes on it: truth, \<open>str\<close>, \<open>repr\<close>, \<open>int\<close>,
  \<open>len\<close>. A finite float is carried with the text that \<open>repr\<close> gives it; arithmetic on its value
  is exact (no binary rounding).
\<close>

datatype pyfloat = Finite rat string | PosInf | NegInf | NaN

datatype pyval =
    PNone
  | PBool bool
  | PInt int
  | PFloat pyfloat
  | PStr string
  | PList "pyval list"
  | PDict "(string \<times> pyval) list"

text \<open>Exceptions by class; the ones whose message the code passes on carry it.\<close>

datatype pyexc =
    TypeError
  | ValueError string
  | OverflowError
  | KeyError
  | IndexError
  | AttributeError
  | UnicodeDecodeError
  | UnicodeEncodeError
  | JSONDecodeError
  | RuntimeError string
  | NotImplementedError string
  | TagError string
  | AdapterError string
  | SettlementError string
  | DatasetError string
  | HttpxError string string
  | CancelledError

fun exc_name :: "pyexc \<Rightarrow> string" where
  "exc_name TypeError = ''TypeError''"
| "exc_name (ValueError m) = ''ValueError''"
| "exc_name OverflowError = ''OverflowError''"
| "exc_name KeyError = ''KeyError''"
| "exc_name IndexError = ''IndexError''"
| "exc_name AttributeError = ''AttributeError''"
| "exc_name UnicodeDecodeError = ''UnicodeDecodeError''"
| "exc_name UnicodeEncodeError = ''UnicodeEncodeError''"
| "exc_name JSONDecodeError = ''JSONDecodeError''"
| "exc_name (RuntimeError m) = ''RuntimeError''"
| "exc_name (NotImplementedError m) = ''NotImplementedError''"
| "exc_name (TagError m) = ''TagError''"
| "exc_name (AdapterError m) = ''AdapterError''"
| "exc_name (SettlementError m) = ''SettlementError''"
| "exc_name (DatasetError m) = ''DatasetError''"
| "exc_name (HttpxError n m) = n"
| "exc_name CancelledError = ''CancelledError''"

text \<open>Exception classes that a handler \<open>except ValueError\<close> catches (subclasses included).\<close>

fun is_value_error :: "pyexc \<Rightarrow> bool" where
  "is_value_error (ValueError m) = True"
| "is_value_error UnicodeDecodeError = True"
| "is_value_error UnicodeEncodeError = True"
| "is_value_error JSONDecodeError = True"
| "is_value_error (TagError m) = True"
| "is_value_error (DatasetError m) = True"
| "is_value_error _ = False"

fun exc_text :: "pyexc \<Rightarrow> string" where
  "exc_text (ValueError m) = m"
| "exc_text (RuntimeError m) = m"
| "exc_text (NotImplementedError m) = m"
| "exc_text (TagError m) = m"
| "exc_text (AdapterError m) = m"
| "exc_text (SettlementError m) = m"
| "exc_text (DatasetError m) = m"
| "exc_text (HttpxError n m) = m"
| "exc_text e = exc_name e"

type_synonym 'a raises = "pyexc + 'a"

subsection \<open>Truth\<close>

fun truthy :: "pyval \<Rightarrow> bool" where
  "truthy PNone = False"
| "truthy (PBool b) = b"
| "truthy (PInt i) = (i \<noteq> 0)"
| "truthy (PFloat (Finite q t)) = (q \<noteq> 0)"
| "truthy (PFloat f) = True"
| "truthy (PStr s) = (s \<noteq> [])"
| "truthy (PList xs) = (xs \<noteq> [])"
| "truthy (PDict d) = (d \<noteq> [])"

text \<open>\<open>d.get(k)\<close> with a missing key read as \<open>None\<close>, and \<open>x or default\<close>.\<close>

definition vget :: "pyval dict \<Rightarrow> string \<Rightarrow> pyval" where
  "vget d k = (case dget d k of None \<Rightarrow> PNone | Some v \<Rightarrow> v)"

definition por :: "pyval \<Rightarrow> pyval \<Rightarrow> pyval" where
  "por a b = (if truthy a then a else b)"

definition is_str :: "pyval \<Rightarrow> bool" where
  "is_str v \<longleftrightarrow> (case v of PStr s \<Rightarrow> True | _ \<Rightarrow> False)"

definition is_int :: "pyval \<Rightarrow> bool" where
  "is_int v \<longleftrightarrow> (case v of PInt i \<Rightarrow> True | PBool b \<Rightarrow> True | _ \<Rightarrow> False)"

definition is_dict :: "pyval \<Rightarrow> bool" where
  "is_dict v \<longleftrightarrow> (case v of PDict d \<Rightarrow> True | _ \<Rightarrow> False)"

definition is_list :: "pyval \<Rightarrow> bool" where
  "is_list v \<longleftrightarrow> (case v of PList xs \<Rightarrow> True | _ \<Rightarrow> False)"

definition str_or_none :: "pyval \<Rightarrow> string option" where
  "str_or_none v = (case v of PStr s \<Rightarrow> Some s | _ \<Rightarrow> None)"

definition opt_str :: "string option \<Rightarrow> pyval" where
  "opt_str x = (case x of None \<Rightarrow> PNone | Some s \<Rightarrow> PStr s)"

definition opt_int :: "int option \<Rightarrow> pyval" where
  "opt_int x = (case x of None \<Rightarrow> PNone | Some i \<Rightarrow> PInt i)"

text \<open>\<open>x.get(...)\<close> and \<open>x.items()\<close> exist on a \<open>dict\<close> only.\<close>

definition as_dict :: "pyval \<Rightarrow> pyval dict raises" where
  "as_dict v = (case v of PDict d \<Rightarrow> Inr d | _ \<Rightarrow> Inl AttributeError)"

text \<open>\<open>len(x)\<close>.\<close>

definition py_len_of :: "pyval \<Rightarrow> nat raises" where
  "py_len_of v = (case v of
      PStr s \<Rightarrow> Inr (py_len s)
    | PList xs \<Rightarrow> Inr (length xs)
    | PDict d \<Rightarrow> Inr (length d)
    | _ \<Rightarrow> Inl TypeError)"

text \<open>\<open>for x in v\<close>: the elements a loop visits; iterating a dict visits its keys. A string is
  iterated by character, which the callers only test for being a dict.\<close>

definition py_iter :: "pyval \<Rightarrow> pyval list raises" where
  "py_iter v = (case v of
      PList xs \<Rightarrow> Inr xs
    | PDict d \<Rightarrow> Inr (map (\<lambda>(k, _). PStr k) d)
    | PStr s \<Rightarrow> Inr (map (\<lambda>c. PStr [c]) s)
    | _ \<Rightarrow> Inl TypeError)"

lemma vget_simps [simp]: "dget d k = Some v \<Longrightarrow> vget d k = v" "dget d k = None \<Longrightarrow> vget d k = PNone"
  by (simp_all add: vget_def)

subsection \<open>Text of a value\<close>

definition hex_digit :: "nat \<Rightarrow> char" where
  "hex_digit n = (if n < 10 then char_of (48 + n) else char_of (87 + n))"

fun repr_char :: "char \<Rightarrow> char \<Rightarrow> string" where
  "repr_char q c =
     (if c = q \<or> c = CHR 0x5C then [CHR 0x5C, c]
      else if code c = 10 then [CHR 0x5C, CHR ''n'']
      else if code c = 13 then [CHR 0x5C, CHR ''r'']
      else if code c = 9 then [CHR 0x5C, CHR ''t'']
      else if code c < 32 \<or> code c = 127
        then [CHR 0x5C, CHR ''x'', hex_digit (code c div 16), hex_digit (code c mod 16)]
      else [c])"

definition repr_str :: "string \<Rightarrow> string" where
  "repr_str s =
     (let q = (if CHR 0x27 \<in> set s \<and> CHR 0x22 \<notin> set s then CHR 0x22 else CHR 0x27)
      in q # concat (map (repr_char q) s) @ [q])"

fun float_repr :: "pyfloat \<Rightarrow> string" where
  "float_repr (Finite q t) = t"
| "float_repr PosInf = ''inf''"
| "float_repr NegInf = ''-inf''"
| "float_repr NaN = ''nan''"

fun py_repr :: "pyval \<Rightarrow> string" where
  "py_repr PNone = ''None''"
| "py_repr (PBool b) = (if b then ''True'' else ''False'')"
| "py_repr (PInt i) = int_text i"
| "py_repr (PFloat f) = float_repr f"
| "py_repr (PStr s) = repr_str s"
| "py_repr (PList xs) = ''['' @ py_join '', '' (map py_repr xs) @ '']''"
| "py_repr (PDict d) =
     ''{'' @ py_join '', '' (map (\<lambda>(k, v). repr_str k @ '': '' @ py_repr v) d) @ ''}''"

definition py_str :: "pyval \<Rightarrow> string" where
  "py_str v = (case v of PStr s \<Rightarrow> s | _ \<Rightarrow> py_repr v)"

definition repr_str_list :: "string list \<Rightarrow> string" where
  "repr_str_list xs = ''['' @ py_join '', '' (map repr_str xs) @ '']''"

definition repr_str_tuple :: "string list \<Rightarrow> string" where
  "repr_str_tuple xs = ''('' @ py_join '', '' (map repr_str xs) @ '')''"

subsection \<open>int(value)\<close>

text \<open>The digits of an integer literal may be grouped by single underscores.\<close>

definition int_literal :: "string \<Rightarrow> int option" where
  "int_literal s =
     (let t = py_strip s;
          neg = (t \<noteq> [] \<and> hd t = CHR ''-'');
          u = (if t \<noteq> [] \<and> (hd t = CHR ''-'' \<or> hd t = CHR ''+'') then tl t else t);
          ps = py_split CHR ''_'' u
      in if (\<forall>p \<in> set ps. p \<noteq> [] \<and> (\<forall>c \<in> set p. is_digit c))
         then Some (if neg then - int (digits_val (concat ps)) else int (digits_val (concat ps)))
         else None)"

definition trunc :: "rat \<Rightarrow> int" where
  "trunc q = (if 0 \<le> q then \<lfloor>q\<rfloor> else - \<lfloor>- q\<rfloor>)"

fun py_int :: "pyval \<Rightarrow> int raises" where
  "py_int (PInt i) = Inr i"
| "py_int (PBool b) = Inr (if b then 1 else 0)"
| "py_int (PFloat (Finite q t)) = Inr (trunc q)"
| "py_int (PFloat NaN) = Inl (ValueError ''cannot convert float NaN to integer'')"
| "py_int (PFloat f) = Inl OverflowError"
| "py_int (PStr s) =
     (case int_literal s of Some i \<Rightarrow> Inr i | None \<Rightarrow> Inl (ValueError ''invalid literal for int()''))"
| "py_int v = Inl TypeError"

lemma py_split_digits: "CHR ''_'' \<notin> set s \<Longrightarrow> py_split CHR ''_'' s = [s]"
  by (induction s) auto

lemma digit_not_special:
  "is_digit c \<Longrightarrow> \<not> is_space c \<and> c \<noteq> CHR ''-'' \<and> c \<noteq> CHR ''+'' \<and> c \<noteq> CHR ''_''"
  by (auto simp: is_digit_def is_space_def)

lemma digits_not_special:
  assumes "\<forall>c \<in> set s. is_digit c"
  shows "py_strip s = s" "CHR ''_'' \<notin> set s"
  using assms digit_not_special by (auto intro: py_strip_id)

lemma int_literal_digits:
  assumes "s \<noteq> []" "\<forall>c \<in> set s. is_digit c"
  shows "int_literal s = Some (int (digits_val s))"
proof -
  from assms have "is_digit (hd s)" by simp
  then have hd: "hd s \<noteq> CHR ''-''" "hd s \<noteq> CHR ''+''" using digit_not_special by blast+
  note ns = digits_not_special [OF assms(2)]
  show ?thesis
    by (simp add: int_literal_def Let_def ns hd py_split_digits assms)
qed

lemma int_literal_nat_text: "int_literal (nat_text n) = Some (int n)"
  using nat_text_digits by (simp add: int_literal_digits)

text \<open>\<open>int(str(i)) == i\<close>: what carries a seed through a header.\<close>

lemma int_literal_int_text: "int_literal (int_text i) = Some i"
proof (cases "i < 0")
  case True
  let ?t = "nat_text (nat (- i))"
  have d: "\<forall>c \<in> set ?t. is_digit c" using nat_text_digits by blast
  have "\<forall>c \<in> set (CHR ''-'' # ?t). \<not> is_space c"
    using d digit_not_special by (auto simp: is_space_def)
  then have "py_strip (CHR ''-'' # ?t) = CHR ''-'' # ?t" by (rule py_strip_id)
  with True show ?thesis
    by (simp add: int_literal_def int_text_def Let_def py_split_digits digits_not_special [OF d] d)
next
  case False
  then show ?thesis by (simp add: int_text_def int_literal_nat_text)
qed

end
