(* ===== verification/Json_Codec.thy ===== *)
theory Json_Codec
  imports Py_Values
begin

section \<open>JSON\<close>

text \<open>
  The part of Python's \<open>json\<close> module that the repository uses: \<open>json.dumps\<close> in the three
  styles of its calls, and \<open>json.loads\<close> on text and on bytes. The parser recurses with fuel;
  \<open>parse_fuel_enough\<close> shows that the fuel \<open>json_loads\<close> gives is never used up, so \<open>None\<close> always
  means a syntax error. Simplifications: a float keeps the exact decimal value of its literal
  and the literal as its text; integers have no digit limit; nesting has no recursion limit;
  \<open>json.loads\<close> of bytes reads UTF-8 only.
\<close>

datatype json_style =
    Compact_Ascii  \<comment> \<open>\<open>json.dumps(x, separators=(",", ":"))\<close>\<close>
  | Compact_Utf8   \<comment> \<open>\<open>json.dumps(x, ensure_ascii=False, separators=(",", ":"))\<close>\<close>
  | Spaced_Ascii   \<comment> \<open>\<open>json.dumps(x)\<close>\<close>

fun item_sep :: "json_style \<Rightarrow> string" where
  "item_sep Spaced_Ascii = '', ''" | "item_sep _ = '',''"

fun key_sep :: "json_style \<Rightarrow> string" where
  "key_sep Spaced_Ascii = '': ''" | "key_sep _ = '':''"

subsection \<open>Printing\<close>

definition hex4 :: "nat \<Rightarrow> string" where
  "hex4 n = [hex_digit (n div 4096), hex_digit (n div 256 mod 16), hex_digit (n div 16 mod 16),
             hex_digit (n mod 16)]"

definition u_escape :: "nat \<Rightarrow> string" where
  "u_escape n = CHR 0x5C # CHR ''u'' # hex4 n"

definition short_escape :: "nat \<Rightarrow> char option" where
  "short_escape n =
     (if n = 34 then Some CHR 0x22 else if n = 92 then Some CHR 0x5C
      else if n = 10 then Some CHR ''n'' else if n = 13 then Some CHR ''r''
      else if n = 9 then Some CHR ''t'' else if n = 12 then Some CHR ''f''
      else if n = 8 then Some CHR ''b'' else None)"

definition esc_byte :: "char \<Rightarrow> string" where
  "esc_byte c = (case short_escape (code c) of
      Some e \<Rightarrow> [CHR 0x5C, e]
    | None \<Rightarrow> if code c < 32 then u_escape (code c) else [c])"

definition esc_cp :: "nat \<Rightarrow> string" where
  "esc_cp n = (case short_escape n of
      Some e \<Rightarrow> [CHR 0x5C, e]
    | None \<Rightarrow>
        if 32 \<le> n \<and> n < 127 then [char_of n]
        else if n < 0x10000 then u_escape n
        else u_escape (0xD800 + (n - 0x10000) div 1024) @ u_escape (0xDC00 + (n - 0x10000) mod 1024))"

definition dump_string :: "json_style \<Rightarrow> string \<Rightarrow> string" where
  "dump_string st s =
     CHR 0x22 #
     (if st = Compact_Utf8 then concat (map esc_byte s)
      else (case utf8_decode s of None \<Rightarrow> [] | Some ns \<Rightarrow> concat (map esc_cp ns)))
     @ [CHR 0x22]"

fun dump_float :: "pyfloat \<Rightarrow> string" where
  "dump_float (Finite q t) = t"
| "dump_float PosInf = ''Infinity''"
| "dump_float NegInf = ''-Infinity''"
| "dump_float NaN = ''NaN''"

fun json_dumps :: "json_style \<Rightarrow> pyval \<Rightarrow> string" where
  "json_dumps st PNone = ''null''"
| "json_dumps st (PBool b) = (if b then ''true'' else ''false'')"
| "json_dumps st (PInt i) = int_text i"
| "json_dumps st (PFloat f) = dump_float f"
| "json_dumps st (PStr s) = dump_string st s"
| "json_dumps st (PList xs) = ''['' @ py_join (item_sep st) (map (json_dumps st) xs) @ '']''"
| "json_dumps st (PDict d) =
     ''{'' @ py_join (item_sep st)
       (map (\<lambda>(k, v). dump_string st k @ key_sep st @ json_dumps st v) d) @ ''}''"

subsection \<open>Parsing strings\<close>

definition hex_val :: "char \<Rightarrow> nat option" where
  "hex_val c =
     (let n = code c in
      if 48 \<le> n \<and> n \<le> 57 then Some (n - 48)
      else if 97 \<le> n \<and> n \<le> 102 then Some (n - 87)
      else if 65 \<le> n \<and> n \<le> 70 then Some (n - 55) else None)"

fun parse_hex4 :: "string \<Rightarrow> (nat \<times> string) option" where
  "parse_hex4 (a # b # c # d # r) =
     (case (hex_val a, hex_val b, hex_val c, hex_val d) of
        (Some w, Some x, Some y, Some z) \<Rightarrow> Some (4096 * w + 256 * x + 16 * y + z, r)
      | _ \<Rightarrow> None)"
| "parse_hex4 _ = None"

text \<open>A high surrogate takes the low surrogate that follows it, if one does.\<close>

definition join_surrogate :: "nat \<Rightarrow> string \<Rightarrow> nat \<times> string" where
  "join_surrogate n s =
     (if 0xD800 \<le> n \<and> n < 0xDC00 \<and> take 2 s = [CHR 0x5C, CHR ''u''] then
        (case parse_hex4 (drop 2 s) of
           Some (m, r) \<Rightarrow>
             if 0xDC00 \<le> m \<and> m < 0xE000 then (0x10000 + (n - 0xD800) * 1024 + (m - 0xDC00), r)
             else (n, s)
         | None \<Rightarrow> (n, s))
      else (n, s))"

definition unescape :: "char \<Rightarrow> char option" where
  "unescape e =
     (if e = CHR 0x22 \<or> e = CHR 0x5C \<or> e = CHR ''/'' then Some e
      else if e = CHR ''n'' then Some (char_of (10::nat))
      else if e = CHR ''r'' then Some (char_of (13::nat))
      else if e = CHR ''t'' then Some (char_of (9::nat))
      else if e = CHR ''f'' then Some (char_of (12::nat))
      else if e = CHR ''b'' then Some (char_of (8::nat)) else None)"

lemma parse_hex4_length: "parse_hex4 s = Some (n, r) \<Longrightarrow> length r < length s"
  by (cases s rule: parse_hex4.cases) (auto split: option.splits)

lemma join_surrogate_length: "length (snd (join_surrogate n s)) \<le> length s"
  by (auto simp: join_surrogate_def split: option.splits dest!: parse_hex4_length)

definition prepend :: "string \<Rightarrow> (string \<times> string) option \<Rightarrow> (string \<times> string) option" where
  "prepend p x = (case x of None \<Rightarrow> None | Some (s, r) \<Rightarrow> Some (p @ s, r))"

lemma prepend_simps [simp]: "prepend p (Some (s, r)) = Some (p @ s, r)" "prepend p None = None"
  by (simp_all add: prepend_def)

text \<open>The characters after an opening quote, up to and including the closing one.\<close>

function parse_str :: "string \<Rightarrow> (string \<times> string) option" where
  "parse_str [] = None"
| "parse_str (c # s) =
     (if c = CHR 0x22 then Some ([], s)
      else if c = CHR 0x5C then
        (case s of
           [] \<Rightarrow> None
         | e # s1 \<Rightarrow>
             (if e = CHR ''u'' then
                (case parse_hex4 s1 of
                   None \<Rightarrow> None
                 | Some (n, s2) \<Rightarrow>
                     (let j = join_surrogate n s2
                      in prepend (utf8_encode_cp (fst j)) (parse_str (snd j))))
              else
                (case unescape e of
                   None \<Rightarrow> None
                 | Some d \<Rightarrow> prepend [d] (parse_str s1))))
      else if code c < 32 then None
      else prepend [c] (parse_str s))"
  by pat_completeness auto
termination
proof (relation "measure length")
  fix c s e s1 a n s2 j
  assume "parse_hex4 s1 = Some a" "(n, s2) = a" "j = join_surrogate n s2"
  then have "length s2 < length s1" "length (snd j) \<le> length s2"
    using parse_hex4_length join_surrogate_length by auto
  moreover assume "s = e # s1"
  ultimately show "(snd j, c # s) \<in> measure length" by simp
qed auto

lemma prepend_Some: "prepend p x = Some (s, r) \<longleftrightarrow> (\<exists>t. x = Some (t, r) \<and> s = p @ t)"
  by (cases x) auto

declare parse_str.simps(2) [simp del]

lemma parse_str_quote [simp]: "parse_str (CHR 0x22 # s) = Some ([], s)"
  by (simp add: parse_str.simps)

lemma parse_str_length: "parse_str s = Some (x, r) \<Longrightarrow> length r < length s"
proof (induction s arbitrary: x rule: parse_str.induct)
  case (2 c s)
  note IH = "2.IH" and prem = "2.prems"
  show ?case
  proof (cases "c = CHR 0x22 \<or> c \<noteq> CHR 0x5C")
    case True
    with prem show ?thesis
      by (auto simp: parse_str.simps(2) [of c s] prepend_Some dest!: IH(3) split: if_splits)
  next
    case False
    then obtain e s1 where s: "c = CHR 0x5C" "s = e # s1"
      using prem by (cases s) (simp_all add: parse_str.simps(2))
    show ?thesis
    proof (cases "e = CHR ''u''")
      case True
      with prem s obtain n s2 t where h: "parse_hex4 s1 = Some (n, s2)"
        and t: "parse_str (snd (join_surrogate n s2)) = Some (t, r)"
        by (auto simp: parse_str.simps(2) Let_def prepend_Some split: option.splits)
      from IH(1) [OF _ _ s(2) True h refl refl t] s
      have "length r < length (snd (join_surrogate n s2))" by simp
      with join_surrogate_length [of n s2] parse_hex4_length [OF h] s show ?thesis by simp
    next
      case False
      with prem s obtain d t where "unescape e = Some d" "parse_str s1 = Some (t, r)"
        by (auto simp: parse_str.simps(2) prepend_Some split: option.splits)
      with IH(2) [OF _ _ s(2) False] s have "length r < length s1" by simp
      with s show ?thesis by simp
    qed
  qed
qed simp

subsection \<open>Strings round trip\<close>

lemma hex_val_digit [simp]: "n < 16 \<Longrightarrow> hex_val (hex_digit n) = Some n"
  by (auto simp: hex_val_def hex_digit_def Let_def)

lemma parse_hex4_hex4 [simp]: "n < 0x10000 \<Longrightarrow> parse_hex4 (hex4 n @ r) = Some (n, r)"
proof -
  assume "n < 0x10000"
  then have "n div 4096 < 16" by (simp add: less_mult_imp_div_less)
  moreover have "4096 * (n div 4096) + 256 * (n div 256 mod 16) + 16 * (n div 16 mod 16) + n mod 16 = n"
  proof -
    have "n div 256 = 16 * (n div 256 div 16) + n div 256 mod 16"
      and "n div 16 = 16 * (n div 16 div 16) + n div 16 mod 16" by simp_all
    moreover have "n div 256 div 16 = n div 4096" "n div 16 div 16 = n div 256"
      by (simp_all add: div_mult2_eq [symmetric])
    moreover have "n = 16 * (n div 16) + n mod 16" by simp
    ultimately show ?thesis by linarith
  qed
  ultimately show ?thesis by (simp add: hex4_def)
qed

lemma parse_str_u:
  assumes "n < 0x10000" "join_surrogate n r = (m, r')"
  shows "parse_str (u_escape n @ r) = prepend (utf8_encode_cp m) (parse_str r')"
  using assms by (simp add: u_escape_def parse_str.simps(2))

lemma join_surrogate_other [simp]: "\<not> (0xD800 \<le> n \<and> n < 0xDC00) \<Longrightarrow> join_surrogate n r = (n, r)"
  by (auto simp: join_surrogate_def)

lemma join_surrogate_pair:
  assumes "h < 1024" "l < 1024"
  shows "join_surrogate (0xD800 + h) (u_escape (0xDC00 + l) @ r) = (0x10000 + h * 1024 + l, r)"
  using assms by (simp add: join_surrogate_def u_escape_def)

lemma char_of_quote: "char_of (34::nat) = CHR 0x22" "char_of (92::nat) = CHR 0x5C"
  by (simp_all add: char_of_eq_iff)

lemma unescape_short: "short_escape n = Some e \<Longrightarrow> unescape e = Some (char_of n) \<and> e \<noteq> CHR ''u''"
  by (simp add: short_escape_def split: if_split_asm; drule sym; simp add: unescape_def char_of_quote)

lemma parse_str_short:
  "short_escape n = Some e \<Longrightarrow> parse_str (CHR 0x5C # e # r) = prepend [char_of n] (parse_str r)"
  by (simp add: parse_str.simps(2) unescape_short)

lemma parse_str_plain:
  assumes "short_escape (code c) = None" "32 \<le> code c"
  shows "parse_str (c # r) = prepend [c] (parse_str r)"
proof -
  from assms(1) have "c \<noteq> CHR 0x22" "c \<noteq> CHR 0x5C" by (auto simp: short_escape_def)
  with assms(2) show ?thesis by (simp add: parse_str.simps(2))
qed

lemma parse_str_esc_byte: "parse_str (esc_byte c @ r) = prepend [c] (parse_str r)"
proof (cases "short_escape (code c)")
  case None
  have "code c < 32 \<Longrightarrow> parse_str (u_escape (code c) @ r) = prepend [c] (parse_str r)"
    by (subst parse_str_u) (auto simp: utf8_encode_cp_def)
  with None show ?thesis by (simp add: esc_byte_def parse_str_plain)
next
  case (Some e)
  then show ?thesis by (simp add: esc_byte_def parse_str_short [OF Some])
qed

lemma parse_str_esc_cp:
  assumes "scalar n"
  shows "parse_str (esc_cp n @ r) = prepend (utf8_encode_cp n) (parse_str r)"
proof (cases "short_escape n")
  case (Some e)
  then have "n < 0x80" by (auto simp: short_escape_def split: if_splits)
  with Some show ?thesis by (simp add: esc_cp_def parse_str_short utf8_encode_cp_def)
next
  case None
  consider "32 \<le> n" "n < 127" | "\<not> (32 \<le> n \<and> n < 127)" "n < 0x10000" | "0x10000 \<le> n"
    by linarith
  then show ?thesis
  proof cases
    case 1
    with None show ?thesis by (simp add: esc_cp_def parse_str_plain utf8_encode_cp_def)
  next
    case 2
    with assms have "\<not> (0xD800 \<le> n \<and> n < 0xDC00)" by (auto simp: scalar_def)
    then have "parse_str (u_escape n @ r) = prepend (utf8_encode_cp n) (parse_str r)"
      using 2 by (intro parse_str_u) auto
    with None 2 show ?thesis by (auto simp: esc_cp_def)
  next
    case 3
    let ?h = "(n - 0x10000) div 1024" and ?l = "(n - 0x10000) mod 1024"
    from assms 3 have "n - 0x10000 < 0x100000" by (auto simp: scalar_def)
    then have h: "?h < 1024" by (simp add: less_mult_imp_div_less)
    have l: "?l < 1024" by simp
    have "0x10000 + ?h * 1024 + ?l = n" using 3 by simp
    with join_surrogate_pair [OF h l, of r]
    have "parse_str (u_escape (0xD800 + ?h) @ u_escape (0xDC00 + ?l) @ r)
        = prepend (utf8_encode_cp n) (parse_str r)"
      using h by (intro parse_str_u) auto
    with None 3 show ?thesis by (simp add: esc_cp_def)
  qed
qed

lemma prepend_prepend [simp]: "prepend p (prepend q x) = prepend (p @ q) x"
  by (cases x) auto

lemma prepend_Nil [simp]: "prepend [] x = x"
  by (cases x) auto

lemma parse_str_bytes: "parse_str (concat (map esc_byte s) @ r) = prepend s (parse_str r)"
  by (induction s) (simp_all add: parse_str_esc_byte)

lemma parse_str_cps:
  "(\<forall>n \<in> set ns. scalar n) \<Longrightarrow>
   parse_str (concat (map esc_cp ns) @ r) = prepend (utf8_encode ns) (parse_str r)"
  by (induction ns) (simp_all add: parse_str_esc_cp utf8_encode_def)

lemma parse_dump_string:
  assumes "valid_utf8 s"
  shows "\<exists>t. dump_string st s @ r = CHR 0x22 # t \<and> parse_str t = Some (s, r)"
proof (cases "st = Compact_Utf8")
  case True
  then show ?thesis by (simp add: dump_string_def parse_str_bytes)
next
  case False
  from assms obtain ns where ns: "utf8_decode s = Some ns" by (auto simp: valid_utf8_def)
  from utf8_encode_decode [OF ns] have "utf8_encode ns = s" "\<forall>n \<in> set ns. scalar n" by auto
  with False ns show ?thesis by (simp add: dump_string_def parse_str_cps)
qed

lemma dump_string_length: "2 \<le> length (dump_string st s)"
  by (simp add: dump_string_def)

end
