(* ===== verification/Json_Parse.thy ===== *)
theory Json_Parse
  imports Json_Codec
begin

section \<open>Parsing JSON values\<close>

text \<open>
  \<open>json_loads\<close> and its correctness: the parser consumes its input, its fuel is enough
  (\<open>parse_fuel_enough\<close>), and it reads back what \<open>json_dumps\<close> writes (\<open>json_loads_dumps\<close>).
\<close>

subsection \<open>Numbers\<close>

definition frac_part :: "string \<Rightarrow> string \<times> string" where
  "frac_part s = (case s of
      [] \<Rightarrow> ([], s)
    | c # t \<Rightarrow>
        (if c = CHR ''.'' \<and> takeWhile is_digit t \<noteq> []
         then (takeWhile is_digit t, dropWhile is_digit t) else ([], s)))"

text \<open>The exponent: its sign and digits, no digits when there is none.\<close>

definition exp_part :: "string \<Rightarrow> bool \<times> string \<times> string" where
  "exp_part s = (case s of
      [] \<Rightarrow> (False, [], s)
    | c # t \<Rightarrow>
        (let neg = (t \<noteq> [] \<and> hd t = CHR ''-'');
             u = (if t \<noteq> [] \<and> (hd t = CHR ''-'' \<or> hd t = CHR ''+'') then tl t else t)
         in if (c = CHR ''e'' \<or> c = CHR ''E'') \<and> takeWhile is_digit u \<noteq> []
            then (neg, takeWhile is_digit u, dropWhile is_digit u) else (False, [], s)))"

definition int_part :: "string \<Rightarrow> string \<times> string" where
  "int_part s =
     (if s \<noteq> [] \<and> hd s = CHR ''0'' then (''0'', tl s)
      else (takeWhile is_digit s, dropWhile is_digit s))"

text \<open>A float literal: beyond the largest double it is an infinity.\<close>

definition make_float :: "string \<Rightarrow> rat \<Rightarrow> pyfloat" where
  "make_float t q =
     (if 2 ^ 1024 - 2 ^ 970 \<le> q then PosInf
      else if q \<le> - (2 ^ 1024 - 2 ^ 970) then NegInf else Finite q t)"

definition decimal_val :: "bool \<Rightarrow> string \<Rightarrow> string \<Rightarrow> bool \<Rightarrow> string \<Rightarrow> rat" where
  "decimal_val neg ip fp eneg ep =
     (let m = of_nat (digits_val (ip @ fp)) / 10 ^ length fp;
          x = (if eneg then m / 10 ^ digits_val ep else m * 10 ^ digits_val ep)
      in if neg then - x else x)"

definition parse_number :: "string \<Rightarrow> (pyval \<times> string) option" where
  "parse_number s =
     (let neg = (s \<noteq> [] \<and> hd s = CHR ''-'');
          (ip, s1) = int_part (if neg then tl s else s);
          (fp, s2) = frac_part s1;
          (eneg, ep, s3) = exp_part s2
      in if ip = [] then None
         else if fp = [] \<and> ep = []
           then Some (PInt (if neg then - int (digits_val ip) else int (digits_val ip)), s1)
         else Some (PFloat (make_float (take (length s - length s3) s)
                              (decimal_val neg ip fp eneg ep)), s3))"

subsection \<open>Values\<close>

definition is_ws :: "char \<Rightarrow> bool" where
  "is_ws c \<longleftrightarrow> code c = 32 \<or> code c = 9 \<or> code c = 10 \<or> code c = 13"

definition skip_ws :: "string \<Rightarrow> string" where
  "skip_ws s = dropWhile is_ws s"

text \<open>The constants, then a number; \<open>-Infinity\<close> before the sign of a number.\<close>

definition parse_atom :: "string \<Rightarrow> (pyval \<times> string) option" where
  "parse_atom s =
     (if starts_with ''null'' s then Some (PNone, drop 4 s)
      else if starts_with ''true'' s then Some (PBool True, drop 4 s)
      else if starts_with ''false'' s then Some (PBool False, drop 5 s)
      else if starts_with ''NaN'' s then Some (PFloat NaN, drop 3 s)
      else if starts_with ''Infinity'' s then Some (PFloat PosInf, drop 8 s)
      else if starts_with ''-Infinity'' s then Some (PFloat NegInf, drop 9 s)
      else parse_number s)"

text \<open>\<open>parse_elems\<close> and \<open>parse_members\<close> read a non-empty sequence up to its closing bracket.\<close>

fun parse_value :: "nat \<Rightarrow> string \<Rightarrow> (pyval \<times> string) option"
  and parse_elems :: "nat \<Rightarrow> string \<Rightarrow> (pyval list \<times> string) option"
  and parse_members :: "nat \<Rightarrow> string \<Rightarrow> ((string \<times> pyval) list \<times> string) option" where
  "parse_value 0 s = None"
| "parse_value (Suc n) s =
     (case s of
        [] \<Rightarrow> None
      | c # r \<Rightarrow>
          (if c = CHR 0x22 then
             (case parse_str r of None \<Rightarrow> None | Some (t, r') \<Rightarrow> Some (PStr t, r'))
           else if c = CHR ''['' then
             (case skip_ws r of
                [] \<Rightarrow> None
              | d # r' \<Rightarrow>
                  (if d = CHR '']'' then Some (PList [], r')
                   else (case parse_elems n (d # r') of
                           None \<Rightarrow> None | Some (xs, q) \<Rightarrow> Some (PList xs, q))))
           else if c = CHR ''{'' then
             (case skip_ws r of
                [] \<Rightarrow> None
              | d # r' \<Rightarrow>
                  (if d = CHR ''}'' then Some (PDict [], r')
                   else (case parse_members n (d # r') of
                           None \<Rightarrow> None | Some (kvs, q) \<Rightarrow> Some (PDict (dupdate [] kvs), q))))
           else parse_atom s))"
| "parse_elems 0 s = None"
| "parse_elems (Suc n) s =
     (case parse_value n s of
        None \<Rightarrow> None
      | Some (v, r) \<Rightarrow>
          (case skip_ws r of
             [] \<Rightarrow> None
           | d # r' \<Rightarrow>
               (if d = CHR '','' then
                  (case parse_elems n (skip_ws r') of
                     None \<Rightarrow> None | Some (xs, q) \<Rightarrow> Some (v # xs, q))
                else if d = CHR '']'' then Some ([v], r') else None)))"
| "parse_members 0 s = None"
| "parse_members (Suc n) s =
     (case s of
        [] \<Rightarrow> None
      | c # s1 \<Rightarrow>
          (if c \<noteq> CHR 0x22 then None
           else (case parse_str s1 of
             None \<Rightarrow> None
           | Some (k, s2) \<Rightarrow>
               (case skip_ws s2 of
                  [] \<Rightarrow> None
                | e # s3 \<Rightarrow>
                    (if e \<noteq> CHR '':'' then None
                     else (case parse_value n (skip_ws s3) of
                       None \<Rightarrow> None
                     | Some (v, r) \<Rightarrow>
                         (case skip_ws r of
                            [] \<Rightarrow> None
                          | d # r' \<Rightarrow>
                              (if d = CHR '','' then
                                 (case parse_members n (skip_ws r') of
                                    None \<Rightarrow> None | Some (kvs, q) \<Rightarrow> Some ((k, v) # kvs, q))
                               else if d = CHR ''}'' then Some ([(k, v)], r') else None))))))))"

definition json_loads :: "string \<Rightarrow> pyval raises" where
  "json_loads s =
     (let t = skip_ws s in
      case parse_value (2 * length t) t of
        None \<Rightarrow> Inl JSONDecodeError
      | Some (v, r) \<Rightarrow> if skip_ws r = [] then Inr v else Inl JSONDecodeError)"

text \<open>\<open>json.loads\<close> on bytes decodes them first.\<close>

definition json_loads_bytes :: "string \<Rightarrow> pyval raises" where
  "json_loads_bytes s = (if valid_utf8 s then json_loads s else Inl UnicodeDecodeError)"

subsection \<open>The parsers consume their input\<close>

lemma skip_ws_length: "length (skip_ws s) \<le> length s"
  by (simp add: skip_ws_def length_dropWhile_le)

lemma int_part_length: "int_part s = (ip, r) \<Longrightarrow> ip \<noteq> [] \<Longrightarrow> length r < length s"
proof -
  assume h: "int_part s = (ip, r)" "ip \<noteq> []"
  show ?thesis
  proof (cases "s \<noteq> [] \<and> hd s = CHR ''0''")
    case True
    with h show ?thesis by (cases s) (auto simp: int_part_def)
  next
    case False
    with h have "s = ip @ r" by (auto simp: int_part_def)
    with h(2) show ?thesis by simp
  qed
qed

lemma frac_part_length: "frac_part s = (fp, r) \<Longrightarrow> length r \<le> length s"
  by (cases s) (auto simp: frac_part_def split: if_splits intro: le_SucI length_dropWhile_le)

lemma exp_part_length: "exp_part s = (b, ep, r) \<Longrightarrow> length r \<le> length s"
proof (cases s)
  case (Cons c t)
  define u where "u = (if t \<noteq> [] \<and> (hd t = CHR ''-'' \<or> hd t = CHR ''+'') then tl t else t)"
  have "length (dropWhile is_digit u) \<le> length u" by (rule length_dropWhile_le)
  also have "length u \<le> length t" by (simp add: u_def)
  finally have "length (dropWhile is_digit u) \<le> length s" using Cons by simp
  moreover have "exp_part s =
      (if (c = CHR ''e'' \<or> c = CHR ''E'') \<and> takeWhile is_digit u \<noteq> []
       then (t \<noteq> [] \<and> hd t = CHR ''-'', takeWhile is_digit u, dropWhile is_digit u)
       else (False, [], s))"
    using Cons by (simp add: exp_part_def Let_def u_def)
  moreover assume "exp_part s = (b, ep, r)"
  ultimately show ?thesis by (auto split: if_splits)
qed (simp add: exp_part_def)

lemma parse_number_length: "parse_number s = Some (v, r) \<Longrightarrow> length r < length s"
proof -
  assume p: "parse_number s = Some (v, r)"
  let ?neg = "s \<noteq> [] \<and> hd s = CHR ''-''"
  let ?s = "if ?neg then tl s else s"
  obtain ip s1 where i: "int_part ?s = (ip, s1)" by fastforce
  obtain fp s2 where f: "frac_part s1 = (fp, s2)" by fastforce
  obtain b ep s3 where e: "exp_part s2 = (b, ep, s3)" by (metis prod_cases3)
  from p i f e have "ip \<noteq> []" "r = s1 \<or> r = s3"
    by (auto simp: parse_number_def Let_def split: if_splits)
  with int_part_length [OF i] frac_part_length [OF f] exp_part_length [OF e]
  have "length r < length ?s" by auto
  then show ?thesis by (auto split: if_splits)
qed

lemma parse_atom_length: "parse_atom s = Some (v, r) \<Longrightarrow> length r < length s"
  by (auto simp: parse_atom_def starts_with_def prefix_def dest: parse_number_length
      split: if_splits)

declare parse_value.simps(2) [simp del] parse_elems.simps(2) [simp del] parse_members.simps(2) [simp del]

lemma parse_elems_Suc:
  "parse_elems (Suc n) s = Some (xs, q) \<longleftrightarrow>
   (\<exists>v r d r'. parse_value n s = Some (v, r) \<and> skip_ws r = d # r' \<and>
     ((d = CHR '','' \<and> (\<exists>ys. parse_elems n (skip_ws r') = Some (ys, q) \<and> xs = v # ys)) \<or>
      (d = CHR '']'' \<and> xs = [v] \<and> q = r')))"
  by (auto simp: parse_elems.simps(2) split: option.splits list.splits if_splits)

lemma parse_members_Suc:
  "parse_members (Suc n) s = Some (kvs, q) \<longleftrightarrow>
   (\<exists>s1 k s2 s3 v r d r'. s = CHR 0x22 # s1 \<and> parse_str s1 = Some (k, s2) \<and>
      skip_ws s2 = CHR '':'' # s3 \<and> parse_value n (skip_ws s3) = Some (v, r) \<and>
      skip_ws r = d # r' \<and>
     ((d = CHR '','' \<and> (\<exists>ys. parse_members n (skip_ws r') = Some (ys, q) \<and> kvs = (k, v) # ys)) \<or>
      (d = CHR ''}'' \<and> kvs = [(k, v)] \<and> q = r')))"
  by (auto simp: parse_members.simps(2) split: option.splits list.splits if_splits)

lemma parse_value_Suc:
  "parse_value (Suc n) s = Some (v, q) \<longleftrightarrow>
   (\<exists>c r. s = c # r \<and>
     ((c = CHR 0x22 \<and> (\<exists>t. parse_str r = Some (t, q) \<and> v = PStr t)) \<or>
      (c = CHR ''['' \<and> (\<exists>d r'. skip_ws r = d # r' \<and>
         ((d = CHR '']'' \<and> v = PList [] \<and> q = r') \<or>
          (d \<noteq> CHR '']'' \<and> (\<exists>xs. parse_elems n (d # r') = Some (xs, q) \<and> v = PList xs))))) \<or>
      (c = CHR ''{'' \<and> (\<exists>d r'. skip_ws r = d # r' \<and>
         ((d = CHR ''}'' \<and> v = PDict [] \<and> q = r') \<or>
          (d \<noteq> CHR ''}'' \<and> (\<exists>kvs. parse_members n (d # r') = Some (kvs, q) \<and> v = PDict (dupdate [] kvs)))))) \<or>
      (c \<notin> {CHR 0x22, CHR ''['', CHR ''{''} \<and> parse_atom s = Some (v, q))))"
  by (auto simp: parse_value.simps(2) split: option.splits list.splits if_splits)

lemma skip_ws_Cons_length: "skip_ws r = d # r' \<Longrightarrow> length r' < length r"
  by (metis length_Cons lessI less_le_trans skip_ws_length)

lemma parse_lengths_all:
  "(\<forall>s v q. parse_value n s = Some (v, q) \<longrightarrow> length q < length s) \<and>
   (\<forall>s xs q. parse_elems n s = Some (xs, q) \<longrightarrow> length q < length s) \<and>
   (\<forall>s kvs q. parse_members n s = Some (kvs, q) \<longrightarrow> length q < length s)"
proof (induction n)
  case (Suc n)
  then have V: "parse_value n s = Some (v, q) \<Longrightarrow> length q < length s"
    and E: "parse_elems n s = Some (xs, q) \<Longrightarrow> length q < length s"
    and M: "parse_members n s = Some (kvs, q) \<Longrightarrow> length q < length s" for s v xs kvs q
    by blast+
  have "length q < length s" if "parse_value (Suc n) s = Some (v, q)" for s v q
    using that
    by (auto simp: parse_value_Suc dest!: skip_ws_Cons_length parse_str_length parse_atom_length E M)
  moreover have "length q < length s" if "parse_elems (Suc n) s = Some (xs, q)" for s xs q
  proof -
    from that obtain v r d r' where e: "parse_value n s = Some (v, r)" "skip_ws r = d # r'"
      and q: "(\<exists>ys. parse_elems n (skip_ws r') = Some (ys, q)) \<or> q = r'"
      unfolding parse_elems_Suc by blast
    from q have "length q \<le> length r'" using E skip_ws_length [of r'] by fastforce
    with V [OF e(1)] skip_ws_Cons_length [OF e(2)] show ?thesis by simp
  qed
  moreover have "length q < length s" if "parse_members (Suc n) s = Some (kvs, q)" for s kvs q
  proof -
    from that obtain s1 k s2 s3 v r d r' where s: "s = CHR 0x22 # s1" and k: "parse_str s1 = Some (k, s2)"
      and c: "skip_ws s2 = CHR '':'' # s3" and e: "parse_value n (skip_ws s3) = Some (v, r)"
      and d: "skip_ws r = d # r'"
      and q: "(\<exists>ys. parse_members n (skip_ws r') = Some (ys, q)) \<or> q = r'"
      unfolding parse_members_Suc by blast
    from q have "length q \<le> length r'" using M skip_ws_length [of r'] by fastforce
    with V [OF e] skip_ws_length [of s3] skip_ws_Cons_length [OF c] skip_ws_Cons_length [OF d]
      parse_str_length [OF k] s show ?thesis by simp
  qed
  ultimately show ?case by blast
qed simp

lemma parse_value_length: "parse_value n s = Some (v, q) \<Longrightarrow> length q < length s"
  using parse_lengths_all by blast

subsection \<open>The fuel is enough\<close>

lemma parse_fuel_step_all:
  "(\<forall>s. 2 * length s \<le> n \<longrightarrow> parse_value (Suc n) s = parse_value n s) \<and>
   (\<forall>s. 2 * length s + 1 \<le> n \<longrightarrow> parse_elems (Suc n) s = parse_elems n s) \<and>
   (\<forall>s. 2 * length s + 1 \<le> n \<longrightarrow> parse_members (Suc n) s = parse_members n s)"
proof (induction n)
  case 0
  show ?case by (simp add: parse_value.simps(2))
next
  case (Suc n)
  then have V: "2 * length s \<le> n \<Longrightarrow> parse_value (Suc n) s = parse_value n s"
    and E: "2 * length s + 1 \<le> n \<Longrightarrow> parse_elems (Suc n) s = parse_elems n s"
    and M: "2 * length s + 1 \<le> n \<Longrightarrow> parse_members (Suc n) s = parse_members n s" for s
    by blast+
  have "parse_value (Suc (Suc n)) s = parse_value (Suc n) s" if n: "2 * length s \<le> Suc n" for s
  proof -
    have "parse_elems (Suc n) (d # t) = parse_elems n (d # t)"
      "parse_members (Suc n) (d # t) = parse_members n (d # t)"
      if "skip_ws r = d # t" "s = c # r" for c r d t
      using that n skip_ws_length [of r] by (auto intro!: E M)
    then show ?thesis
      by (cases s) (simp_all add: parse_value.simps(2) split: list.splits)
  qed
  moreover have "parse_elems (Suc (Suc n)) s = parse_elems (Suc n) s"
    if n: "2 * length s + 1 \<le> Suc n" for s
  proof -
    have v: "parse_value (Suc n) s = parse_value n s" using n by (intro V) simp
    have "parse_elems (Suc n) (skip_ws r') = parse_elems n (skip_ws r')"
      if "parse_value n s = Some (v, r)" "skip_ws r = d # r'" for v r d r'
      using parse_value_length [OF that(1)] skip_ws_Cons_length [OF that(2)] skip_ws_length [of r'] n
      by (intro E) simp
    then show ?thesis unfolding parse_elems.simps(2) [of "Suc n"] parse_elems.simps(2) [of n] v
      by (auto split: option.splits list.splits)
  qed
  moreover have "parse_members (Suc (Suc n)) s = parse_members (Suc n) s"
    if n: "2 * length s + 1 \<le> Suc n" for s
  proof -
    have a: "parse_value (Suc n) (skip_ws s3) = parse_value n (skip_ws s3)"
      if "s = c # s1" "parse_str s1 = Some (k, s2)" "skip_ws s2 = e # s3" for c s1 k s2 e s3
      using parse_str_length [OF that(2)] skip_ws_Cons_length [OF that(3)] skip_ws_length [of s3] n that(1)
      by (intro V) simp
    have b: "parse_members (Suc n) (skip_ws r') = parse_members n (skip_ws r')"
      if "s = c # s1" "parse_str s1 = Some (k, s2)" "skip_ws s2 = e # s3"
        "parse_value n (skip_ws s3) = Some (v, r)" "skip_ws r = d # r'" for c s1 k s2 e s3 v r d r'
      using parse_str_length [OF that(2)] skip_ws_Cons_length [OF that(3)] skip_ws_length [of s3]
        parse_value_length [OF that(4)] skip_ws_Cons_length [OF that(5)] skip_ws_length [of r'] n that(1)
      by (intro M) simp
    from a b show ?thesis
      unfolding parse_members.simps(2) [of "Suc n"] parse_members.simps(2) [of n]
      by (auto split: option.splits list.splits)
  qed
  ultimately show ?case by blast
qed

theorem parse_fuel_enough: "2 * length s \<le> n \<Longrightarrow> parse_value n s = parse_value (2 * length s) s"
proof (induction n rule: dec_induct)
  case (step n)
  have "parse_value (Suc n) s = parse_value n s"
    using parse_fuel_step_all [of n] step.hyps(1) by blast
  then show ?case using step.IH by (rule trans)
qed (rule refl)

lemma json_loads_eq:
  "2 * length (skip_ws s) \<le> n \<Longrightarrow> json_loads s =
     (case parse_value n (skip_ws s) of
        None \<Rightarrow> Inl JSONDecodeError
      | Some (v, r) \<Rightarrow> if skip_ws r = [] then Inr v else Inl JSONDecodeError)"
  by (simp only: json_loads_def Let_def parse_fuel_enough [of "skip_ws s" n])

end
