(* ===== verification/Json_Roundtrip.thy ===== *)
theory Json_Roundtrip
  imports Json_Parse
begin

section \<open>What \<open>json.dumps\<close> writes, \<open>json.loads\<close> reads back\<close>

text \<open>
  \<open>json_ok\<close> says which values survive: text is valid UTF-8, dictionaries have distinct keys and
  a finite float carries a literal that denotes it. \<open>json_loads_dumps\<close> is the round trip, in
  every style; \<open>json_dumps_inject\<close> follows.
\<close>

fun float_ok :: "pyfloat \<Rightarrow> bool" where
  "float_ok (Finite q t) = (parse_number t = Some (PFloat (Finite q t), []))"
| "float_ok _ = True"

fun json_ok :: "pyval \<Rightarrow> bool" where
  "json_ok (PFloat f) = float_ok f"
| "json_ok (PStr s) = valid_utf8 s"
| "json_ok (PList xs) = list_all json_ok xs"
| "json_ok (PDict d) = (dict_ok d \<and> list_all (\<lambda>(k, v). valid_utf8 k \<and> json_ok v) d)"
| "json_ok _ = True"

subsection \<open>Numbers\<close>

definition num_char :: "char \<Rightarrow> bool" where
  "num_char c \<longleftrightarrow> is_digit c \<or> c \<in> {CHR ''.'', CHR ''e'', CHR ''E'', CHR ''+'', CHR ''-''}"

definition stops :: "string \<Rightarrow> bool" where
  "stops r \<longleftrightarrow> r = [] \<or> \<not> num_char (hd r)"

lemma stops_simps [simp]: "stops []" "stops (c # r) = (\<not> num_char c)"
  by (simp_all add: stops_def)

lemma num_char_punct [simp]:
  "\<not> num_char CHR '',''" "\<not> num_char CHR '']''" "\<not> num_char CHR ''}''" "\<not> num_char CHR '':''"
  by (simp_all add: num_char_def is_digit_def)

lemma span_append:
  "r = [] \<or> \<not> P (hd r) \<Longrightarrow> takeWhile P (t @ r) = takeWhile P t"
  "r = [] \<or> \<not> P (hd r) \<Longrightarrow> dropWhile P (t @ r) = dropWhile P t @ r"
  by (induction t; cases r; simp)+

lemma stops_digit: "stops r \<Longrightarrow> r = [] \<or> \<not> is_digit (hd r)"
  by (auto simp: stops_def num_char_def)

lemmas span_digits = span_append [where P = is_digit, OF stops_digit]

lemma int_part_append:
  "s \<noteq> [] \<Longrightarrow> stops r \<Longrightarrow> int_part s = (ip, s1) \<Longrightarrow> int_part (s @ r) = (ip, s1 @ r)"
  by (cases s) (auto simp: int_part_def span_digits)

lemma frac_part_append: "stops r \<Longrightarrow> frac_part s = (fp, s2) \<Longrightarrow> frac_part (s @ r) = (fp, s2 @ r)"
proof (cases s)
  case Nil
  assume "stops r" "frac_part s = (fp, s2)"
  with Nil show ?thesis by (cases r) (auto simp: frac_part_def num_char_def)
next
  case (Cons c t)
  assume "stops r" "frac_part s = (fp, s2)"
  with Cons show ?thesis by (auto simp: frac_part_def span_digits split: if_splits)
qed

lemma exp_part_append:
  assumes "stops r" "exp_part s = (b, ep, s3)"
  shows "exp_part (s @ r) = (b, ep, s3 @ r)"
proof (cases s)
  case Nil
  with assms show ?thesis by (cases r) (auto simp: exp_part_def num_char_def)
next
  case s: (Cons c t)
  show ?thesis
  proof (cases t)
    case Nil
    with s assms have "b = False" "ep = []" "s3 = s" by (simp_all add: exp_part_def)
    moreover from assms(1) have "takeWhile is_digit r = []" and "r = [] \<or> hd r \<noteq> CHR ''-''"
      and "r = [] \<or> hd r \<noteq> CHR ''+''"
      by (cases r; auto simp: num_char_def)+
    ultimately show ?thesis using s Nil by (auto simp: exp_part_def Let_def)
  next
    case (Cons d u)
    with s assms show ?thesis
      by (auto simp: exp_part_def Let_def span_digits span_digits [of r "d # u", simplified] split: if_splits)
  qed
qed

lemma parse_number_append:
  assumes p: "parse_number t = Some (v, [])" and r: "stops r"
  shows "parse_number (t @ r) = Some (v, r)"
proof -
  let ?neg = "t \<noteq> [] \<and> hd t = CHR ''-''"
  let ?t = "if ?neg then tl t else t"
  obtain ip s1 where i: "int_part ?t = (ip, s1)" by fastforce
  obtain fp s2 where f: "frac_part s1 = (fp, s2)" by fastforce
  obtain b ep s3 where e: "exp_part s2 = (b, ep, s3)" by (metis prod_cases3)
  have ip: "ip \<noteq> []" using p i f e by (auto simp: parse_number_def Let_def)
  then have t: "?t \<noteq> []" using i by (auto simp: int_part_def split: if_splits)
  then have t': "t \<noteq> []" by (cases t) auto
  then have n: "(t @ r \<noteq> [] \<and> hd (t @ r) = CHR ''-'') = ?neg" by simp
  have "(if ?neg then tl (t @ r) else t @ r) = ?t @ r" using t' by simp
  with int_part_append [OF t r i]
  have i': "int_part (if ?neg then tl (t @ r) else t @ r) = (ip, s1 @ r)" by simp
  note f' = frac_part_append [OF r f] and e' = exp_part_append [OF r e]
  show ?thesis
  proof (cases "fp = [] \<and> ep = []")
    case True
    with p i f e ip have "s1 = []" by (simp add: parse_number_def Let_def)
    with p i f e ip True i' f' e' n show ?thesis
      by (simp add: parse_number_def Let_def del: hd_append2)
  next
    case False
    with p i f e ip have "s3 = []" by (auto simp: parse_number_def Let_def)
    with p i f e ip False i' f' e' n show ?thesis
      by (auto simp: parse_number_def Let_def simp del: hd_append2)
  qed
qed

lemma parse_number_nat: "stops r \<Longrightarrow>
    int_part (nat_text n @ r) = (nat_text n, r)"
proof -
  assume r: "stops r"
  show ?thesis
  proof (cases "n = 0")
    case True
    then show ?thesis by (simp add: nat_text.simps [of 0] int_part_def)
  next
    case False
    then have "hd (nat_text n) \<noteq> CHR ''0''" by (simp add: nat_text_zero_iff)
    moreover have "\<forall>c \<in> set (nat_text n). is_digit c" using nat_text_digits by blast
    then have "takeWhile is_digit (nat_text n) = nat_text n" "dropWhile is_digit (nat_text n) = []"
      by (simp_all add: takeWhile_eq_all_conv)
    moreover have "takeWhile is_digit r = []" "dropWhile is_digit r = r"
      using stops_digit [OF r] by (cases r; simp)+
    ultimately show ?thesis using r by (simp add: int_part_def span_digits)
  qed
qed

lemma frac_exp_none: "stops r \<Longrightarrow> frac_part r = ([], r)" "stops r \<Longrightarrow> exp_part r = (False, [], r)"
  by (cases r; auto simp: frac_part_def exp_part_def num_char_def)+

lemma nat_text_hd: "is_digit (hd (nat_text n))"
  by (rule nat_text_digits [of _ n]) simp

lemma parse_number_int: "stops r \<Longrightarrow> parse_number (int_text i @ r) = Some (PInt i, r)"
proof -
  assume r: "stops r"
  have "hd (nat_text n) \<noteq> CHR ''-''" for n using nat_text_hd [of n] digit_not_special by blast
  with r show ?thesis
    by (simp add: parse_number_def int_text_def Let_def parse_number_nat frac_exp_none)
qed

lemma parse_number_first:
  assumes "parse_number s = Some (v, r)"
  shows "(\<exists>c t. s = c # t \<and> is_digit c) \<or> (\<exists>c t. s = CHR ''-'' # c # t \<and> is_digit c)"
proof -
  have d: "\<exists>c t. u = c # t \<and> is_digit c" if "int_part u = (ip, s1)" "ip \<noteq> []" for u ip s1
    using that by (cases u) (auto simp: int_part_def is_digit_def split: if_splits)
  obtain ip s1 where "int_part (if s \<noteq> [] \<and> hd s = CHR ''-'' then tl s else s) = (ip, s1)" by fastforce
  moreover from this assms have "ip \<noteq> []" by (auto simp: parse_number_def Let_def split: prod.splits)
  ultimately obtain c t where "(if s \<noteq> [] \<and> hd s = CHR ''-'' then tl s else s) = c # t" "is_digit c"
    using d by blast
  then show ?thesis by (cases s) (auto split: if_splits)
qed

lemma parse_atom_number: "parse_number s = Some (v, r) \<Longrightarrow> parse_atom s = Some (v, r)"
proof -
  assume p: "parse_number s = Some (v, r)"
  from parse_number_first [OF p] have "\<not> starts_with ''null'' s" "\<not> starts_with ''true'' s"
    "\<not> starts_with ''false'' s" "\<not> starts_with ''NaN'' s" "\<not> starts_with ''Infinity'' s"
    "\<not> starts_with ''-Infinity'' s"
    by (auto simp: starts_with_def is_digit_def)
  with p show ?thesis by (simp add: parse_atom_def)
qed

subsection \<open>Values\<close>

lemma dump_string_first: "\<exists>t. dump_string st s = CHR 0x22 # t"
  by (simp add: dump_string_def)

lemma int_text_first: "\<exists>c t. int_text i = c # t \<and> (is_digit c \<or> c = CHR ''-'')"
proof (cases "i < 0")
  case False
  then show ?thesis
    using nat_text_hd [of "nat i"] by (cases "nat_text (nat i)") (auto simp: int_text_def)
qed (simp add: int_text_def)

text \<open>The first character of a printed value: never white space or a closing bracket.\<close>

lemma not_ws [simp]:
  "\<not> is_ws CHR ''n''" "\<not> is_ws CHR ''t''" "\<not> is_ws CHR ''f''" "\<not> is_ws CHR ''N''" "\<not> is_ws CHR ''I''"
  "\<not> is_ws CHR ''-''" "\<not> is_ws CHR 0x22" "\<not> is_ws CHR ''[''" "\<not> is_ws CHR ''{''"
  by (simp_all add: is_ws_def)

lemma digit_first: "is_digit c \<Longrightarrow> \<not> is_ws c \<and> c \<noteq> CHR '']'' \<and> c \<noteq> CHR ''}''"
  by (auto simp: is_digit_def is_ws_def)

definition good_first :: "string \<Rightarrow> bool" where
  "good_first s \<longleftrightarrow> (\<exists>c t. s = c # t \<and> \<not> is_ws c \<and> c \<noteq> CHR '']'' \<and> c \<noteq> CHR ''}'')"

lemma good_first_Cons [simp]: "good_first (c # t) \<longleftrightarrow> \<not> is_ws c \<and> c \<noteq> CHR '']'' \<and> c \<noteq> CHR ''}''"
  by (simp add: good_first_def)

lemma good_first_dumps:
  assumes "json_ok v"
  shows "good_first (json_dumps st v)"
proof (cases v)
  case (PInt i)
  with int_text_first [of i] digit_first show ?thesis by auto
next
  case (PFloat f)
  show ?thesis
  proof (cases f)
    case (Finite q t)
    with PFloat assms have "parse_number t = Some (PFloat f, [])" by simp
    from parse_number_first [OF this] show ?thesis
      using PFloat Finite digit_first by auto
  qed (use PFloat in simp_all)
next
  case (PStr s)
  with dump_string_first [of st s] show ?thesis by auto
qed simp_all

lemma json_dumps_first:
  "json_ok v \<Longrightarrow> \<exists>c t. json_dumps st v = c # t \<and> \<not> is_ws c \<and> c \<noteq> CHR '']'' \<and> c \<noteq> CHR ''}''"
  using good_first_dumps unfolding good_first_def .

lemma skip_ws_dumps: "json_ok v \<Longrightarrow> skip_ws (json_dumps st v @ r) = json_dumps st v @ r"
  using json_dumps_first [of v st] by (auto simp: skip_ws_def)

lemma skip_ws_string: "skip_ws (dump_string st s @ r) = dump_string st s @ r"
  using dump_string_first [of st s] by (auto simp: skip_ws_def is_ws_def)

lemma skip_ws_punct [simp]:
  "skip_ws (CHR '','' # r) = CHR '','' # r" "skip_ws (CHR '']'' # r) = CHR '']'' # r"
  "skip_ws (CHR ''}'' # r) = CHR ''}'' # r" "skip_ws (CHR '':'' # r) = CHR '':'' # r"
  by (simp_all add: skip_ws_def is_ws_def)

lemma skip_ws_space [simp]: "skip_ws (CHR '' '' # r) = skip_ws r"
  by (simp add: skip_ws_def is_ws_def)

lemma item_sep_split: "\<exists>w. item_sep st = CHR '','' # w \<and> (\<forall>r. skip_ws (w @ r) = skip_ws r)"
  by (cases st) simp_all

lemma key_sep_split: "\<exists>w. key_sep st = CHR '':'' # w \<and> (\<forall>r. skip_ws (w @ r) = skip_ws r)"
  by (cases st) simp_all

text \<open>Reading one printed value back, whatever follows it; the fuel is its length.\<close>

definition reads_back :: "json_style \<Rightarrow> pyval \<Rightarrow> bool" where
  "reads_back st v \<longleftrightarrow> (\<forall>n r. stops r \<longrightarrow> length (json_dumps st v) \<le> n \<longrightarrow>
     parse_value n (json_dumps st v @ r) = Some (v, r))"

lemma reads_backD:
  "reads_back st v \<Longrightarrow> stops r \<Longrightarrow> length (json_dumps st v) \<le> n \<Longrightarrow>
   parse_value n (json_dumps st v @ r) = Some (v, r)"
  by (simp add: reads_back_def)

lemma parse_elems_dumps:
  assumes "xs \<noteq> []" "\<forall>v \<in> set xs. json_ok v \<and> reads_back st v"
    and "length (py_join (item_sep st) (map (json_dumps st) xs)) < n"
  shows "parse_elems n (py_join (item_sep st) (map (json_dumps st) xs) @ CHR '']'' # r) = Some (xs, r)"
  using assms
proof (induction xs arbitrary: n)
  case (Cons v xs)
  from Cons.prems(3) obtain m where n: "n = Suc m" by (cases n) auto
  obtain w where w: "item_sep st = CHR '','' # w" "\<And>r. skip_ws (w @ r) = skip_ws r"
    using item_sep_split by blast
  show ?case
  proof (cases xs)
    case Nil
    with Cons.prems n have "parse_value m (json_dumps st v @ CHR '']'' # r) = Some (v, CHR '']'' # r)"
      by (intro reads_backD) auto
    with Nil n show ?thesis by (simp add: parse_elems_Suc)
  next
    case (Cons u us)
    let ?rest = "py_join (item_sep st) (map (json_dumps st) xs) @ CHR '']'' # r"
    from Cons.prems(3) n \<open>xs = u # us\<close> w have m:
      "length (json_dumps st v) \<le> m" "length (py_join (item_sep st) (map (json_dumps st) xs)) < m"
      by (auto simp: py_join_Cons)
    have "parse_value m (json_dumps st v @ CHR '','' # w @ ?rest) = Some (v, CHR '','' # w @ ?rest)"
      using Cons.prems(2) m by (intro reads_backD) auto
    moreover have "skip_ws ?rest = ?rest"
      using Cons.prems(2) \<open>xs = u # us\<close> json_dumps_first [of u st]
      by (cases us) (auto simp: skip_ws_def)
    moreover have "parse_elems m ?rest = Some (xs, r)"
      using Cons.IH Cons.prems(2) \<open>xs = u # us\<close> m by auto
    ultimately show ?thesis using n \<open>xs = u # us\<close> w
      by (simp add: parse_elems_Suc py_join_Cons)
  qed
qed simp

definition dump_member :: "json_style \<Rightarrow> string \<times> pyval \<Rightarrow> string" where
  "dump_member st kv = dump_string st (fst kv) @ key_sep st @ json_dumps st (snd kv)"

lemma json_dumps_dict:
  "json_dumps st (PDict d) = ''{'' @ py_join (item_sep st) (map (dump_member st) d) @ ''}''"
proof -
  have "dump_member st = (\<lambda>(k, v). dump_string st k @ key_sep st @ json_dumps st v)"
    by (auto simp: fun_eq_iff dump_member_def)
  then show ?thesis by simp
qed

lemma parse_member_dumps:
  assumes "json_ok v" "valid_utf8 k" "reads_back st v" "stops r"
    and "length (json_dumps st v) \<le> m"
  shows "\<exists>s1 s2 s3. dump_member st (k, v) @ r = CHR 0x22 # s1 \<and> parse_str s1 = Some (k, s2) \<and>
    skip_ws s2 = CHR '':'' # s3 \<and> parse_value m (skip_ws s3) = Some (v, r)"
proof -
  obtain w where w: "key_sep st = CHR '':'' # w" "\<And>r. skip_ws (w @ r) = skip_ws r"
    using key_sep_split by blast
  obtain t where "dump_string st k @ (CHR '':'' # w @ json_dumps st v @ r) = CHR 0x22 # t"
    "parse_str t = Some (k, CHR '':'' # w @ json_dumps st v @ r)"
    using parse_dump_string [OF assms(2)] by blast
  moreover have "parse_value m (json_dumps st v @ r) = Some (v, r)"
    using assms(3,4,5) by (rule reads_backD)
  ultimately show ?thesis using w
    by (auto simp: dump_member_def skip_ws_dumps [OF assms(1)])
qed

lemma parse_members_dumps:
  assumes "d \<noteq> []" "\<forall>kv \<in> set d. valid_utf8 (fst kv) \<and> json_ok (snd kv) \<and> reads_back st (snd kv)"
    and "length (py_join (item_sep st) (map (dump_member st) d)) < n"
  shows "parse_members n (py_join (item_sep st) (map (dump_member st) d) @ CHR ''}'' # r) = Some (d, r)"
  using assms
proof (induction d arbitrary: n)
  case (Cons kv d)
  obtain k v where kv: "kv = (k, v)" by fastforce
  from Cons.prems(3) obtain m where n: "n = Suc m" by (cases n) auto
  obtain w where w: "item_sep st = CHR '','' # w" "\<And>r. skip_ws (w @ r) = skip_ws r"
    using item_sep_split by blast
  have ok: "json_ok v" "valid_utf8 k" "reads_back st v" using Cons.prems(2) kv by auto
  have len: "length (json_dumps st v) \<le> length (dump_member st kv)" by (simp add: dump_member_def kv)
  show ?case
  proof (cases d)
    case Nil
    with Cons.prems n len have "length (json_dumps st v) \<le> m" by simp
    from parse_member_dumps [OF ok _ this, of "CHR ''}'' # r"] show ?thesis
      using Nil n kv by (auto simp: parse_members_Suc)
  next
    case (Cons u us)
    let ?rest = "py_join (item_sep st) (map (dump_member st) d) @ CHR ''}'' # r"
    from Cons.prems(3) n \<open>d = u # us\<close> w len have m:
      "length (json_dumps st v) \<le> m" "length (py_join (item_sep st) (map (dump_member st) d)) < m"
      by (auto simp: py_join_Cons)
    have "skip_ws ?rest = ?rest"
      using \<open>d = u # us\<close> dump_string_first [of st "fst u"]
      by (cases us) (auto simp: skip_ws_def is_ws_def dump_member_def)
    moreover have "parse_members m ?rest = Some (d, r)"
      using Cons.IH Cons.prems(2) \<open>d = u # us\<close> m by auto
    ultimately show ?thesis
      using parse_member_dumps [OF ok _ m(1), of "CHR '','' # w @ ?rest"] n \<open>d = u # us\<close> w kv
      by (auto simp: parse_members_Suc py_join_Cons)
  qed
qed simp

lemma parse_value_atom:
  assumes "parse_atom s = Some (v, r)" "s = c # t" "c \<notin> {CHR 0x22, CHR ''['', CHR ''{''}" "0 < n"
  shows "parse_value n s = Some (v, r)"
  using assms by (cases n) (auto simp: parse_value_Suc)

lemma parse_value_number:
  assumes "parse_number s = Some (v, r)" "0 < n"
  shows "parse_value n s = Some (v, r)"
proof -
  from parse_number_first [OF assms(1)] obtain c t where "s = c # t" "is_digit c \<or> c = CHR ''-''"
    by auto
  then show ?thesis
    by (intro parse_value_atom [OF parse_atom_number [OF assms(1)] _ _ assms(2)])
      (auto simp: is_digit_def)
qed

theorem reads_back_ok: "json_ok v \<Longrightarrow> reads_back st v"
proof (induction v)
  case PNone
  show ?case
    by (auto simp: reads_back_def parse_atom_def starts_with_def intro!: parse_value_atom)
next
  case (PBool b)
  show ?case
    by (cases b; auto simp: reads_back_def parse_atom_def starts_with_def intro!: parse_value_atom)
next
  case (PInt i)
  have "0 < length (int_text i)" using int_text_first [of i] by auto
  then show ?case
    unfolding reads_back_def
    by (auto intro!: parse_value_number parse_number_int intro: less_le_trans)
next
  case (PFloat f)
  show ?case
  proof (cases f)
    case (Finite q t)
    with PFloat have p: "parse_number t = Some (PFloat f, [])" by simp
    from parse_number_first [OF this] have "0 < length t" by auto
    with Finite show ?thesis
      unfolding reads_back_def
      by (auto intro!: parse_value_number parse_number_append [OF p [unfolded Finite]] intro: less_le_trans)
  qed (auto simp: reads_back_def parse_atom_def starts_with_def intro!: parse_value_atom)
next
  case (PStr s)
  then have v: "valid_utf8 s" by simp
  show ?case
    unfolding reads_back_def
  proof (intro allI impI)
    fix n r
    assume "length (json_dumps st (PStr s)) \<le> n"
    then obtain m where "n = Suc m" using dump_string_length [of st s] by (cases n) auto
    then show "parse_value n (json_dumps st (PStr s) @ r) = Some (PStr s, r)"
      using parse_dump_string [OF v, of st r] by (auto simp: parse_value_Suc)
  qed
next
  case (PList xs)
  then have ok: "\<forall>v \<in> set xs. json_ok v \<and> reads_back st v" by (auto simp: list_all_iff)
  show ?case
    unfolding reads_back_def
  proof (intro allI impI)
    fix n r
    assume n: "length (json_dumps st (PList xs)) \<le> n"
    then obtain m where m: "n = Suc m" by (cases n) auto
    show "parse_value n (json_dumps st (PList xs) @ r) = Some (PList xs, r)"
    proof (cases "xs = []")
      case True
      with m show ?thesis by (simp add: parse_value_Suc)
    next
      case False
      let ?s = "py_join (item_sep st) (map (json_dumps st) xs) @ CHR '']'' # r"
      from False obtain c t where ct: "?s = c # t" "\<not> is_ws c" "c \<noteq> CHR '']''"
        using ok json_dumps_first [of "hd xs" st] by (cases xs; cases "tl xs") (auto simp: py_join_Cons)
      have "parse_elems m ?s = Some (xs, r)"
        using False ok n m by (intro parse_elems_dumps) auto
      with ct m show ?thesis by (auto simp: parse_value_Suc skip_ws_def)
    qed
  qed
next
  case (PDict d)
  then have ok: "\<forall>kv \<in> set d. valid_utf8 (fst kv) \<and> json_ok (snd kv) \<and> reads_back st (snd kv)"
    by (fastforce simp: list_all_iff)
  have dist: "dupdate [] d = d" using PDict.prems by (simp add: dupdate_Nil)
  show ?case
    unfolding reads_back_def
  proof (intro allI impI)
    fix n r
    assume n: "length (json_dumps st (PDict d)) \<le> n"
    then obtain m where m: "n = Suc m" by (cases n) auto
    show "parse_value n (json_dumps st (PDict d) @ r) = Some (PDict d, r)"
    proof (cases "d = []")
      case True
      with m show ?thesis by (simp add: parse_value_Suc)
    next
      case False
      let ?s = "py_join (item_sep st) (map (dump_member st) d) @ CHR ''}'' # r"
      from False obtain c t where ct: "?s = c # t" "\<not> is_ws c" "c \<noteq> CHR ''}''"
        using dump_string_first [of st "fst (hd d)"]
        by (cases d; cases "tl d") (auto simp: py_join_Cons dump_member_def)
      have "parse_members m ?s = Some (d, r)"
        using False ok n m unfolding json_dumps_dict by (intro parse_members_dumps) auto
      with ct m dist show ?thesis unfolding json_dumps_dict by (auto simp: parse_value_Suc skip_ws_def)
    qed
  qed
qed

theorem json_loads_dumps: "json_ok v \<Longrightarrow> json_loads (json_dumps st v) = Inr v"
proof -
  assume ok: "json_ok v"
  have s: "skip_ws (json_dumps st v) = json_dumps st v" using skip_ws_dumps [OF ok, of st "[]"] by simp
  have "parse_value (2 * length (json_dumps st v)) (json_dumps st v) = Some (v, [])"
    using reads_backD [OF reads_back_ok [OF ok], of "[]"] by simp
  moreover have "skip_ws [] = []" by (simp add: skip_ws_def)
  ultimately show ?thesis by (simp add: json_loads_def s)
qed

corollary json_dumps_inject:
  "json_ok v \<Longrightarrow> json_ok w \<Longrightarrow> json_dumps st v = json_dumps st w \<longleftrightarrow> v = w"
  using json_loads_dumps by (metis sum.inject(2))

subsection \<open>What is written is one line of UTF-8\<close>

lemma hex_digit_code: "n < 16 \<Longrightarrow> 48 \<le> code (hex_digit n) \<and> code (hex_digit n) < 103"
  by (auto simp: hex_digit_def)

lemma hex4_digits: "n < 0x10000 \<Longrightarrow> c \<in> set (hex4 n) \<Longrightarrow> \<exists>d < 16. c = hex_digit d"
proof -
  assume "n < 0x10000"
  then have "n div 4096 < 16" by (simp add: less_mult_imp_div_less)
  moreover have "m mod 16 < 16" for m :: nat by simp
  moreover assume "c \<in> set (hex4 n)"
  then have "c \<in> hex_digit ` {n div 4096, n div 256 mod 16, n div 16 mod 16, n mod 16}"
    by (simp add: hex4_def)
  ultimately show ?thesis by blast
qed

lemma u_escape_printable:
  assumes "n < 0x10000" "c \<in> set (u_escape n)"
  shows "32 \<le> code c \<and> code c < 127"
proof -
  have "c = CHR 0x5C \<or> c = CHR ''u'' \<or> (\<exists>d < 16. c = hex_digit d)"
    using assms(2) hex4_digits [OF assms(1)] by (simp add: u_escape_def) blast
  then show ?thesis
  proof (elim disjE exE conjE)
    fix d :: nat
    assume "d < 16" "c = hex_digit d"
    with hex_digit_code [of d] show ?thesis by simp
  qed simp_all
qed

lemma short_escape_printable: "short_escape n = Some e \<Longrightarrow> 32 \<le> code e \<and> code e < 127"
  by (auto simp: short_escape_def split: if_splits)

lemma esc_byte_printable: "c \<in> set (esc_byte b) \<Longrightarrow> 32 \<le> code c"
proof (cases "short_escape (code b)")
  case None
  moreover assume "c \<in> set (esc_byte b)"
  ultimately show ?thesis using u_escape_printable [of "code b" c]
    by (auto simp: esc_byte_def split: if_splits)
next
  case (Some e)
  moreover assume "c \<in> set (esc_byte b)"
  ultimately show ?thesis using short_escape_printable [OF Some] by (auto simp: esc_byte_def)
qed

lemma esc_cp_printable: "scalar n \<Longrightarrow> c \<in> set (esc_cp n) \<Longrightarrow> 32 \<le> code c \<and> code c < 127"
proof (cases "short_escape n")
  case None
  assume n: "scalar n" and c: "c \<in> set (esc_cp n)"
  from n have "(n - 0x10000) div 1024 < 1024" by (auto simp: scalar_def intro!: less_mult_imp_div_less)
  with None c show ?thesis
    using u_escape_printable [of n c] u_escape_printable [of "0xD800 + (n - 0x10000) div 1024" c]
      u_escape_printable [of "0xDC00 + (n - 0x10000) mod 1024" c]
    by (auto simp: esc_cp_def split: if_splits)
next
  case (Some e)
  assume "c \<in> set (esc_cp n)"
  with Some short_escape_printable [OF Some] show ?thesis by (auto simp: esc_cp_def)
qed

lemma dump_string_printable:
  assumes "c \<in> set (dump_string st s)"
  shows "32 \<le> code c"
proof -
  have "c = CHR 0x22 \<or> (\<exists>b. c \<in> set (esc_byte b)) \<or> (\<exists>n. scalar n \<and> c \<in> set (esc_cp n))"
    using assms utf8_encode_decode [of s]
    by (cases "utf8_decode s") (auto simp: dump_string_def split: if_split_asm)
  then show ?thesis
  proof (elim disjE exE conjE)
    fix b assume "c \<in> set (esc_byte b)"
    then show ?thesis by (rule esc_byte_printable)
  next
    fix n assume "scalar n" "c \<in> set (esc_cp n)"
    from esc_cp_printable [OF this] show ?thesis by (rule conjunct1)
  qed simp
qed

lemma num_char_printable: "num_char c \<Longrightarrow> 32 \<le> code c \<and> code c < 127"
  by (auto simp: num_char_def is_digit_def)

lemma digits_printable: "c \<in> set (takeWhile is_digit s) \<Longrightarrow> num_char c"
  by (auto simp: num_char_def dest: set_takeWhileD)

lemma int_part_chars: "int_part s = (ip, r) \<Longrightarrow> s = ip @ r \<and> (\<forall>c \<in> set ip. num_char c)"
proof (cases "s \<noteq> [] \<and> hd s = CHR ''0''")
  case True
  moreover assume "int_part s = (ip, r)"
  moreover have "num_char CHR ''0''" by (simp add: num_char_def is_digit_def)
  ultimately show ?thesis by (cases s) (auto simp: int_part_def)
next
  case False
  assume "int_part s = (ip, r)"
  with False show ?thesis using digits_printable [of _ s] by (auto simp: int_part_def)
qed

lemma frac_part_chars:
  "frac_part s = (fp, r) \<Longrightarrow> \<exists>p. s = p @ r \<and> (\<forall>c \<in> set p. num_char c)"
proof (cases s)
  case (Cons c t)
  assume f: "frac_part s = (fp, r)"
  show ?thesis
  proof (cases "c = CHR ''.'' \<and> takeWhile is_digit t \<noteq> []")
    case True
    with f Cons have "s = (c # takeWhile is_digit t) @ r" by (auto simp: frac_part_def)
    with True digits_printable [of _ t] show ?thesis
      by (intro exI [of _ "c # takeWhile is_digit t"]) (auto simp: num_char_def)
  next
    case False
    with f Cons show ?thesis by (auto simp: frac_part_def)
  qed
qed (simp add: frac_part_def)

lemma exp_part_chars:
  "exp_part s = (b, ep, r) \<Longrightarrow> \<exists>p. s = p @ r \<and> (\<forall>c \<in> set p. num_char c)"
proof (cases s)
  case (Cons c t)
  assume f: "exp_part s = (b, ep, r)"
  define u where "u = (if t \<noteq> [] \<and> (hd t = CHR ''-'' \<or> hd t = CHR ''+'') then tl t else t)"
  have u: "\<exists>p. t = p @ u \<and> (\<forall>c \<in> set p. num_char c)"
    by (cases t) (auto simp: u_def num_char_def)
  then obtain p where p: "t = p @ u" "\<forall>c \<in> set p. num_char c" by blast
  have e: "exp_part s =
      (if (c = CHR ''e'' \<or> c = CHR ''E'') \<and> takeWhile is_digit u \<noteq> []
       then (t \<noteq> [] \<and> hd t = CHR ''-'', takeWhile is_digit u, dropWhile is_digit u)
       else (False, [], s))"
    using Cons by (simp add: exp_part_def Let_def u_def)
  show ?thesis
  proof (cases "(c = CHR ''e'' \<or> c = CHR ''E'') \<and> takeWhile is_digit u \<noteq> []")
    case True
    with e f have "r = dropWhile is_digit u" by simp
    with Cons p have "s = (c # p @ takeWhile is_digit u) @ r" by simp
    moreover have "\<forall>x \<in> set (c # p @ takeWhile is_digit u). num_char x"
      using True p(2) digits_printable [of _ u] by (auto simp: num_char_def)
    ultimately show ?thesis by blast
  next
    case False
    with e f have "r = s" by (simp split: if_split_asm)
    then show ?thesis by simp
  qed
qed (simp add: exp_part_def)

text \<open>A literal that is read to its end consists of the characters of numbers.\<close>

lemma parse_number_chars: "parse_number s = Some (v, []) \<Longrightarrow> \<forall>c \<in> set s. num_char c"
proof -
  assume p: "parse_number s = Some (v, [])"
  let ?s = "if s \<noteq> [] \<and> hd s = CHR ''-'' then tl s else s"
  obtain ip s1 where i: "int_part ?s = (ip, s1)" by fastforce
  obtain fp s2 where f: "frac_part s1 = (fp, s2)" by fastforce
  obtain b ep s3 where e: "exp_part s2 = (b, ep, s3)" by (metis prod_cases3)
  from p i f e have "s1 = [] \<or> s3 = []" by (auto simp: parse_number_def Let_def split: if_splits)
  with int_part_chars [OF i] frac_part_chars [OF f] exp_part_chars [OF e]
  have "\<forall>c \<in> set ?s. num_char c" by auto
  then show ?thesis by (cases s) (auto simp: num_char_def split: if_splits)
qed

lemma py_join_chars: "c \<in> set (py_join sep xs) \<Longrightarrow> c \<in> set sep \<or> (\<exists>x \<in> set xs. c \<in> set x)"
  by (induction sep xs rule: py_join.induct) auto

lemma sep_printable: "c \<in> set (item_sep st) \<union> set (key_sep st) \<Longrightarrow> 32 \<le> code c"
  by (cases st) auto

lemma int_text_printable: "c \<in> set (int_text i) \<Longrightarrow> 32 \<le> code c"
  using nat_text_digits by (fastforce simp: int_text_def is_digit_def split: if_splits)

theorem json_dumps_printable: "json_ok v \<Longrightarrow> c \<in> set (json_dumps st v) \<Longrightarrow> 32 \<le> code c"
proof (induction v)
  case (PBool b)
  then show ?case by (cases b) auto
next
  case (PInt i)
  then show ?case by (simp add: int_text_printable)
next
  case (PFloat f)
  show ?case
  proof (cases f)
    case (Finite q t)
    with PFloat show ?thesis using parse_number_chars [of t] num_char_printable by auto
  qed (use PFloat in auto)
next
  case (PStr s)
  then show ?case by (simp add: dump_string_printable)
next
  case (PList xs)
  then show ?case
    by (auto simp: list_all_iff dest!: py_join_chars intro: sep_printable)
next
  case (PDict d)
  have m: "32 \<le> code c" if "kv \<in> set d" "c \<in> set (dump_member st kv)" for kv
    using that PDict by (fastforce simp: dump_member_def list_all_iff
        intro: sep_printable dump_string_printable)
  from PDict.prems(2) show ?case unfolding json_dumps_dict
    by (auto dest!: py_join_chars intro: sep_printable m)
qed auto

text \<open>With \<open>ensure_ascii=False\<close> the bytes of the text pass through, so the line is UTF-8 again.\<close>

lemma utf8_encode_cp_bytes:
  "scalar n \<Longrightarrow> 0x80 \<le> n \<Longrightarrow> c \<in> set (utf8_encode_cp n) \<Longrightarrow> 0x80 \<le> code c"
proof -
  assume n: "scalar n" "0x80 \<le> n" and c: "c \<in> set (utf8_encode_cp n)"
  have "m mod 64 < 64" for m :: nat by simp
  then have k: "code (char_of (0x80 + m mod 64)) = 0x80 + m mod 64" for m :: nat
    by (intro code_char_of) (simp add: less_trans)
  have "n div 64 < 32 \<or> 0x800 \<le> n" "n div 4096 < 16 \<or> 0x10000 \<le> n" "n div 262144 < 5"
    using n by (auto simp: scalar_def less_mult_imp_div_less not_le)
  with c n k show ?thesis
    by (auto simp: utf8_encode_cp_def simp del: of_char_of split: if_split_asm)
qed

lemma esc_byte_high: "0x80 \<le> code c \<Longrightarrow> esc_byte c = [c]"
  by (auto simp: esc_byte_def short_escape_def)

lemma esc_byte_ascii: "code b < 0x80 \<Longrightarrow> c \<in> set (esc_byte b) \<Longrightarrow> code c < 0x80"
  using u_escape_printable [of "code b" c] short_escape_printable [of "code b"]
  by (auto simp: esc_byte_def split: option.splits if_splits)

lemma concat_map_single: "(\<forall>c \<in> set s. f c = [c]) \<Longrightarrow> concat (map f s) = s"
  by (induction s) auto

lemma valid_esc_bytes: "(\<forall>n \<in> set ns. scalar n) \<Longrightarrow> valid_utf8 (concat (map esc_byte (utf8_encode ns)))"
proof (induction ns)
  case (Cons n ns)
  have "valid_utf8 (concat (map esc_byte (utf8_encode_cp n)))"
  proof (cases "n < 0x80")
    case True
    then show ?thesis
      using esc_byte_ascii [of "char_of n"] by (simp add: utf8_encode_cp_def valid_utf8_ascii)
  next
    case False
    with Cons.prems have "\<forall>c \<in> set (utf8_encode_cp n). esc_byte c = [c]"
      using utf8_encode_cp_bytes esc_byte_high by auto
    then have "concat (map esc_byte (utf8_encode_cp n)) = utf8_encode_cp n"
      by (rule concat_map_single)
    moreover have "utf8_decode (utf8_encode [n]) = Some [n]"
      using Cons.prems by (intro utf8_decode_encode) simp
    ultimately show ?thesis by (simp add: valid_utf8_def utf8_encode_def)
  qed
  with Cons show ?case by (simp add: utf8_encode_def)
qed (simp add: utf8_encode_def)

lemma valid_dump_string: "valid_utf8 s \<Longrightarrow> valid_utf8 (dump_string st s)"
proof -
  assume "valid_utf8 s"
  then obtain ns where ns: "utf8_decode s = Some ns" by (auto simp: valid_utf8_def)
  note e = utf8_encode_decode [OF ns]
  have "valid_utf8 (concat (map esc_cp ns))"
    using e esc_cp_printable by (intro valid_utf8_ascii) fastforce
  moreover have "valid_utf8 (concat (map esc_byte s))" using valid_esc_bytes [of ns] e by simp
  ultimately show ?thesis using ns by (simp add: dump_string_def)
qed

lemma valid_py_join: "valid_utf8 sep \<Longrightarrow> (\<forall>x \<in> set xs. valid_utf8 x) \<Longrightarrow> valid_utf8 (py_join sep xs)"
  by (induction sep xs rule: py_join.induct) auto

lemma valid_seps [simp]: "valid_utf8 (item_sep st)" "valid_utf8 (key_sep st)"
  by (cases st; simp)+

lemma int_text_num: "c \<in> set (int_text i) \<Longrightarrow> num_char c"
  by (auto simp: int_text_def num_char_def dest: nat_text_digits split: if_splits)

theorem valid_json_dumps: "json_ok v \<Longrightarrow> valid_utf8 (json_dumps st v)"
proof (induction v)
  case (PInt i)
  have "code c < 0x80" if "c \<in> set (int_text i)" for c
    using num_char_printable [OF int_text_num [OF that]] by simp
  then show ?case by (simp add: valid_utf8_ascii)
next
  case (PFloat f)
  show ?case
  proof (cases f)
    case (Finite q t)
    with PFloat have "\<forall>c \<in> set t. num_char c" by (auto dest!: parse_number_chars)
    with Finite show ?thesis using num_char_printable by (fastforce intro!: valid_utf8_ascii)
  qed simp_all
next
  case (PStr s)
  then show ?case by (simp add: valid_dump_string)
next
  case (PList xs)
  then show ?case by (auto simp: list_all_iff intro!: valid_py_join valid_utf8_append)
next
  case (PDict d)
  have "valid_utf8 (dump_member st kv)" if "kv \<in> set d" for kv
  proof -
    obtain k v where kv: "kv = (k, v)" by fastforce
    with PDict.prems that have "valid_utf8 k" "json_ok v" by (auto simp: list_all_iff)
    moreover from this have "valid_utf8 (json_dumps st v)"
      using PDict.IH [OF that, of v] kv by simp
    ultimately show ?thesis by (simp add: dump_member_def kv valid_dump_string)
  qed
  then have j: "valid_utf8 (py_join (item_sep st) (map (dump_member st) d))"
    by (intro valid_py_join) auto
  show ?case unfolding json_dumps_dict by (intro valid_utf8_append j) simp_all
qed auto

corollary json_loads_bytes_dumps: "json_ok v \<Longrightarrow> json_loads_bytes (json_dumps st v) = Inr v"
  by (simp add: json_loads_bytes_def valid_json_dumps json_loads_dumps)

end
