(* ===== verification/Base64.thy ===== *)
theory Base64
  imports Py_Text
begin

section \<open>URL-safe Base64\<close>

text \<open>
  \<open>base64.urlsafe_b64encode\<close> and \<open>base64.urlsafe_b64decode\<close>. The decoder is CPython's
  non-strict loop: it skips bytes outside the alphabet, stops at a complete padding and fails
  when the input ends inside a group of four.
\<close>

definition b64_char :: "nat \<Rightarrow> char" where
  "b64_char n =
     (if n < 26 then char_of (65 + n) else if n < 52 then char_of (71 + n)
      else if n < 62 then char_of (n - 4) else if n = 62 then CHR ''-'' else CHR ''_'')"

definition b64_val :: "char \<Rightarrow> nat option" where
  "b64_val c =
     (let n = code c in
      if 65 \<le> n \<and> n \<le> 90 then Some (n - 65)
      else if 97 \<le> n \<and> n \<le> 122 then Some (n - 71)
      else if 48 \<le> n \<and> n \<le> 57 then Some (n + 4)
      else if c = CHR ''-'' \<or> c = CHR ''+'' then Some 62
      else if c = CHR ''_'' \<or> c = CHR ''/'' then Some 63 else None)"

fun b64_encode :: "string \<Rightarrow> string" where
  "b64_encode [] = []"
| "b64_encode [a] =
     [b64_char (code a div 4), b64_char (code a mod 4 * 16), CHR ''='', CHR ''='']"
| "b64_encode [a, b] =
     [b64_char (code a div 4), b64_char (code a mod 4 * 16 + code b div 16),
      b64_char (code b mod 16 * 4), CHR ''='']"
| "b64_encode (a # b # c # s) =
     b64_char (code a div 4) # b64_char (code a mod 4 * 16 + code b div 16)
     # b64_char (code b mod 16 * 4 + code c div 64) # b64_char (code c mod 64) # b64_encode s"

text \<open>State of the loop: position in the group, bits left over, paddings seen.\<close>

fun a2b_loop :: "nat \<Rightarrow> nat \<Rightarrow> nat \<Rightarrow> string \<Rightarrow> string option" where
  "a2b_loop q l p [] = (if q = 0 then Some [] else None)"
| "a2b_loop q l p (c # s) =
     (if c = CHR ''='' then
        (if 2 \<le> q \<and> 4 \<le> q + (p + 1) then Some []
         else a2b_loop q l (if 2 \<le> q then p + 1 else p) s)
      else (case b64_val c of
          None \<Rightarrow> a2b_loop q l p s
        | Some v \<Rightarrow>
            (if q = 0 then a2b_loop 1 v 0 s
             else if q = 1 then
               map_option (Cons (char_of (l * 4 + v div 16))) (a2b_loop 2 (v mod 16) 0 s)
             else if q = 2 then
               map_option (Cons (char_of (l * 16 + v div 4))) (a2b_loop 3 (v mod 4) 0 s)
             else map_option (Cons (char_of (l * 64 + v))) (a2b_loop 0 0 0 s))))"

definition b64_decode :: "string \<Rightarrow> string option" where
  "b64_decode s = a2b_loop 0 0 0 s"

lemma b64_val_char [simp]: "n < 64 \<Longrightarrow> b64_val (b64_char n) = Some n"
proof -
  assume "n < 64"
  then consider "n < 26" | "26 \<le> n" "n < 52" | "52 \<le> n" "n < 62" | "n = 62" | "n = 63"
    by linarith
  then show ?thesis by cases (auto simp: b64_char_def b64_val_def Let_def)
qed

lemma b64_char_not_pad [simp]: "n < 64 \<Longrightarrow> b64_char n \<noteq> CHR ''=''"
  using b64_val_char [of n] by (auto simp: b64_val_def)

definition token_char :: "char \<Rightarrow> bool" where
  "token_char c \<longleftrightarrow> (\<exists>n < 64. c = b64_char n)"

lemma token_char_b64 [simp]: "n < 64 \<Longrightarrow> token_char (b64_char n)"
  by (auto simp: token_char_def)

lemma token_char_other:
  assumes "token_char c"
  shows "\<not> is_space c" "c \<noteq> CHR ''/''" "c \<noteq> CHR ''=''" "code c < 0x80"
proof -
  from assms obtain n where n: "n < 64" "c = b64_char n" by (auto simp: token_char_def)
  then consider "n < 26" | "26 \<le> n" "n < 52" | "52 \<le> n" "n < 62" | "n = 62" | "n = 63"
    by linarith
  then have "\<not> is_space c \<and> code c \<noteq> 47 \<and> code c \<noteq> 61 \<and> code c < 0x80"
    by cases (auto simp: n b64_char_def is_space_def)
  then show "\<not> is_space c" "c \<noteq> CHR ''/''" "c \<noteq> CHR ''=''" "code c < 0x80" by auto
qed

lemma six_bits:
  "code a div 4 < 64" "code a mod 4 * 16 < 64" "code a mod 4 * 16 + code b div 16 < 64"
  "code b mod 16 * 4 < 64" "code b mod 16 * 4 + code c div 64 < 64"
proof -
  have "code a div 4 < 64" "code b div 16 < 16" "code c div 64 < 4"
    by (simp_all add: less_mult_imp_div_less)
  moreover have "code a mod 4 < 4" "code b mod 16 < 16" by simp_all
  ultimately show "code a div 4 < 64" "code a mod 4 * 16 < 64"
    "code a mod 4 * 16 + code b div 16 < 64" "code b mod 16 * 4 < 64"
    "code b mod 16 * 4 + code c div 64 < 64" by linarith+
qed

lemma high_bits: "code b div 16 < 16" "code c div 64 < 4"
  by (simp_all add: less_mult_imp_div_less)

theorem b64_decode_encode: "b64_decode (b64_encode s) = Some s"
  unfolding b64_decode_def
  by (induction s rule: b64_encode.induct) (simp_all add: six_bits high_bits)

lemma b64_encode_shape:
  "\<exists>t k. b64_encode s = t @ replicate k CHR ''='' \<and> (\<forall>c \<in> set t. token_char c) \<and> k \<le> 2
     \<and> length t mod 4 = (4 - k) mod 4 \<and> (t = [] \<longrightarrow> s = [])"
proof (induction s rule: b64_encode.induct)
  case (2 a)
  show ?case
    by (intro exI [of _ "[b64_char (code a div 4), b64_char (code a mod 4 * 16)]"] exI [of _ 2])
      (simp add: six_bits numeral_2_eq_2)
next
  case (3 a b)
  show ?case
    by (intro exI [of _ "[b64_char (code a div 4), b64_char (code a mod 4 * 16 + code b div 16),
        b64_char (code b mod 16 * 4)]"] exI [of _ 1]) (simp add: six_bits)
next
  case (4 a b c s)
  then obtain t k where "b64_encode s = t @ replicate k CHR ''=''" "\<forall>c \<in> set t. token_char c" "k \<le> 2"
    "length t mod 4 = (4 - k) mod 4" by blast
  then show ?case
    by (intro exI [of _ "b64_char (code a div 4) # b64_char (code a mod 4 * 16 + code b div 16)
      # b64_char (code b mod 16 * 4 + code c div 64) # b64_char (code c mod 64) # t"] exI [of _ k])
      (auto simp: six_bits)
qed simp

text \<open>A token: the encoding without its padding; padding it again by its length restores it.\<close>

definition strip_pad :: "string \<Rightarrow> string" where
  "strip_pad s = rstrip_while (\<lambda>c. c = CHR ''='') s"

definition pad4 :: "string \<Rightarrow> string" where
  "pad4 t = t @ replicate ((4 - py_len t mod 4) mod 4) CHR ''=''"

lemma py_len_ascii: "(\<forall>c \<in> set s. code c < 0x80) \<Longrightarrow> py_len s = length s"
  by (induction s) (auto simp: is_cont_def)

theorem strip_pad_token:
  "(\<forall>c \<in> set (strip_pad (b64_encode s)). token_char c) \<and> pad4 (strip_pad (b64_encode s)) = b64_encode s
     \<and> (strip_pad (b64_encode s) = [] \<longrightarrow> s = [])"
proof -
  obtain t k where e: "b64_encode s = t @ replicate k CHR ''=''" and t: "\<forall>c \<in> set t. token_char c"
    and k: "k \<le> 2" "length t mod 4 = (4 - k) mod 4" "t = [] \<longrightarrow> s = []"
    using b64_encode_shape [of s] by blast
  have "t = [] \<or> last t \<noteq> CHR ''=''" using t token_char_other(3) last_in_set by blast
  then have s: "strip_pad (b64_encode s) = t"
    unfolding strip_pad_def e by (intro rstrip_while_append) auto
  have "py_len t = length t" using t token_char_other(4) by (intro py_len_ascii) blast
  moreover have "(4 - (4 - k) mod 4) mod 4 = k" using k(1) by (auto simp: le_Suc_eq numeral_2_eq_2)
  ultimately have "pad4 t = b64_encode s" using k e by (simp add: pad4_def)
  with s t k(3) show ?thesis by simp
qed

end
