(* ===== verification/Tags.thy ===== *)
theory Tags
  imports Json_Roundtrip Base64
begin

section \<open>Attribution tags (\<open>proxy/tags.py\<close>, first half)\<close>

text \<open>
  \<open>normalize_tags\<close> validates a tag mapping; \<open>encode_tags\<close> and \<open>decode_tags\<close> turn it into a
  token and back; \<open>token_from_api_key\<close> and \<open>split_path_token\<close> find a token in the two places
  that carry one. The main facts: \<open>normalize_tags_ok\<close> and \<open>normalize_tags_id\<close> (what is
  normalised is exactly what \<open>tags_ok\<close> describes, and normalising again changes nothing) and
  \<open>decode_encode_tags\<close>, the token round trip through JSON and Base64.
\<close>

definition TAG_FIELDS :: "string list" where
  "TAG_FIELDS = [''system'', ''configuration'', ''seed'', ''session_id'', ''operation'',
     ''run_id'', ''client_id'']"

definition ALLOWED_OPERATIONS :: "string list" where
  "ALLOWED_OPERATIONS = [''write'', ''consolidate'', ''read'', ''embed'', ''answer'', ''judge'',
     ''settle'', ''meta'', ''warmup'']"

definition HEADER_TO_FIELD :: "(string \<times> string) list" where
  "HEADER_TO_FIELD =
    [(''x-bench-system'', ''system''), (''x-bench-configuration'', ''configuration''),
     (''x-bench-seed'', ''seed''), (''x-bench-session'', ''session_id''),
     (''x-bench-operation'', ''operation''), (''x-bench-run'', ''run_id''),
     (''x-bench-client'', ''client_id'')]"

definition FIELD_TO_HEADER :: "(string \<times> string) list" where
  "FIELD_TO_HEADER = map (\<lambda>(h, f). (f, h)) HEADER_TO_FIELD"

definition TAGS_HEADER :: string where
  "TAGS_HEADER = ''x-bench-tags''"

definition API_KEY_PREFIXES :: "string list" where
  "API_KEY_PREFIXES = [''sk-bench-'', ''bench-'']"

definition PATH_TOKEN_PREFIX :: string where
  "PATH_TOKEN_PREFIX = ''/b/''"

definition MAX_TAG_LEN :: nat where
  "MAX_TAG_LEN = 256"

subsection \<open>normalize_tags\<close>

text \<open>The messages of the five refusals.\<close>

definition unknown_field_msg :: "string \<Rightarrow> string" where
  "unknown_field_msg k = ''unknown tag field '' @ repr_str k @ ''; allowed: '' @ repr_str_tuple TAG_FIELDS"

definition seed_msg :: "pyval \<Rightarrow> string" where
  "seed_msg v = ''seed must be an integer, got '' @ py_repr v"

definition too_long_msg :: "string \<Rightarrow> string" where
  "too_long_msg k = ''tag '' @ repr_str k @ '' exceeds '' @ nat_text MAX_TAG_LEN @ '' characters''"

definition operation_msg :: "string \<Rightarrow> string" where
  "operation_msg s = ''operation '' @ repr_str s @ '' not in '' @ repr_str_list (sort ALLOWED_OPERATIONS)"

definition system_msg :: "string \<Rightarrow> string list \<Rightarrow> string" where
  "system_msg s al = ''system '' @ repr_str s @ '' not in allowed systems '' @ repr_str_list (sort al)"

text \<open>One turn of the loop: \<open>None\<close> is \<open>continue\<close>, \<open>Some w\<close> is \<open>out[key] = w\<close>.\<close>

definition seed_field :: "pyval \<Rightarrow> pyval option raises" where
  "seed_field v =
     (case py_int v of
        Inr i \<Rightarrow> Inr (Some (PInt i))
      | Inl e \<Rightarrow> if e = TypeError \<or> is_value_error e then Inl (TagError (seed_msg v)) else Inl e)"

definition text_field :: "string list option \<Rightarrow> string \<Rightarrow> string \<Rightarrow> pyval option raises" where
  "text_field allowed k s =
     (if s = [] then Inr None
      else if py_len s > MAX_TAG_LEN then Inl (TagError (too_long_msg k))
      else if k = ''operation'' \<and> s \<notin> set ALLOWED_OPERATIONS then Inl (TagError (operation_msg s))
      else if k = ''system'' \<and> allowed \<noteq> None \<and> s \<notin> set (the allowed)
        then Inl (TagError (system_msg s (the allowed)))
      else Inr (Some (PStr s)))"

definition normalize_field :: "string list option \<Rightarrow> string \<Rightarrow> pyval \<Rightarrow> pyval option raises" where
  "normalize_field allowed k v =
     (if k \<notin> set TAG_FIELDS then Inl (TagError (unknown_field_msg k))
      else if v = PNone then Inr None
      else if k = ''seed'' then seed_field v
      else text_field allowed k (py_str v))"

fun normalize_loop :: "string list option \<Rightarrow> pyval dict \<Rightarrow> pyval dict \<Rightarrow> pyval dict raises" where
  "normalize_loop allowed out [] = Inr out"
| "normalize_loop allowed out ((k, v) # raw) =
     bindE (normalize_field allowed k v)
       (\<lambda>r. normalize_loop allowed (case r of None \<Rightarrow> out | Some w \<Rightarrow> dset k w out) raw)"

definition normalize_tags :: "string list option \<Rightarrow> pyval dict \<Rightarrow> pyval dict raises" where
  "normalize_tags allowed raw = normalize_loop allowed [] raw"

text \<open>What a normalised value looks like.\<close>

definition text_ok :: "string list option \<Rightarrow> string \<Rightarrow> string \<Rightarrow> bool" where
  "text_ok allowed k s \<longleftrightarrow> s \<noteq> [] \<and> py_len s \<le> MAX_TAG_LEN \<and>
     (k = ''operation'' \<longrightarrow> s \<in> set ALLOWED_OPERATIONS) \<and>
     (k = ''system'' \<and> allowed \<noteq> None \<longrightarrow> s \<in> set (the allowed))"

definition field_ok :: "string list option \<Rightarrow> string \<Rightarrow> pyval \<Rightarrow> bool" where
  "field_ok allowed k v \<longleftrightarrow> k \<in> set TAG_FIELDS \<and>
     (case v of PInt i \<Rightarrow> k = ''seed'' | PStr s \<Rightarrow> k \<noteq> ''seed'' \<and> text_ok allowed k s | _ \<Rightarrow> False)"

definition tags_ok :: "string list option \<Rightarrow> pyval dict \<Rightarrow> bool" where
  "tags_ok allowed d \<longleftrightarrow> dict_ok d \<and> (\<forall>(k, v) \<in> set d. field_ok allowed k v)"

lemma text_field_Some: "text_field al k s = Inr (Some w) \<longleftrightarrow> w = PStr s \<and> text_ok al k s"
  by (auto simp: text_field_def text_ok_def)

lemma seed_field_Inr: "seed_field v = Inr r \<longleftrightarrow> (\<exists>i. py_int v = Inr i \<and> r = Some (PInt i))"
  by (auto simp: seed_field_def split: sum.splits)

lemma normalize_field_ok: "normalize_field al k v = Inr (Some w) \<Longrightarrow> field_ok al k w"
  by (auto simp: normalize_field_def field_ok_def text_field_Some seed_field_Inr
      simp del: set_simps split: if_split_asm)

lemma field_okE:
  assumes "field_ok al k v"
  obtains i where "v = PInt i" "k = ''seed''" "k \<in> set TAG_FIELDS"
  | s where "v = PStr s" "k \<noteq> ''seed''" "k \<in> set TAG_FIELDS" "text_ok al k s"
  using assms by (cases v) (auto simp: field_ok_def)

lemma normalize_field_id: "field_ok al k v \<Longrightarrow> normalize_field al k v = Inr (Some v)"
proof (erule field_okE)
  fix i assume v: "v = PInt i" and k: "k = ''seed''" "k \<in> set TAG_FIELDS"
  have "seed_field (PInt i) = Inr (Some (PInt i))"
    by (simp add: seed_field_Inr)
  then show ?thesis
    using k(2) by (simp only: normalize_field_def v k(1) if_True if_False simp_thms pyval.distinct)
next
  fix s assume v: "v = PStr s" and k: "k \<noteq> ''seed''" "k \<in> set TAG_FIELDS" and s: "text_ok al k s"
  have "text_field al k s = Inr (Some (PStr s))" "py_str (PStr s) = s"
    using s by (simp_all add: text_field_Some py_str_def)
  with k show ?thesis
    by (simp only: normalize_field_def v if_True if_False simp_thms pyval.distinct)
qed

lemma field_ok_None: "field_ok al k v \<Longrightarrow> field_ok None k v"
  by (erule field_okE) (auto simp: field_ok_def text_ok_def)

lemma field_ok_system: "field_ok (Some al) k v \<longleftrightarrow>
   field_ok None k v \<and> (\<forall>s. k = ''system'' \<and> v = PStr s \<longrightarrow> s \<in> set al)"
  by (cases v) (auto simp: field_ok_def text_ok_def)

lemma tags_ok_dset: "tags_ok al d \<Longrightarrow> field_ok al k v \<Longrightarrow> tags_ok al (dset k v d)"
proof -
  assume d: "tags_ok al d" and v: "field_ok al k v"
  have "field_ok al k' v'" if "(k', v') \<in> set (dset k v d)" for k' v'
  proof -
    have "dict_ok d" using d by (simp add: tags_ok_def)
    then have "dget (dset k v d) k' = Some v'"
      using that dict_ok_set_iff dict_ok_dset by metis
    then have "(k' = k \<and> v' = v) \<or> dget d k' = Some v'"
      by (simp split: if_split_asm)
    then show ?thesis
    proof
      assume "dget d k' = Some v'"
      then have "(k', v') \<in> set d" by (rule map_of_SomeD)
      then show ?thesis using d unfolding tags_ok_def by blast
    qed (simp add: v)
  qed
  moreover have "dict_ok (dset k v d)" using d by (simp add: tags_ok_def)
  ultimately show ?thesis unfolding tags_ok_def by blast
qed

lemma tags_ok_Nil [simp]: "tags_ok al []"
  by (simp add: tags_ok_def)

lemma tags_okD: "tags_ok al d \<Longrightarrow> dget d k = Some v \<Longrightarrow> field_ok al k v"
  by (auto simp: tags_ok_def dest: map_of_SomeD)

lemma tags_ok_dict [simp, intro]: "tags_ok al d \<Longrightarrow> dict_ok d"
  by (simp add: tags_ok_def)

lemma normalize_loop_ok: "normalize_loop al out raw = Inr t \<Longrightarrow> tags_ok al out \<Longrightarrow> tags_ok al t"
proof (induction al out raw rule: normalize_loop.induct)
  case (2 al out k v raw)
  then obtain r where r: "normalize_field al k v = Inr r" and
    l: "normalize_loop al (case r of None \<Rightarrow> out | Some w \<Rightarrow> dset k w out) raw = Inr t"
    by (auto simp: bindE_Inr)
  have "tags_ok al (case r of None \<Rightarrow> out | Some w \<Rightarrow> dset k w out)"
    using r 2(3) by (auto split: option.splits intro: tags_ok_dset normalize_field_ok)
  with 2(1) l show ?case by blast
qed simp

lemma normalize_tags_ok: "normalize_tags al raw = Inr t \<Longrightarrow> tags_ok al t"
  using normalize_loop_ok [of al "[]" raw t] by (simp add: normalize_tags_def)

lemma normalize_loop_id:
  "\<forall>(k, v) \<in> set raw. field_ok al k v \<Longrightarrow> dict_ok raw \<Longrightarrow> fst ` set out \<inter> fst ` set raw = {} \<Longrightarrow>
   normalize_loop al out raw = Inr (out @ raw)"
proof (induction al out raw rule: normalize_loop.induct)
  case (2 al out k v raw)
  have f: "normalize_field al k v = Inr (Some v)"
    using 2(2) by (intro normalize_field_id) simp
  have "normalize_loop al (dset k v out) raw = Inr (dset k v out @ raw)"
    using 2(1) [of "Some v"] 2(2-4) by (auto simp: dkeys_dset)
  then show ?case using 2(4) by (simp add: f dset_new)
qed simp

lemma normalize_tags_id: "tags_ok al t \<Longrightarrow> normalize_tags al t = Inr t"
  using normalize_loop_id [of t al "[]"] by (simp add: normalize_tags_def tags_ok_def)

text \<open>Field by field: a normalised mapping holds, per key, what the loop body makes of it.\<close>

definition field_result :: "string list option \<Rightarrow> pyval dict \<Rightarrow> string \<Rightarrow> pyval option" where
  "field_result al raw k = (case dget raw k of None \<Rightarrow> None
     | Some v \<Rightarrow> (case normalize_field al k v of Inr r \<Rightarrow> r | Inl e \<Rightarrow> None))"

lemma normalize_loop_get:
  "normalize_loop al out raw = Inr t \<Longrightarrow> dict_ok raw \<Longrightarrow>
   dget t k = (case field_result al raw k of None \<Rightarrow> dget out k | Some w \<Rightarrow> Some w)"
proof (induction al out raw rule: normalize_loop.induct)
  case (1 al out)
  then show ?case by (simp add: field_result_def)
next
  case (2 al out k' v raw)
  then obtain r where r: "normalize_field al k' v = Inr r" and
    l: "normalize_loop al (case r of None \<Rightarrow> out | Some w \<Rightarrow> dset k' w out) raw = Inr t"
    by (auto simp: bindE_Inr)
  have new: "field_result al raw k' = None"
    using 2(3) by (auto simp: field_result_def split: option.splits dest: map_of_SomeD)
  have step: "field_result al ((k', v) # raw) k = (if k = k' then r else field_result al raw k)"
    by (simp add: field_result_def r)
  show ?case using 2(1) [OF l] 2(3) new unfolding step
    by (auto simp: dget_dset split: option.splits)
qed

lemma normalize_tags_get:
  "normalize_tags al raw = Inr t \<Longrightarrow> dict_ok raw \<Longrightarrow> dget t k = field_result al raw k"
  using normalize_loop_get [of al "[]" raw t k] by (simp add: normalize_tags_def split: option.splits)

lemma normalize_loop_fields:
  "normalize_loop al out raw = Inr t \<Longrightarrow> (k, v) \<in> set raw \<Longrightarrow> \<exists>r. normalize_field al k v = Inr r"
  by (induction al out raw rule: normalize_loop.induct) (auto simp: bindE_Inr)

text \<open>The exceptions of \<open>normalize_tags\<close>: a \<open>TagError\<close>, or the \<open>OverflowError\<close> of \<open>int(inf)\<close>, which
  the handler around \<open>int(value)\<close> does not name.\<close>

lemma py_int_errors: "py_int v = Inl e \<Longrightarrow> e = TypeError \<or> is_value_error e \<or> e = OverflowError"
  by (induction v rule: py_int.induct) (auto split: option.splits)

lemma normalize_field_error:
  "normalize_field al k v = Inl e \<Longrightarrow> e = OverflowError \<or> (\<exists>m. e = TagError m)"
  using py_int_errors [of v]
  by (auto simp: normalize_field_def text_field_def seed_field_def split: if_split_asm sum.splits)

lemma normalize_loop_error:
  "normalize_loop al out raw = Inl e \<Longrightarrow> e = OverflowError \<or> (\<exists>m. e = TagError m)"
  by (induction al out raw rule: normalize_loop.induct)
    (auto simp: bindE_Inl dest: normalize_field_error)

lemma normalize_error_class:
  "normalize_tags al raw = Inl e \<Longrightarrow> e = OverflowError \<or> (\<exists>m. e = TagError m)"
  unfolding normalize_tags_def by (rule normalize_loop_error)

text \<open>A weaker allow-list accepts the same mapping.\<close>

lemma tags_ok_None: "tags_ok al d \<Longrightarrow> tags_ok None d"
  by (auto simp: tags_ok_def intro: field_ok_None)

lemma tags_ok_system: "tags_ok (Some al) t \<longleftrightarrow>
   tags_ok None t \<and> (\<forall>s. dget t ''system'' = Some (PStr s) \<longrightarrow> s \<in> set al)"
proof -
  have "(\<forall>(k, v) \<in> set t. field_ok (Some al) k v) \<longleftrightarrow>
      (\<forall>(k, v) \<in> set t. field_ok None k v) \<and> (\<forall>s. (''system'', PStr s) \<in> set t \<longrightarrow> s \<in> set al)"
    unfolding field_ok_system by blast
  then show ?thesis
    by (auto simp only: tags_ok_def dict_ok_set_iff)
qed

subsection \<open>Tokens\<close>

lemma py_partition_append: "c \<notin> set a \<Longrightarrow> py_partition c (a @ [c] @ b) = (a, True, b)"
proof -
  assume "c \<notin> set a"
  then have "\<forall>x \<in> set a. x \<noteq> c" by blast
  then show ?thesis
    using takeWhile_append_stop [of a "\<lambda>x. x \<noteq> c" c b] dropWhile_append_stop [of a "\<lambda>x. x \<noteq> c" c b]
    by (simp add: py_partition_def)
qed


text \<open>\<open>json.dumps(clean, separators=(",", ":"), sort_keys=True)\<close>: a normalised mapping is flat, so
  sorting the keys of the one object is all that \<open>sort_keys\<close> does.\<close>

definition sort_keys :: "'v dict \<Rightarrow> 'v dict" where
  "sort_keys d = sort_key fst d"

definition tags_payload :: "pyval dict \<Rightarrow> string" where
  "tags_payload d = json_dumps Compact_Ascii (PDict (sort_keys d))"

definition encode_tags :: "pyval dict \<Rightarrow> string raises" where
  "encode_tags tags =
     bindE (normalize_tags None tags) (\<lambda>clean. Inr (strip_pad (b64_encode (tags_payload clean))))"

definition decode_payload :: "string \<Rightarrow> pyval raises" where
  "decode_payload token =
     (case b64_decode (pad4 token) of
        None \<Rightarrow> Inl (ValueError ''Incorrect padding'')
      | Some payload \<Rightarrow> json_loads_bytes payload)"

definition decode_tags :: "string \<Rightarrow> pyval dict raises" where
  "decode_tags token =
     (case decode_payload token of
        Inl e \<Rightarrow> Inl (TagError (''malformed tag token: '' @ exc_text e))
      | Inr (PDict obj) \<Rightarrow> normalize_tags None obj
      | Inr v \<Rightarrow> Inl (TagError ''tag token must decode to an object''))"

definition api_key_for :: "pyval dict \<Rightarrow> string raises" where
  "api_key_for tags = bindE (encode_tags tags) (\<lambda>tok. Inr (''sk-bench-'' @ tok))"

definition strip_prefixes :: "string list \<Rightarrow> string \<Rightarrow> string option" where
  "strip_prefixes ps key =
     (case filter (\<lambda>p. starts_with p key) ps of [] \<Rightarrow> None | p # _ \<Rightarrow> Some (drop (length p) key))"

definition bearer_key :: "string \<Rightarrow> string" where
  "bearer_key h =
     (case py_split1 h of
        [p, rest] \<Rightarrow> if py_lower p = ''bearer'' then py_strip rest else py_strip h
      | _ \<Rightarrow> py_strip h)"

lemma bearer_key_plain:
  assumes "\<forall>c \<in> set k. \<not> is_space c" "k \<noteq> []"
  shows "bearer_key (''Bearer '' @ k) = py_strip k"
proof -
  have w: "takeWhile (\<lambda>c. \<not> is_space c) (''Bearer'' @ CHR '' '' # k) = ''Bearer''"
    "dropWhile (\<lambda>c. \<not> is_space c) (''Bearer'' @ CHR '' '' # k) = CHR '' '' # k"
    by (rule takeWhile_append_stop dropWhile_append_stop; simp add: is_space_def)+
  have l: "py_lstrip (''Bearer '' @ k) = ''Bearer'' @ CHR '' '' # k"
    by (simp add: py_lstrip_def is_space_def)
  have "py_lstrip (CHR '' '' # k) = k"
    using assms by (cases k) (simp_all add: py_lstrip_def is_space_def)
  then have "py_split1 (''Bearer '' @ k) = [''Bearer'', k]"
    unfolding py_split1_def l Let_def w using assms(2) by simp
  moreover have "py_lower ''Bearer'' = ''bearer''"
    by code_simp
  ultimately show ?thesis by (simp add: bearer_key_def)
qed

definition token_from_api_key :: "string option \<Rightarrow> string option" where
  "token_from_api_key authorization_header =
     (case authorization_header of
        None \<Rightarrow> None
      | Some h \<Rightarrow> if h = [] then None else strip_prefixes API_KEY_PREFIXES (bearer_key h))"

definition split_path_token :: "string \<Rightarrow> string option \<times> string" where
  "split_path_token path =
     (if starts_with PATH_TOKEN_PREFIX path then
        (let (token, sep, remainder) = py_partition CHR ''/'' (drop (length PATH_TOKEN_PREFIX) path) in
         if token \<noteq> [] \<and> sep then (Some token, ''/'' @ remainder) else (None, path))
      else (None, path))"

lemma sort_keys_set [simp]: "set (sort_keys d) = set d"
  by (simp add: sort_keys_def)

lemma dict_ok_sort_keys [simp]: "dict_ok (sort_keys d) \<longleftrightarrow> dict_ok d"
  by (simp add: sort_keys_def distinct_map)

lemma dget_sort_keys: "dict_ok d \<Longrightarrow> dget (sort_keys d) k = dget d k"
  using map_of_inject_set [of "sort_keys d" d] by simp

lemma tags_ok_sort_keys: "tags_ok al d \<Longrightarrow> tags_ok al (sort_keys d)"
  by (simp add: tags_ok_def)

text \<open>Text of the tags is text: the strings of a mapping are valid UTF-8.\<close>

definition text_valid :: "pyval dict \<Rightarrow> bool" where
  "text_valid d \<longleftrightarrow> (\<forall>s. PStr s \<in> snd ` set d \<longrightarrow> valid_utf8 s)"

lemma tag_field_valid: "k \<in> set TAG_FIELDS \<Longrightarrow> valid_utf8 k"
  unfolding TAG_FIELDS_def by (rule valid_utf8_ascii) auto

lemma tags_json_ok:
  assumes "tags_ok al d" "text_valid d" shows "json_ok (PDict d)"
proof -
  have "valid_utf8 k \<and> json_ok v" if kv: "(k, v) \<in> set d" for k v
  proof -
    have f: "field_ok al k v" using assms(1) kv by (auto simp: tags_ok_def)
    then show ?thesis
    proof (rule field_okE)
      fix s assume "v = PStr s" "k \<in> set TAG_FIELDS"
      moreover then have "valid_utf8 s" using assms(2) kv unfolding text_valid_def by force
      ultimately show ?thesis using tag_field_valid by simp
    qed (simp add: tag_field_valid)
  qed
  then show ?thesis using assms(1) by (auto simp: list_all_iff tags_ok_def)
qed

lemma decode_payload_encoded:
  assumes "tags_ok al d" "text_valid d"
  shows "decode_payload (strip_pad (b64_encode (tags_payload d))) = Inr (PDict (sort_keys d))"
proof -
  have "json_ok (PDict (sort_keys d))"
    using tags_json_ok [OF tags_ok_sort_keys, of al d] assms by (simp add: text_valid_def)
  then show ?thesis
    unfolding decode_payload_def tags_payload_def
    by (simp only: strip_pad_token b64_decode_encode option.case json_loads_bytes_dumps)
qed

lemma decode_encode:
  assumes "encode_tags raw = Inr tok" "normalize_tags None raw = Inr t" "text_valid t"
  shows "decode_tags tok = Inr (sort_keys t)"
proof -
  have t: "tags_ok None t" using assms(2) by (rule normalize_tags_ok)
  have tok: "tok = strip_pad (b64_encode (tags_payload t))"
    using assms(1,2) by (simp add: encode_tags_def)
  show ?thesis
    unfolding decode_tags_def tok decode_payload_encoded [OF t assms(3)]
    by (simp add: normalize_tags_id tags_ok_sort_keys t)
qed

subsection \<open>The two carriers\<close>

text \<open>What the carriers need of an encoding: its tokens are non-empty, drawn from the URL-safe
  alphabet, and decode to the canonical form of what was encoded.\<close>

locale token_codec =
  fixes enc :: "'t \<Rightarrow> 'e + string" and dec :: "string \<Rightarrow> 'e + 't"
    and carries :: "'t \<Rightarrow> 't \<Rightarrow> bool"
  assumes enc_token: "enc t = Inr tok \<Longrightarrow> tok \<noteq> [] \<and> (\<forall>c \<in> set tok. token_char c)"
    and dec_enc: "carries t u \<Longrightarrow> enc t = Inr tok \<Longrightarrow> dec tok = Inr u"
begin

lemma token_plain:
  assumes "enc t = Inr tok"
  shows "tok \<noteq> []" "c \<in> set tok \<Longrightarrow> \<not> is_space c" "CHR ''/'' \<notin> set tok" "py_strip tok = tok"
proof -
  have t: "tok \<noteq> []" "\<forall>c \<in> set tok. token_char c" using enc_token [OF assms] by blast+
  then show "tok \<noteq> []" "c \<in> set tok \<Longrightarrow> \<not> is_space c" "CHR ''/'' \<notin> set tok"
    using token_char_other by blast+
  show "py_strip tok = tok" using t(2) token_char_other(1) by (intro py_strip_id) blast
qed

lemma path_carries:
  assumes "carries t u" "enc t = Inr tok"
  shows "split_path_token (''/b/'' @ tok @ ''/'' @ rest) = (Some tok, ''/'' @ rest) \<and> dec tok = Inr u"
proof -
  have "py_partition CHR ''/'' (tok @ ''/'' @ rest) = (tok, True, rest)"
    using token_plain(3) [OF assms(2)] by (rule py_partition_append)
  then show ?thesis
    using token_plain(1) [OF assms(2)] dec_enc [OF assms]
    by (simp add: split_path_token_def PATH_TOKEN_PREFIX_def starts_with_def)
qed

lemma bearer_carries:
  assumes "carries t u" "enc t = Inr tok"
  shows "token_from_api_key (Some (''Bearer '' @ ''sk-bench-'' @ tok)) = Some tok \<and> dec tok = Inr u"
proof -
  let ?k = "''sk-bench-'' @ tok"
  have sp: "\<forall>c \<in> set ?k. \<not> is_space c"
    using token_plain(2) [OF assms(2)] by (auto simp: is_space_def)
  have "bearer_key (''Bearer '' @ ?k) = py_strip ?k"
    by (rule bearer_key_plain [OF sp]) simp
  moreover have "py_strip ?k = ?k" using sp by (rule py_strip_id)
  ultimately show ?thesis using dec_enc [OF assms]
    by (simp add: token_from_api_key_def strip_prefixes_def API_KEY_PREFIXES_def starts_with_def)
qed

end

definition tags_carry :: "pyval dict \<Rightarrow> pyval dict \<Rightarrow> bool" where
  "tags_carry raw u \<longleftrightarrow> (case normalize_tags None raw of
     Inl e \<Rightarrow> False | Inr t \<Rightarrow> text_valid t \<and> u = sort_keys t)"

interpretation tags_codec: token_codec encode_tags decode_tags tags_carry
proof
  fix t tok assume e: "encode_tags t = Inr tok"
  then obtain d where tok: "tok = strip_pad (b64_encode (tags_payload d))"
    by (auto simp: encode_tags_def bindE_Inr)
  have "tags_payload d \<noteq> []" by (simp add: tags_payload_def)
  then have "strip_pad (b64_encode (tags_payload d)) \<noteq> []" using strip_pad_token by blast
  with strip_pad_token [of "tags_payload d"] show "tok \<noteq> [] \<and> (\<forall>c \<in> set tok. token_char c)"
    unfolding tok by simp
next
  fix t u tok assume "tags_carry t u" "encode_tags t = Inr tok"
  then show "decode_tags tok = Inr u"
    by (auto simp: tags_carry_def intro: decode_encode split: sum.splits)
qed

subsection \<open>Properties\<close>

text \<open>C1: normalising is a retraction onto the well-formed mappings: whatever
  \<open>normalize_tags\<close> returns has known fields only, an integer seed, non-empty texts of at most 256
  characters, an allowed operation and (with an allow-list) an allowed system, and normalising it
  again returns it unchanged.\<close>

theorem normalize_tags_retract:
  assumes "normalize_tags allowed raw = Inr t"
  shows "tags_ok allowed t \<and> normalize_tags allowed t = Inr t"
  using normalize_tags_ok [OF assms] normalize_tags_id by blast

theorem normalize_tags_retract_witness:
  "normalize_tags (Some [''mem0'']) [(''system'', PStr ''mem0''), (''run_id'', PNone), (''seed'', PStr '' 7 '')]
     = Inr [(''system'', PStr ''mem0''), (''seed'', PInt 7)]
   \<and> tags_ok (Some [''mem0'']) [(''system'', PStr ''mem0''), (''seed'', PInt 7)]"
proof -
  have n: "normalize_tags (Some [''mem0''])
      [(''system'', PStr ''mem0''), (''run_id'', PNone), (''seed'', PStr '' 7 '')]
     = Inr [(''system'', PStr ''mem0''), (''seed'', PInt 7)]" by code_simp
  from normalize_tags_retract [OF n] n show ?thesis by blast
qed

text \<open>C2: a token built by \<open>encode_tags\<close> comes back, sorted by field name, from both carriers: from
  \<open>Authorization: Bearer sk-bench-<token>\<close> and from a path \<open>/b/<token>/...\<close>, whose remainder is
  returned with its leading slash.\<close>

theorem token_transport:
  assumes "encode_tags raw = Inr tok" "normalize_tags None raw = Inr t" "text_valid t"
  shows "token_from_api_key (Some (''Bearer sk-bench-'' @ tok)) = Some tok
     \<and> split_path_token (''/b/'' @ tok @ ''/'' @ rest) = (Some tok, ''/'' @ rest)
     \<and> decode_tags tok = Inr (sort_keys t) \<and> tags_ok None (sort_keys t)"
proof -
  have c: "tags_carry raw (sort_keys t)" using assms(2,3) by (simp add: tags_carry_def)
  have "tags_ok None (sort_keys t)"
    using assms(2) by (intro tags_ok_sort_keys normalize_tags_ok)
  then show ?thesis
    using tags_codec.bearer_carries [OF c assms(1)] tags_codec.path_carries [OF c assms(1)] by simp
qed

theorem token_transport_witness:
  "\<exists>tok. encode_tags [(''system'', PStr ''mem0''), (''operation'', PStr ''write'')] = Inr tok
   \<and> decode_tags tok = Inr [(''operation'', PStr ''write''), (''system'', PStr ''mem0'')]"
proof -
  let ?d = "[(''system'', PStr ''mem0''), (''operation'', PStr ''write'')]"
  have n: "normalize_tags None ?d = Inr ?d" by code_simp
  then obtain tok where e: "encode_tags ?d = Inr tok" by (simp add: encode_tags_def)
  have s: "sort_keys ?d = [(''operation'', PStr ''write''), (''system'', PStr ''mem0'')]" by code_simp
  have "valid_utf8 ''mem0''" "valid_utf8 ''write''" by (rule valid_utf8_ascii; simp)+
  then have "text_valid ?d" by (simp add: text_valid_def)
  with token_transport [OF e n] e s show ?thesis by metis
qed


end
