(* ===== verification/Scopes.thy ===== *)
theory Scopes
  imports Tags
begin

section \<open>The scope registry (\<open>proxy/tags.py\<close>, second half)\<close>

text \<open>
  The in-memory registry of active scopes per client. \<open>enter\<close> and \<open>exit\<close> return the scope or
  raise, with the registry they leave behind; \<open>resolve\<close> merges the active scopes of a client.
  Facts: the registry invariant, \<open>scope_sim\<close> (the two-level dictionary implements a partial map
  from client and scope identifier to scope), \<open>exit_enter\<close> (a bracket restores the registry) and
  \<open>resolve_fields\<close> (a field is merged exactly when the scopes that carry it agree).
\<close>

record scope =
  scope_id :: string
  scope_tags :: "pyval dict"
  entered_at :: string

type_synonym registry = "scope dict dict"

subsection \<open>Operations\<close>

definition not_active_msg :: "string \<Rightarrow> string \<Rightarrow> string" where
  "not_active_msg sid cid = ''scope '' @ repr_str sid @ '' is not active for client '' @ repr_str cid"

definition already_active_msg :: "string \<Rightarrow> string \<Rightarrow> string" where
  "already_active_msg sid cid = ''scope '' @ repr_str sid @ '' already active for client '' @ repr_str cid"

definition clients :: "registry \<Rightarrow> string \<Rightarrow> scope dict" where
  "clients reg cid = (case dget reg cid of None \<Rightarrow> [] | Some d \<Rightarrow> d)"

definition setdefault :: "registry \<Rightarrow> string \<Rightarrow> registry" where
  "setdefault reg cid = (if dhas reg cid then reg else dset cid [] reg)"

definition enter :: "string \<Rightarrow> string \<Rightarrow> pyval dict \<Rightarrow> string \<Rightarrow> registry \<Rightarrow> scope raises \<times> registry" where
  "enter client_id sid tags stamp reg =
     (if client_id = [] \<or> sid = [] then (Inl (TagError ''client_id and scope_id are required''), reg)
      else
        let reg1 = setdefault reg client_id; per_client = clients reg1 client_id in
        if dhas per_client sid then (Inl (TagError (already_active_msg sid client_id)), reg1)
        else
          let sc = \<lparr>scope_id = sid, scope_tags = tags, entered_at = stamp\<rparr> in
          (Inr sc, dset client_id (dset sid sc per_client) reg1))"

definition exit :: "string \<Rightarrow> string \<Rightarrow> registry \<Rightarrow> scope raises \<times> registry" where
  "exit client_id sid reg =
     (case dget (clients reg client_id) sid of
        None \<Rightarrow> (Inl (TagError (not_active_msg sid client_id)), reg)
      | Some sc \<Rightarrow>
          let per_client = dpop sid (clients reg client_id) in
          (Inr sc, if per_client = [] then dpop client_id reg else dset client_id per_client reg))"

definition active :: "registry \<Rightarrow> string option \<Rightarrow> scope list" where
  "active reg client_id = (case client_id of None \<Rightarrow> [] | Some c \<Rightarrow> map snd (clients reg c))"

definition scope_value :: "scope \<Rightarrow> pyval" where
  "scope_value s = PDict [(''scope_id'', PStr (scope_id s)), (''tags'', PDict (scope_tags s)),
     (''entered_at'', PStr (entered_at s))]"

definition snapshot :: "registry \<Rightarrow> pyval dict" where
  "snapshot reg = map (\<lambda>(cid, scopes). (cid, PList (map (\<lambda>(_, s). scope_value s) scopes))) reg"

subsection \<open>resolve\<close>

text \<open>\<open>json.dumps(value, sort_keys=True)\<close>.\<close>

fun sort_nested :: "pyval \<Rightarrow> pyval" where
  "sort_nested (PList xs) = PList (map sort_nested xs)"
| "sort_nested (PDict d) = PDict (sort_keys (map (\<lambda>(k, v). (k, sort_nested v)) d))"
| "sort_nested v = v"

definition canonical_json :: "pyval \<Rightarrow> string" where
  "canonical_json v = json_dumps Spaced_Ascii (sort_nested v)"

definition field_values :: "scope list \<Rightarrow> string \<Rightarrow> pyval list" where
  "field_values scopes fld = List.map_filter (\<lambda>s. dget (scope_tags s) fld) scopes"

fun merge_fields :: "scope list \<Rightarrow> string list \<Rightarrow> pyval dict \<times> string list \<Rightarrow> pyval dict \<times> string list" where
  "merge_fields scopes [] acc = acc"
| "merge_fields scopes (fld # flds) (merged, ambiguous) =
     (let vs = field_values scopes fld; values = remdups (map canonical_json vs) in
      merge_fields scopes flds
        (if length values = 1 then (dset fld (hd vs) merged, ambiguous)
         else if length values > 1 then (merged, ambiguous @ [fld])
         else (merged, ambiguous)))"

type_synonym resolution = "pyval dict \<times> string list \<times> string \<times> string list"

definition resolve :: "registry \<Rightarrow> string option \<Rightarrow> resolution" where
  "resolve reg client_id =
     (case active reg client_id of
        [] \<Rightarrow> ([], [], ''none'', [])
      | [s] \<Rightarrow> (scope_tags s, [scope_id s], ''single'', [])
      | scopes \<Rightarrow>
          (let (merged, ambiguous) = merge_fields scopes TAG_FIELDS ([], []);
               state = (if ambiguous \<noteq> [] then ''ambiguous'' else ''agree'') in
           (merged, map scope_id scopes, state, ambiguous)))"

subsection \<open>The registry implements a partial map\<close>

definition scopes_ok :: "scope dict \<Rightarrow> bool" where
  "scopes_ok d \<longleftrightarrow> d \<noteq> [] \<and> dict_ok d \<and> (\<forall>(sid, s) \<in> set d. sid \<noteq> [] \<and> scope_id s = sid)"

definition registry_ok :: "registry \<Rightarrow> bool" where
  "registry_ok reg \<longleftrightarrow> dict_ok reg \<and> (\<forall>(cid, d) \<in> set reg. cid \<noteq> [] \<and> scopes_ok d)"

definition lookup_scope :: "registry \<Rightarrow> string \<times> string \<Rightarrow> scope option" where
  "lookup_scope reg = (\<lambda>(cid, sid). dget (clients reg cid) sid)"

lemma registry_ok_Nil [simp]: "registry_ok []"
  by (simp add: registry_ok_def)

lemma registry_okD:
  assumes "registry_ok reg" "dget reg cid = Some d"
  shows "cid \<noteq> []" "d \<noteq> []" "dict_ok d" "dget d sid = Some s \<Longrightarrow> scope_id s = sid \<and> sid \<noteq> []"
proof -
  have "cid \<noteq> [] \<and> scopes_ok d"
    using assms by (auto simp: registry_ok_def dest: map_of_SomeD)
  then show "cid \<noteq> []" "d \<noteq> []" "dict_ok d" "dget d sid = Some s \<Longrightarrow> scope_id s = sid \<and> sid \<noteq> []"
    by (auto simp: scopes_ok_def dest: map_of_SomeD)
qed

lemma registry_okI:
  assumes "dict_ok reg" "\<And>cid d. dget reg cid = Some d \<Longrightarrow> cid \<noteq> [] \<and> scopes_ok d"
  shows "registry_ok reg"
  using assms by (auto simp: registry_ok_def)

lemma clients_simps [simp]:
  "dget reg cid = Some d \<Longrightarrow> clients reg cid = d" "dget reg cid = None \<Longrightarrow> clients reg cid = []"
  by (simp_all add: clients_def)

lemma clients_dset [simp]: "clients (dset c d reg) cid = (if c = cid then d else clients reg cid)"
  by (simp add: clients_def)

lemma clients_dpop [simp]: "clients (dpop c reg) cid = (if c = cid then [] else clients reg cid)"
  by (simp add: clients_def)

lemma setdefault_facts:
  "clients (setdefault reg c) cid = clients reg cid"
  "registry_ok reg \<Longrightarrow> dict_ok (setdefault reg c)"
  by (auto simp: setdefault_def dhas_def clients_def registry_ok_def split: option.splits)

lemma dget_setdefault:
  "dget (setdefault reg c) k = Some d \<Longrightarrow> k \<noteq> c \<Longrightarrow> dget reg k = Some d"
  by (auto simp: setdefault_def split: if_split_asm)

lemma setdefault_id: "dhas (clients reg c) sid \<Longrightarrow> setdefault reg c = reg"
  by (auto simp: setdefault_def dhas_def clients_def split: option.splits)

lemma scopes_ok_dset:
  assumes "dict_ok d" "\<And>k s. dget d k = Some s \<Longrightarrow> scope_id s = k \<and> k \<noteq> []" "sid \<noteq> []" "scope_id sc = sid"
  shows "scopes_ok (dset sid sc d)"
proof -
  have "dset sid sc d \<noteq> []" by (cases d) auto
  moreover have "k \<noteq> [] \<and> scope_id s = k" if "(k, s) \<in> set (dset sid sc d)" for k s
  proof -
    have "dget (dset sid sc d) k = Some s"
      using that assms(1) dict_ok_set_iff [of "dset sid sc d"] by simp
    then show ?thesis using assms(2) [of k s] assms(3,4) by (auto split: if_split_asm)
  qed
  ultimately show ?thesis using assms(1) by (auto simp: scopes_ok_def)
qed

lemma clients_ok:
  assumes "registry_ok reg"
  shows "dict_ok (clients reg cid)"
    "dget (clients reg cid) k = Some s \<Longrightarrow> scope_id s = k \<and> k \<noteq> []"
  using registry_okD [OF assms] by (cases "dget reg cid"; auto)+

lemma enter_ok:
  assumes "registry_ok reg" "enter c sid tags stamp reg = (r, reg')"
  shows "registry_ok reg'"
proof (cases "c = [] \<or> sid = [] \<or> dhas (clients reg c) sid")
  case True
  with assms setdefault_id [of reg c sid] show ?thesis
    by (auto simp: enter_def Let_def setdefault_facts split: if_split_asm)
next
  case False
  let ?sc = "\<lparr>scope_id = sid, scope_tags = tags, entered_at = stamp\<rparr>"
  have reg': "reg' = dset c (dset sid ?sc (clients reg c)) (setdefault reg c)"
    using assms(2) False by (simp add: enter_def Let_def setdefault_facts)
  show ?thesis unfolding reg'
  proof (rule registry_okI)
    show "dict_ok (dset c (dset sid ?sc (clients reg c)) (setdefault reg c))"
      using setdefault_facts(2) [OF assms(1)] by (rule dict_ok_dset)
  next
    fix k d assume k: "dget (dset c (dset sid ?sc (clients reg c)) (setdefault reg c)) k = Some d"
    show "k \<noteq> [] \<and> scopes_ok d"
    proof (cases "k = c")
      case True
      with k have "d = dset sid ?sc (clients reg c)" by simp
      moreover have "scopes_ok (dset sid ?sc (clients reg c))"
        using clients_ok [OF assms(1)] False by (intro scopes_ok_dset) simp_all
      ultimately show ?thesis using True False by simp
    next
      case False
      with k have "dget reg k = Some d" using dget_setdefault [of reg c k d] by simp
      then show ?thesis using assms(1) by (auto simp: registry_ok_def dest: map_of_SomeD)
    qed
  qed
qed

lemma dpop_scopes:
  assumes "dict_ok d" "\<forall>k s. dget d k = Some s \<longrightarrow> scope_id s = k \<and> k \<noteq> []" "dpop sid d \<noteq> []"
  shows "scopes_ok (dpop sid d)"
proof -
  have "k \<noteq> [] \<and> scope_id s = k" if "(k, s) \<in> set (dpop sid d)" for k s
  proof -
    have "dget (dpop sid d) k = Some s"
      using that assms(1) dict_ok_set_iff [of "dpop sid d"] by simp
    then show ?thesis using assms(2) by (auto split: if_split_asm)
  qed
  then show ?thesis using assms(1,3) by (auto simp: scopes_ok_def)
qed

lemma exit_ok:
  assumes "registry_ok reg" "exit c sid reg = (r, reg')"
  shows "registry_ok reg'"
proof (cases "dget (clients reg c) sid")
  case None
  with assms show ?thesis by (simp add: exit_def)
next
  case (Some sc)
  let ?d = "dpop sid (clients reg c)"
  have reg': "reg' = (if ?d = [] then dpop c reg else dset c ?d reg)"
    using assms(2) Some by (simp add: exit_def Let_def)
  have reg: "k \<noteq> [] \<and> scopes_ok d" if "dget reg k = Some d" for k d
    using that assms(1) by (auto simp: registry_ok_def dest: map_of_SomeD)
  have c: "c \<noteq> []" using Some reg [of c] by (cases "dget reg c") auto
  have d: "scopes_ok ?d" if "?d \<noteq> []"
    using clients_ok [OF assms(1)] that by (intro dpop_scopes) simp_all
  show ?thesis
  proof (rule registry_okI)
    have "dict_ok reg" using assms(1) by (simp add: registry_ok_def)
    then show "dict_ok reg'" by (simp add: reg')
    fix k x assume k: "dget reg' k = Some x"
    show "k \<noteq> [] \<and> scopes_ok x"
    proof (cases "k = c")
      case True
      with k have "?d \<noteq> []" "x = ?d" by (simp_all add: reg' split: if_split_asm)
      then show ?thesis using d c True by blast
    next
      case False
      with k have "dget reg k = Some x" by (simp add: reg' split: if_split_asm)
      then show ?thesis by (rule reg)
    qed
  qed
qed

subsection \<open>Specification: a partial map\<close>

datatype scope_op = Enter string string "pyval dict" string | Exit string string

fun scope_step :: "scope_op \<Rightarrow> registry \<Rightarrow> scope raises \<times> registry" where
  "scope_step (Enter c sid tags stamp) reg = enter c sid tags stamp reg"
| "scope_step (Exit c sid) reg = exit c sid reg"

type_synonym scope_map = "string \<times> string \<Rightarrow> scope option"

fun scope_spec :: "scope_op \<Rightarrow> scope_map \<Rightarrow> scope raises \<times> scope_map" where
  "scope_spec (Enter c sid tags stamp) m =
     (if c = [] \<or> sid = [] then (Inl (TagError ''client_id and scope_id are required''), m)
      else case m (c, sid) of
        Some _ \<Rightarrow> (Inl (TagError (already_active_msg sid c)), m)
      | None \<Rightarrow>
          let sc = \<lparr>scope_id = sid, scope_tags = tags, entered_at = stamp\<rparr> in
          (Inr sc, m((c, sid) \<mapsto> sc)))"
| "scope_spec (Exit c sid) m =
     (case m (c, sid) of
        None \<Rightarrow> (Inl (TagError (not_active_msg sid c)), m)
      | Some sc \<Rightarrow> (Inr sc, m((c, sid) := None)))"

lemma lookup_scope_simp [simp]: "lookup_scope reg (c, sid) = dget (clients reg c) sid"
  by (simp add: lookup_scope_def)

lemma enter_spec:
  "enter c sid tags stamp reg = (r, reg') \<Longrightarrow>
   scope_spec (Enter c sid tags stamp) (lookup_scope reg) = (r, lookup_scope reg')"
  by (auto simp: enter_def Let_def setdefault_facts dhas_def lookup_scope_def fun_eq_iff
      split: if_split_asm option.splits)

lemma exit_spec:
  "exit c sid reg = (r, reg') \<Longrightarrow>
   scope_spec (Exit c sid) (lookup_scope reg) = (r, lookup_scope reg')"
proof -
  assume e: "exit c sid reg = (r, reg')"
  have "dpop sid d = [] \<Longrightarrow> dget d k = None" if "k \<noteq> sid" for d :: "scope dict" and k
    using dget_dpop [of sid d k] that by simp
  with e show ?thesis
    by (auto simp: exit_def Let_def lookup_scope_def fun_eq_iff split: if_split_asm option.splits)
qed

interpretation scope_sim: simulation scope_step scope_spec lookup_scope registry_ok "\<lambda>_. True"
proof
  fix reg op r reg' assume i: "registry_ok reg" and s: "scope_step op reg = (r, reg')"
  show "registry_ok reg'" using i s by (cases op) (auto intro: enter_ok exit_ok)
  show "scope_spec op (lookup_scope reg) = (r, lookup_scope reg')"
    using s by (cases op) (simp_all only: scope_step.simps enter_spec exit_spec)
qed

subsection \<open>Brackets\<close>

lemma dset_same: "dget d k = Some v \<Longrightarrow> dset k v d = d"
  by (induction d) auto

lemma dset_dset: "dset k v (dset k w d) = dset k v d"
  by (induction d) auto

lemma dpop_new: "k \<notin> fst ` set d \<Longrightarrow> dpop k (d @ [(k, v)]) = d"
  by (simp add: AList.delete_eq filter_id_conv) force

lemma enter_Inr:
  assumes "enter c sid tags stamp reg = (Inr sc, reg')"
  shows "sc = \<lparr>scope_id = sid, scope_tags = tags, entered_at = stamp\<rparr>"
    "dget (clients reg c) sid = None" "c \<noteq> []" "sid \<noteq> []"
    "reg' = dset c (dset sid sc (clients reg c)) (setdefault reg c)"
  using assms by (auto simp: enter_def Let_def setdefault_facts dhas_def split: if_split_asm)

lemma exit_enter:
  assumes ok: "registry_ok reg" and e: "enter c sid tags stamp reg = (Inr sc, reg')"
  shows "exit c sid reg' = (Inr sc, reg)"
proof (cases "dget reg c")
  case None
  then have new: "c \<notin> fst ` set reg" by (simp add: map_of_eq_None_iff)
  have "setdefault reg c = reg @ [(c, [])]" using None new by (simp add: setdefault_def dhas_def dset_new)
  then have "reg' = dset c [(sid, sc)] (reg @ [(c, [])])"
    using enter_Inr(5) [OF e] None by simp
  also have "dset c [(sid, sc)] (reg @ [(c, [])]) = reg @ [(c, [(sid, sc)])]"
    using new by (induction reg) auto
  finally have reg': "reg' = reg @ [(c, [(sid, sc)])]" .
  have "clients reg' c = [(sid, sc)]" using None by (simp add: reg' clients_def map_add_def)
  then show ?thesis using dpop_new [OF new] by (simp add: exit_def reg')
next
  case (Some d)
  have new: "sid \<notin> fst ` set d"
    using enter_Inr(2) [OF e] Some by (simp add: map_of_eq_None_iff)
  have reg': "reg' = dset c (d @ [(sid, sc)]) reg"
    using enter_Inr(5) [OF e] Some new by (simp add: setdefault_def dhas_def dset_new)
  have "dpop sid (d @ [(sid, sc)]) = d" by (rule dpop_new [OF new])
  moreover have "d \<noteq> []" using registry_okD(2) [OF ok Some] .
  moreover have "dget (d @ [(sid, sc)]) sid = Some sc" using new by (simp add: map_add_def)
  ultimately show ?thesis
    by (simp add: exit_def reg' dset_dset dset_same Some)
qed

subsection \<open>What resolve returns\<close>

definition disagree :: "scope list \<Rightarrow> string \<Rightarrow> bool" where
  "disagree ss f \<longleftrightarrow> 1 < length (remdups (map canonical_json (field_values ss f)))"

definition unanimous :: "scope list \<Rightarrow> string \<Rightarrow> bool" where
  "unanimous ss f \<longleftrightarrow> length (remdups (map canonical_json (field_values ss f))) = 1"

lemma merge_fields_result:
  "merge_fields ss flds (m, a) = (m', a') \<Longrightarrow>
   a' = a @ filter (disagree ss) flds \<and>
   (\<forall>f. dget m' f = (if f \<in> set flds \<and> unanimous ss f then Some (hd (field_values ss f)) else dget m f))"
proof (induction flds arbitrary: m a)
  case (Cons fld flds)
  consider "unanimous ss fld" "\<not> disagree ss fld" | "\<not> unanimous ss fld" "disagree ss fld"
    | "\<not> unanimous ss fld" "\<not> disagree ss fld"
    by (fastforce simp: unanimous_def disagree_def)
  then show ?case
  proof cases
    case 1
    with Cons.prems have "merge_fields ss flds (dset fld (hd (field_values ss fld)) m, a) = (m', a')"
      by (simp add: Let_def unanimous_def)
    from Cons.IH [OF this] 1 show ?thesis by auto
  next
    case 2
    with Cons.prems have "merge_fields ss flds (m, a @ [fld]) = (m', a')"
      by (simp add: Let_def unanimous_def disagree_def)
    from Cons.IH [OF this] 2 show ?thesis by auto
  next
    case 3
    with Cons.prems have "merge_fields ss flds (m, a) = (m', a')"
      by (simp add: Let_def unanimous_def disagree_def)
    from Cons.IH [OF this] 3 show ?thesis by auto
  qed
qed simp

lemma length_remdups_1: "length (remdups xs) = 1 \<longleftrightarrow> (\<exists>x. set xs = {x})"
  by (metis card_1_singleton_iff length_remdups_card_conv One_nat_def)

lemma length_remdups_gt1: "1 < length (remdups xs) \<longleftrightarrow> (\<exists>x \<in> set xs. \<exists>y \<in> set xs. x \<noteq> y)"
  using card_le_Suc0_iff_eq [of "set xs"]
  by (simp only: length_remdups_card_conv One_nat_def not_le [symmetric]) blast

lemma field_values_set: "v \<in> set (field_values ss f) \<longleftrightarrow> (\<exists>s \<in> set ss. dget (scope_tags s) f = Some v)"
  by (force simp: field_values_def List.map_filter_def)

text \<open>Scopes that went through \<open>normalize_tags\<close> hold flat values, on which the canonical JSON text
  decides equality.\<close>

definition scopes_clean :: "scope list \<Rightarrow> bool" where
  "scopes_clean ss \<longleftrightarrow> (\<forall>s \<in> set ss. tags_ok None (scope_tags s) \<and> text_valid (scope_tags s))"

lemma flat_values:
  assumes "scopes_clean ss" "v \<in> set (field_values ss f)"
  shows "json_ok v" "sort_nested v = v" "f \<in> set TAG_FIELDS"
proof -
  obtain s where s: "s \<in> set ss" "dget (scope_tags s) f = Some v"
    using assms(2) by (auto simp: field_values_set)
  have t: "tags_ok None (scope_tags s)" "text_valid (scope_tags s)"
    using assms(1) s(1) by (auto simp: scopes_clean_def)
  have "(f, v) \<in> set (scope_tags s)" using s(2) by (rule map_of_SomeD)
  then show "json_ok v" using tags_json_ok [OF t] by (auto simp: list_all_iff)
  have "field_ok None f v" using tags_okD [OF t(1) s(2)] .
  then show "sort_nested v = v" "f \<in> set TAG_FIELDS" by (auto elim: field_okE)
qed

lemma canonical_json_eq:
  assumes "scopes_clean ss" "v \<in> set (field_values ss f)" "w \<in> set (field_values ss f)"
  shows "canonical_json v = canonical_json w \<longleftrightarrow> v = w"
  unfolding canonical_json_def
  using flat_values [OF assms(1,2)] flat_values [OF assms(1,3)] by (simp add: json_dumps_inject)

lemma disagree_iff:
  assumes "scopes_clean ss"
  shows "disagree ss f \<longleftrightarrow> (\<exists>v \<in> set (field_values ss f). \<exists>w \<in> set (field_values ss f). v \<noteq> w)"
  unfolding disagree_def length_remdups_gt1 using canonical_json_eq [OF assms] by fastforce

lemma unanimous_iff:
  assumes "scopes_clean ss"
  shows "unanimous ss f \<longleftrightarrow> field_values ss f \<noteq> [] \<and> \<not> disagree ss f"
proof (cases "field_values ss f")
  case Nil
  then show ?thesis by (simp add: unanimous_def)
next
  case (Cons v vs)
  have "0 < length (remdups (map canonical_json (field_values ss f)))"
    by (simp only: length_remdups_card_conv card_gt_0_iff) (simp add: Cons)
  moreover have "0 < n \<Longrightarrow> n = 1 \<longleftrightarrow> \<not> 1 < n" for n :: nat by linarith
  moreover have "field_values ss f \<noteq> []" using Cons by simp
  ultimately show ?thesis unfolding unanimous_def disagree_def by blast
qed

definition scope_state :: "scope list \<Rightarrow> string list \<Rightarrow> string" where
  "scope_state ss ambiguous =
     (if ss = [] then ''none'' else if length ss = 1 then ''single''
      else if ambiguous \<noteq> [] then ''ambiguous'' else ''agree'')"

definition agreed :: "scope list \<Rightarrow> string \<Rightarrow> pyval option" where
  "agreed ss f = (if field_values ss f = [] \<or> disagree ss f then None else Some (hd (field_values ss f)))"

lemma resolve_result:
  assumes clean: "scopes_clean (active reg c)" and res: "resolve reg c = (tags, ids, state, amb)"
  shows "dget tags f = agreed (active reg c) f \<and> amb = filter (disagree (active reg c)) TAG_FIELDS \<and>
    ids = map scope_id (active reg c) \<and> state = scope_state (active reg c) amb"
proof -
  have nd: "\<not> disagree [] f" "\<not> disagree [s] f" for s f
    by (auto simp: disagree_def field_values_def List.map_filter_def)
  consider "active reg c = []" | s where "active reg c = [s]"
    | s s' ss where "active reg c = s # s' # ss"
    by (metis list.exhaust)
  then show ?thesis
  proof cases
    case 1
    with res show ?thesis by (simp add: resolve_def agreed_def nd scope_state_def field_values_def)
  next
    case (2 s)
    then have "dget (scope_tags s) f = agreed [s] f"
      by (simp add: agreed_def nd field_values_def split: option.splits)
    with 2 res show ?thesis by (auto simp: resolve_def nd scope_state_def)
  next
    case (3 s s' ss)
    obtain m a where m: "merge_fields (active reg c) TAG_FIELDS ([], []) = (m, a)" by fastforce
    have r: "tags = m" "amb = a" "ids = map scope_id (active reg c)"
      "state = scope_state (active reg c) amb"
      using res m unfolding resolve_def 3 by (auto simp: scope_state_def)
    have a: "a = filter (disagree (active reg c)) TAG_FIELDS"
      using merge_fields_result [OF m] by simp
    have "dget m f = agreed (active reg c) f"
      using merge_fields_result [OF m] flat_values(3) [OF clean, of _ f] unanimous_iff [OF clean, of f]
      by (cases "field_values (active reg c) f") (auto simp: agreed_def)
    with r a show ?thesis by simp
  qed
qed

subsection \<open>Properties\<close>

text \<open>C4: any run of \<open>enter\<close> and \<open>exit\<close> calls (failing ones included) keeps the registry well
  formed (distinct clients, no empty per-client dictionary, scopes filed under their own
  identifier) and behaves, result by result, as a partial map from (client, scope) to scopes.\<close>

theorem registry_refines_map:
  assumes "run_ops scope_step ops [] = (results, reg)"
  shows "registry_ok reg \<and> run_ops scope_spec ops (\<lambda>_. None) = (results, lookup_scope reg)"
proof -
  have "lookup_scope [] = (\<lambda>_. None)" by (auto simp: lookup_scope_def)
  with scope_sim.run_inv [OF _ _ assms] scope_sim.run_spec [OF _ _ assms] show ?thesis
    by (simp add: list_all_iff)
qed

theorem registry_refines_map_witness:
  "\<exists>rs reg. run_ops scope_step [Enter ''c'' ''s'' [] ''t'', Enter ''c'' ''s'' [] ''t'', Exit ''c'' ''x''] [] = (rs, reg)
     \<and> registry_ok reg \<and> (\<exists>sc. lookup_scope reg (''c'', ''s'') = Some sc)"
proof -
  obtain rs reg where r: "run_ops scope_step
      [Enter ''c'' ''s'' [] ''t'', Enter ''c'' ''s'' [] ''t'', Exit ''c'' ''x''] [] = (rs, reg)"
    by fastforce
  have "reg = [(''c'', [(''s'', \<lparr>scope_id = ''s'', scope_tags = [], entered_at = ''t''\<rparr>)])]"
    using r by (simp add: enter_def Let_def exit_def setdefault_def dhas_def clients_def)
  then have "\<exists>sc. lookup_scope reg (''c'', ''s'') = Some sc" by simp
  with registry_refines_map [OF r] r show ?thesis by blast
qed

text \<open>C5: \<open>exit\<close> undoes \<open>enter\<close>: leaving the scope just entered returns that scope and the very
  registry, client order included, that was there before.\<close>

theorem scope_bracket:
  assumes "registry_ok reg" "enter c sid tags stamp reg = (Inr sc, reg')"
  shows "exit c sid reg' = (Inr sc, reg) \<and> active reg' (Some c) = active reg (Some c) @ [sc]
     \<and> (\<forall>c'. c' \<noteq> c \<longrightarrow> active reg' (Some c') = active reg (Some c'))"
proof -
  note e = enter_Inr [OF assms(2)]
  have "sid \<notin> fst ` set (clients reg c)" using e(2) by (simp add: map_of_eq_None_iff)
  then have "dset sid sc (clients reg c) = clients reg c @ [(sid, sc)]" by (rule dset_new)
  then have "active reg' (Some c) = active reg (Some c) @ [sc]" by (simp add: active_def e(5))
  moreover have "\<forall>c'. c' \<noteq> c \<longrightarrow> active reg' (Some c') = active reg (Some c')"
    by (simp add: active_def e(5) setdefault_facts)
  ultimately show ?thesis using exit_enter [OF assms] by blast
qed

theorem scope_bracket_witness:
  "\<exists>sc reg'. enter ''c'' ''s'' [] ''t'' [] = (Inr sc, reg') \<and> exit ''c'' ''s'' reg' = (Inr sc, [])"
proof -
  obtain sc reg' where e: "enter ''c'' ''s'' [] ''t'' [] = (Inr sc, reg')"
    by (simp add: enter_def Let_def setdefault_def dhas_def clients_def)
  with scope_bracket [OF registry_ok_Nil e] show ?thesis by blast
qed

text \<open>C6: \<open>resolve\<close> does not guess. A field of the result has the value that every active scope
  carrying the field gives it; the ambiguous fields are exactly those on which two active scopes
  differ, and they are absent from the result; the state is a function of the number of scopes and
  of the ambiguous fields.\<close>

theorem resolve_no_guess:
  assumes "scopes_clean (active reg c)" "resolve reg c = (tags, ids, state, amb)"
  shows "(dget tags f = Some v \<longleftrightarrow>
        (\<exists>s \<in> set (active reg c). dget (scope_tags s) f = Some v) \<and>
        (\<forall>s \<in> set (active reg c). \<forall>w. dget (scope_tags s) f = Some w \<longrightarrow> w = v))
     \<and> (f \<in> set amb \<longleftrightarrow> (\<exists>s \<in> set (active reg c). \<exists>s' \<in> set (active reg c). \<exists>v w.
          dget (scope_tags s) f = Some v \<and> dget (scope_tags s') f = Some w \<and> v \<noteq> w))
     \<and> (f \<in> set amb \<longrightarrow> dget tags f = None)
     \<and> ids = map scope_id (active reg c) \<and> state = scope_state (active reg c) amb"
proof -
  let ?vs = "field_values (active reg c) f"
  note r = resolve_result [OF assms, of f]
  have amb: "f \<in> set amb \<longleftrightarrow> disagree (active reg c) f"
    using r flat_values(3) [OF assms(1), of _ f] by (auto simp: disagree_iff [OF assms(1)])
  have "dget tags f = Some v \<longleftrightarrow> v \<in> set ?vs \<and> (\<forall>w \<in> set ?vs. w = v)"
    using r by (cases ?vs) (auto simp: agreed_def disagree_iff [OF assms(1)])
  moreover have "disagree (active reg c) f \<longrightarrow> dget tags f = None" using r by (simp add: agreed_def)
  ultimately show ?thesis
    using r amb unfolding disagree_iff [OF assms(1)] Bex_def Ball_def field_values_set by blast
qed

definition two_scopes :: registry where
  "two_scopes = [(''mem0'',
     [(''a'', \<lparr>scope_id = ''a'', scope_tags = [(''session_id'', PStr ''s1''), (''run_id'', PStr ''r'')], entered_at = ''t''\<rparr>),
      (''b'', \<lparr>scope_id = ''b'', scope_tags = [(''session_id'', PStr ''s2''), (''run_id'', PStr ''r'')], entered_at = ''t''\<rparr>)])]"

lemma two_scopes_clean: "scopes_clean (active two_scopes c)"
proof -
  have "valid_utf8 ''s1''" "valid_utf8 ''s2''" "valid_utf8 ''r''" by (rule valid_utf8_ascii; simp)+
  then show ?thesis
    by (cases c) (auto simp: scopes_clean_def active_def clients_def two_scopes_def text_valid_def
        tags_ok_def field_ok_def text_ok_def TAG_FIELDS_def MAX_TAG_LEN_def)
qed

theorem resolve_no_guess_witness:
  "scopes_clean (active two_scopes (Some ''mem0'')) \<and>
   resolve two_scopes (Some ''mem0'')
     = ([(''run_id'', PStr ''r'')], [''a'', ''b''], ''ambiguous'', [''session_id'']) \<and>
   dget [(''run_id'', PStr ''r'')] ''session_id'' = (None :: pyval option)"
proof -
  have r: "resolve two_scopes (Some ''mem0'')
     = ([(''run_id'', PStr ''r'')], [''a'', ''b''], ''ambiguous'', [''session_id''])" by code_simp
  from resolve_no_guess [OF two_scopes_clean r, where f = "''session_id''"] r two_scopes_clean
  show ?thesis by simp
qed

end
