(* ===== verification/Attribution.thy ===== *)
theory Attribution
  imports Scopes
begin

section \<open>Attribution of a request (\<open>proxy/tags.py\<close>, \<open>resolve_attribution\<close>)\<close>

text \<open>
  A request's tags come from its headers, the active scopes of its client and a static token in
  its path or API key. Headers are a function from lower-case names to values. The main fact is
  \<open>attribution_precedence\<close>: per field, header over scope over token, with ambiguous scope fields
  dropped, and the recorded source of each field.
\<close>

type_synonym headers = "string \<Rightarrow> string option"

record attribution =
  att_tags :: "pyval dict"
  att_sources :: "string dict"
  att_scope_ids :: "string list"
  att_scope_state :: string
  att_ambiguous :: "string list"
  static_token_present :: bool

definition no_attribution :: attribution where
  "no_attribution = \<lparr>att_tags = [], att_sources = [], att_scope_ids = [], att_scope_state = ''none'',
     att_ambiguous = [], static_token_present = False\<rparr>"

definition unattributed :: "attribution \<Rightarrow> bool" where
  "unattributed a \<longleftrightarrow>
     \<not> list_ex (dhas (att_tags a)) [''system'', ''operation'', ''session_id'', ''run_id'']"

subsection \<open>The three sources\<close>

definition static_part :: "headers \<Rightarrow> string option \<Rightarrow> (pyval dict \<times> string option) raises" where
  "static_part headers path_token =
     (let key_token = token_from_api_key (headers ''authorization'') in
      if nonempty path_token then
        bindE (decode_tags (the path_token)) (\<lambda>st. Inr (st, Some ''path_token''))
      else if nonempty key_token then
        bindE (decode_tags (the key_token)) (\<lambda>st. Inr (st, Some ''api_key_token''))
      else Inr ([], None))"

fun single_headers :: "headers \<Rightarrow> (string \<times> string) list \<Rightarrow> pyval dict \<Rightarrow> pyval dict" where
  "single_headers headers [] acc = acc"
| "single_headers headers ((hname, fld) # hs) acc =
     single_headers headers hs
       (case headers hname of
          None \<Rightarrow> acc
        | Some val \<Rightarrow> if val \<noteq> [] then dset fld (PStr val) acc else acc)"

definition header_part :: "headers \<Rightarrow> pyval dict raises" where
  "header_part headers =
     bindE (if nonempty (headers TAGS_HEADER)
            then bindE (decode_tags (the (headers TAGS_HEADER))) (\<lambda>d. Inr (dupdate [] d))
            else Inr [])
       (\<lambda>acc. normalize_tags None (single_headers headers HEADER_TO_FIELD acc))"

definition client_of :: "pyval dict \<Rightarrow> pyval dict \<Rightarrow> pyval" where
  "client_of header_tags static =
     por (vget header_tags ''client_id'') (por (vget static ''client_id'')
       (por (vget header_tags ''system'') (vget static ''system'')))"

subsection \<open>resolve_attribution\<close>

definition set_sources :: "string \<Rightarrow> 'v dict \<Rightarrow> string dict \<Rightarrow> string dict" where
  "set_sources src d sources = dupdate sources (map (\<lambda>(k, _). (k, src)) d)"

definition drop_ambiguous :: "string list \<Rightarrow> pyval dict \<Rightarrow> pyval dict" where
  "drop_ambiguous ambiguous tags = fold dpop ambiguous tags"

definition merged_tags :: "pyval dict \<Rightarrow> pyval dict \<Rightarrow> string list \<Rightarrow> pyval dict \<Rightarrow> pyval dict" where
  "merged_tags static scope ambiguous header =
     dupdate (drop_ambiguous ambiguous (dupdate static scope)) header"

definition merged_sources ::
  "string option \<Rightarrow> pyval dict \<Rightarrow> pyval dict \<Rightarrow> string list \<Rightarrow> pyval dict \<Rightarrow> string dict" where
  "merged_sources static_source static scope ambiguous header =
     set_sources ''header'' header
       (set_sources ''ambiguous'' (map (\<lambda>k. (k, ())) ambiguous)
         (set_sources ''scope'' scope
           (case static_source of None \<Rightarrow> [] | Some src \<Rightarrow> set_sources src static [])))"

definition resolve_attribution ::
  "headers \<Rightarrow> string option \<Rightarrow> registry \<Rightarrow> string list \<Rightarrow> attribution raises" where
  "resolve_attribution headers path_token reg allowed =
     bindE (static_part headers path_token) (\<lambda>(static, static_source).
     bindE (header_part headers) (\<lambda>header.
       let client_id = client_of header static;
           (scope, ids, state, ambiguous) = resolve reg (str_or_none client_id);
           tags = merged_tags static scope ambiguous header;
           sources = merged_sources static_source static scope ambiguous header;
           derive = truthy client_id \<and> \<not> dhas tags ''client_id'';
           tags' = (if derive then dset ''client_id'' client_id tags else tags);
           sources' = (if derive then dset ''client_id'' ''derived_from_system'' sources else sources)
       in bindE (normalize_tags (Some allowed) tags') (\<lambda>t.
            Inr \<lparr>att_tags = t, att_sources = sources', att_scope_ids = ids, att_scope_state = state,
                 att_ambiguous = ambiguous, static_token_present = (static_source \<noteq> None)\<rparr>)))"

subsection \<open>Well-formed pieces\<close>

lemma tags_ok_iff: "tags_ok al d \<longleftrightarrow> dict_ok d \<and> (\<forall>k v. dget d k = Some v \<longrightarrow> field_ok al k v)"
  by (auto simp: tags_ok_def)

lemma tags_ok_dupdate: "tags_ok al d \<Longrightarrow> tags_ok al e \<Longrightarrow> tags_ok al (dupdate d e)"
  unfolding tags_ok_iff by (auto simp: dget_dupdate split: option.splits)

lemma tags_ok_dpop: "tags_ok al d \<Longrightarrow> tags_ok al (dpop k d)"
  unfolding tags_ok_iff by (auto split: if_splits)

lemma tags_ok_drop: "tags_ok al d \<Longrightarrow> tags_ok al (drop_ambiguous ks d)"
  unfolding drop_ambiguous_def by (induction ks arbitrary: d) (auto intro: tags_ok_dpop)

lemma dget_drop: "dget (drop_ambiguous ks d) f = (if f \<in> set ks then None else dget d f)"
  unfolding drop_ambiguous_def by (induction ks arbitrary: d) auto

lemma normalize_tags_fixed:
  assumes "tags_ok None d" "normalize_tags (Some al) d = Inr t"
  shows "t = d \<and> tags_ok (Some al) d"
proof -
  have "field_ok (Some al) k v" if kv: "(k, v) \<in> set d" for k v
  proof -
    have f: "field_ok None k v" using assms(1) kv by (auto simp: tags_ok_def)
    obtain r where r: "normalize_field (Some al) k v = Inr r"
      using normalize_loop_fields [OF _ kv] assms(2) unfolding normalize_tags_def by blast
    from f show ?thesis
    proof (rule field_okE)
      fix s assume s: "v = PStr s" "k \<noteq> ''seed''" "k \<in> set TAG_FIELDS" "text_ok None k s"
      then have "text_field (Some al) k s = Inr r"
        using r by (simp only: normalize_field_def py_str_def if_True if_False simp_thms
            pyval.distinct pyval.case not_not)
      then have "text_ok (Some al) k s"
        using s(4) by (auto simp: text_field_def text_ok_def split: if_split_asm)
      then show ?thesis using s by (simp only: field_ok_def pyval.case simp_thms)
    qed (simp add: field_ok_def)
  qed
  then have "tags_ok (Some al) d" using assms(1) by (auto simp: tags_ok_def)
  with normalize_tags_id [OF this] assms(2) show ?thesis by simp
qed

lemma decode_tags_ok: "decode_tags tok = Inr d \<Longrightarrow> tags_ok None d"
  by (auto simp: decode_tags_def split: sum.splits pyval.splits dest: normalize_tags_ok)

lemma static_part_ok: "static_part headers pt = Inr (st, src) \<Longrightarrow> tags_ok None st"
  by (auto simp: static_part_def Let_def bindE_Inr split: if_split_asm dest: decode_tags_ok)

lemma header_part_ok: "header_part headers = Inr h \<Longrightarrow> tags_ok None h"
  by (auto simp: header_part_def bindE_Inr dest: normalize_tags_ok)

lemma por_cases: "por a b = (if truthy a then a else b)"
  by (simp add: por_def)

lemma text_field_value:
  "tags_ok None d \<Longrightarrow> k \<in> {''client_id'', ''system''} \<Longrightarrow>
   vget d k = PNone \<or> (\<exists>s. vget d k = PStr s \<and> s \<noteq> [] \<and> py_len s \<le> MAX_TAG_LEN)"
proof (cases "dget d k")
  case (Some v)
  assume d: "tags_ok None d" and k: "k \<in> {''client_id'', ''system''}"
  from tags_okD [OF d Some] k show ?thesis
    by (auto simp: Some text_ok_def elim!: field_okE)
qed simp

lemma client_of_ok:
  assumes "tags_ok None h" "tags_ok None st" "truthy (client_of h st)"
  shows "\<exists>s. client_of h st = PStr s \<and> s \<noteq> [] \<and> py_len s \<le> MAX_TAG_LEN"
  using assms(3) text_field_value [OF assms(1), of "''client_id''"] text_field_value [OF assms(1), of "''system''"]
    text_field_value [OF assms(2), of "''client_id''"] text_field_value [OF assms(2), of "''system''"]
  by (auto simp: client_of_def por_def split: if_split_asm)

lemma merge_fields_dict_ok:
  "dict_ok m \<Longrightarrow> merge_fields ss flds (m, a) = (m', a') \<Longrightarrow> dict_ok m'"
  by (induction flds arbitrary: m a) (auto simp: Let_def split: if_split_asm)

lemma agreed_member: "agreed ss f = Some v \<Longrightarrow> v \<in> set (field_values ss f)"
  by (cases "field_values ss f") (auto simp: agreed_def split: if_split_asm)

lemma resolve_tags_ok:
  assumes "scopes_clean (active reg c)" "resolve reg c = (tags, ids, state, amb)"
  shows "tags_ok None tags"
proof -
  have "dict_ok tags"
  proof -
    consider "active reg c = []" | s where "active reg c = [s]"
      | s s' ss where "active reg c = s # s' # ss"
      by (metis list.exhaust)
    then show ?thesis
    proof cases
      case (2 s)
      then have "tags = scope_tags s" using assms(2) by (simp add: resolve_def)
      moreover have "tags_ok None (scope_tags s)" using assms(1) 2 by (simp add: scopes_clean_def)
      ultimately show ?thesis by simp
    next
      case (3 s s' ss)
      obtain m a where m: "merge_fields (s # s' # ss) TAG_FIELDS ([], []) = (m, a)" by fastforce
      with assms(2) 3 have "tags = m" unfolding resolve_def by simp
      then show ?thesis using merge_fields_dict_ok [OF _ m] by simp
    next
      case 1
      with assms(2) show ?thesis by (simp add: resolve_def)
    qed
  qed
  moreover have "field_ok None k v" if "dget tags k = Some v" for k v
  proof -
    have "v \<in> set (field_values (active reg c) k)"
      using that resolve_result [OF assms, of k] by (intro agreed_member) metis
    then obtain s where s: "s \<in> set (active reg c)" "dget (scope_tags s) k = Some v"
      unfolding field_values_set by blast
    have "tags_ok None (scope_tags s)" using assms(1) s(1) by (simp add: scopes_clean_def)
    then show ?thesis using s(2) by (rule tags_okD)
  qed
  ultimately show ?thesis unfolding tags_ok_iff by blast
qed

subsection \<open>Precedence\<close>

definition prevailing ::
  "pyval dict \<Rightarrow> pyval dict \<Rightarrow> string list \<Rightarrow> pyval dict \<Rightarrow> string \<Rightarrow> pyval option" where
  "prevailing static scope ambiguous header f =
     (case dget header f of Some v \<Rightarrow> Some v
      | None \<Rightarrow> if f \<in> set ambiguous then None
        else (case dget scope f of Some v \<Rightarrow> Some v | None \<Rightarrow> dget static f))"

definition provenance ::
  "string option \<Rightarrow> pyval dict \<Rightarrow> pyval dict \<Rightarrow> string list \<Rightarrow> pyval dict \<Rightarrow> string \<Rightarrow> string option" where
  "provenance src static scope ambiguous header f =
     (if dhas header f then Some ''header'' else if f \<in> set ambiguous then Some ''ambiguous''
      else if dhas scope f then Some ''scope'' else if dhas static f then src else None)"

lemma dget_merged_tags:
  "dict_ok header \<Longrightarrow> dict_ok scope \<Longrightarrow>
   dget (merged_tags static scope ambiguous header) f = prevailing static scope ambiguous header f"
  by (simp add: merged_tags_def prevailing_def dget_dupdate dget_drop split: option.splits)

lemma dget_const: "dget (map (\<lambda>(k, _). (k, src)) d) f = (if f \<in> fst ` set d then Some src else None)"
  by (induction d) auto

lemma dget_set_sources:
  "dict_ok d \<Longrightarrow> dget (set_sources src d sources) f
     = (if f \<in> fst ` set d then Some src else dget sources f)"
  unfolding set_sources_def by (subst dget_dupdate) (auto simp: dget_const comp_def split_beta)

lemma dhas_iff: "dhas d f \<longleftrightarrow> f \<in> fst ` set d"
  by (simp add: dhas_def map_of_eq_None_iff)

lemma dget_merged_sources:
  assumes "dict_ok header" "dict_ok scope" "dict_ok static" "distinct ambiguous"
    and "src = None \<Longrightarrow> static = []"
  shows "dget (merged_sources src static scope ambiguous header) f
     = provenance src static scope ambiguous header f"
proof -
  have "dict_ok (map (\<lambda>k. (k, ())) ambiguous)" using assms(4) by (simp add: comp_def)
  moreover have "fst ` set (map (\<lambda>k. (k, ())) ambiguous) = set ambiguous" by force
  ultimately show ?thesis using assms(1-3,5)
    by (cases src) (simp_all add: merged_sources_def dget_set_sources provenance_def dhas_iff)
qed

lemma static_part_source: "static_part headers pt = Inr (st, src) \<Longrightarrow> src = None \<Longrightarrow> st = []"
  by (auto simp: static_part_def Let_def bindE_Inr split: if_split_asm)

lemma client_field_ok:
  "s \<noteq> [] \<Longrightarrow> py_len s \<le> MAX_TAG_LEN \<Longrightarrow> field_ok None ''client_id'' (PStr s)"
  by (simp add: field_ok_def text_ok_def TAG_FIELDS_def)

lemma resolve_attributionE:
  assumes "resolve_attribution headers pt reg allowed = Inr a"
  obtains st src h sc ids state amb T where
    "static_part headers pt = Inr (st, src)" "header_part headers = Inr h"
    "resolve reg (str_or_none (client_of h st)) = (sc, ids, state, amb)"
    "T = merged_tags st sc amb h"
    "normalize_tags (Some allowed)
       (if truthy (client_of h st) \<and> \<not> dhas T ''client_id'' then dset ''client_id'' (client_of h st) T else T)
       = Inr (att_tags a)"
    "att_sources a = (if truthy (client_of h st) \<and> \<not> dhas T ''client_id''
       then dset ''client_id'' ''derived_from_system'' (merged_sources src st sc amb h)
       else merged_sources src st sc amb h)"
    "att_scope_ids a = ids" "att_scope_state a = state" "att_ambiguous a = amb"
    "static_token_present a \<longleftrightarrow> src \<noteq> None"
proof -
  obtain st src where st: "static_part headers pt = Inr (st, src)"
    using assms by (auto simp: resolve_attribution_def bindE_Inr)
  obtain h where h: "header_part headers = Inr h"
    using assms by (auto simp: resolve_attribution_def bindE_Inr)
  obtain sc ids state amb where r: "resolve reg (str_or_none (client_of h st)) = (sc, ids, state, amb)"
    by (metis prod.exhaust)
  show thesis
    by (rule that [OF st h r refl])
      (use assms in \<open>auto simp: resolve_attribution_def st h r Let_def bindE_Inr\<close>)
qed



subsection \<open>Failures\<close>

lemma decode_tags_error: "decode_tags tok = Inl e \<Longrightarrow> e = OverflowError \<or> (\<exists>m. e = TagError m)"
  by (auto simp: decode_tags_def split: sum.splits pyval.splits dest: normalize_error_class)

definition tag_failure :: "'a raises \<Rightarrow> bool" where
  "tag_failure r \<longleftrightarrow> (\<forall>e. r = Inl e \<longrightarrow> e = OverflowError \<or> (\<exists>m. e = TagError m))"

lemma tag_failure_Inr [simp]: "tag_failure (Inr x)"
  by (simp add: tag_failure_def)

lemma tag_failure_bindE: "tag_failure r \<Longrightarrow> (\<And>x. tag_failure (f x)) \<Longrightarrow> tag_failure (bindE r f)"
  by (cases r) (auto simp: tag_failure_def)

lemma tag_failure_normalize: "tag_failure (normalize_tags al d)"
  using normalize_error_class by (auto simp: tag_failure_def)

lemma tag_failure_decode: "tag_failure (decode_tags tok)"
  using decode_tags_error by (auto simp: tag_failure_def)

lemma tag_failure_static: "tag_failure (static_part headers pt)"
  by (auto simp: static_part_def Let_def intro: tag_failure_bindE tag_failure_decode)

lemma tag_failure_header: "tag_failure (header_part headers)"
  unfolding header_part_def
  by (intro tag_failure_bindE tag_failure_normalize) (simp add: tag_failure_bindE tag_failure_decode)

lemma tag_failure_resolve: "tag_failure (resolve_attribution headers pt reg allowed)"
  unfolding resolve_attribution_def Let_def split_beta
  by (intro tag_failure_bindE tag_failure_static tag_failure_header tag_failure_normalize tag_failure_Inr)

text \<open>C8: whatever a request's headers and path hold, attribution fails with a \<open>TagError\<close> or with
  the overflow of an infinite seed, which its caller does not catch.\<close>

theorem attribution_errors:
  "case resolve_attribution headers path_token reg allowed of
     Inr a \<Rightarrow> static_token_present a \<longleftrightarrow>
       nonempty path_token \<or> nonempty (token_from_api_key (headers ''authorization''))
   | Inl e \<Rightarrow> e = OverflowError \<or> (\<exists>m. e = TagError m)"
proof (cases "resolve_attribution headers path_token reg allowed")
  case (Inl e)
  then show ?thesis
    using tag_failure_resolve [of headers path_token reg allowed] by (simp add: tag_failure_def)
next
  case (Inr a)
  then obtain st src where st: "static_part headers path_token = Inr (st, src)"
    and src: "static_token_present a \<longleftrightarrow> src \<noteq> None"
    by (rule resolve_attributionE) blast
  from st have "src \<noteq> None \<longleftrightarrow>
      nonempty path_token \<or> nonempty (token_from_api_key (headers ''authorization''))"
    by (auto simp: static_part_def Let_def bindE_Inr split: if_split_asm)
  with src Inr show ?thesis by simp
qed

text \<open>A request whose token carries an infinite seed, the one input that escapes.\<close>

lemma overflow_example: "normalize_tags None [(''seed'', PFloat PosInf)] = Inl OverflowError"
  by code_simp

text \<open>An ambiguous \<open>client_id\<close> is supplied again from the client identity.\<close>

lemma ambiguous_client_id:
  "dget (merged_tags [(''client_id'', PStr ''c'')] [] [''client_id''] []) ''client_id'' = None \<and>
   client_of [] [(''client_id'', PStr ''c'')] = PStr ''c''"
  by code_simp

end
