(* ===== verification/Event_Log.thy ===== *)
theory Event_Log
  imports Attribution
begin

section \<open>The append-only event log (\<open>proxy/logging.py\<close>)\<close>

text \<open>
  A logger is its sequence number, its instance identifier, whether it is closed and the content
  of its file. The time stamp of an event and the number of bytes each \<open>os.write\<close> accepts are
  inputs. Facts: \<open>log_sim\<close> (on events that JSON can carry, the file is a faithful list of
  records: reading it back gives what was appended), \<open>log_grows\<close>, \<open>log_seq_contiguous\<close> and
  \<open>log_resume\<close>.
\<close>

record logger =
  log_seq :: int
  log_instance :: string
  log_closed :: bool
  log_file :: string

subsection \<open>Operations\<close>

text \<open>\<open>while view: written = os.write(fd, view); view = view[written:]\<close>. \<open>os.write\<close> takes at least
  one byte of a non-empty buffer and at most all of it; \<open>accept\<close> is what it would take.\<close>

function write_loop :: "(string \<Rightarrow> nat) \<Rightarrow> string \<Rightarrow> string \<Rightarrow> string" where
  "write_loop accept view file =
     (if view = [] then file
      else let written = max 1 (min (accept view) (length view)) in
        write_loop accept (drop written view) (file @ take written view))"
  by pat_completeness auto

termination write_loop
  by (relation "measure (\<lambda>(_, view, _). length view)") (auto simp: Let_def)

declare write_loop.simps [simp del]

definition log_record :: "logger \<Rightarrow> string \<Rightarrow> pyval dict \<Rightarrow> pyval dict" where
  "log_record lg stamp event =
     dupdate [(''seq'', PInt (log_seq lg + 1)), (''proxy_instance_id'', PStr (log_instance lg)),
              (''logged_at'', PStr stamp)] event"

definition log_line :: "pyval dict \<Rightarrow> string" where
  "log_line r = json_dumps Compact_Utf8 (PDict r) @ newline"

text \<open>A string that holds half of a surrogate pair does not encode: \<open>line.encode("utf-8")\<close> raises
  after the sequence number has moved.\<close>

definition append_event ::
  "string \<Rightarrow> (string \<Rightarrow> nat) \<Rightarrow> pyval dict \<Rightarrow> logger \<Rightarrow> pyval dict raises \<times> logger" where
  "append_event stamp accept event lg =
     (if log_closed lg then (Inl (RuntimeError ''logger is closed''), lg)
      else let r = log_record lg stamp event; lg1 = lg\<lparr>log_seq := log_seq lg + 1\<rparr> in
        if valid_utf8 (log_line r)
        then (Inr r, lg1\<lparr>log_file := write_loop accept (log_line r) (log_file lg)\<rparr>)
        else (Inl UnicodeEncodeError, lg1))"

definition flush :: "logger \<Rightarrow> logger" where
  "flush lg = lg"

definition close_log :: "logger \<Rightarrow> logger" where
  "close_log lg = (if log_closed lg then lg else lg\<lparr>log_closed := True\<rparr>)"

text \<open>Text mode reads \<open>\r\n\<close> and \<open>\r\<close> as \<open>\n\<close>.\<close>

fun translate_newlines :: "bool \<Rightarrow> string \<Rightarrow> string" where
  "translate_newlines after_cr [] = []"
| "translate_newlines after_cr (c # s) =
     (if c = CHR 0x0D then CHR 0x0A # translate_newlines True s
      else if c = CHR 0x0A \<and> after_cr then translate_newlines False s
      else c # translate_newlines False s)"

definition universal_newlines :: "string \<Rightarrow> string" where
  "universal_newlines s = translate_newlines False s"

definition read_events :: "string \<Rightarrow> pyval list raises" where
  "read_events file =
     (if valid_utf8 file then
        mapE json_loads (filter (\<lambda>l. l \<noteq> [])
          (map py_strip (py_split CHR 0x0A (universal_newlines file))))
      else Inl UnicodeDecodeError)"

definition caught_on_resume :: "pyexc \<Rightarrow> bool" where
  "caught_on_resume e \<longleftrightarrow> is_value_error e \<or> e = KeyError"

definition last_seq :: "string \<Rightarrow> pyval list \<Rightarrow> int raises" where
  "last_seq inst events =
     (if events = [] then Inl IndexError
      else bindE (as_dict (last events)) (\<lambda>d.
        if vget d ''proxy_instance_id'' = PStr inst
        then py_int (case dget d ''seq'' of None \<Rightarrow> PInt 0 | Some v \<Rightarrow> v) else Inr 0))"

definition open_log :: "string \<Rightarrow> string \<Rightarrow> logger raises" where
  "open_log inst file =
     (let fresh = \<lparr>log_seq = 0, log_instance = inst, log_closed = False, log_file = file\<rparr> in
      if file = [] then Inr fresh
      else (case bindE (read_events file) (last_seq inst) of
              Inr n \<Rightarrow> Inr (fresh\<lparr>log_seq := n\<rparr>)
            | Inl e \<Rightarrow> if caught_on_resume e then Inr fresh else Inl e))"

subsection \<open>Writing and reading lines\<close>

declare json_dumps.simps [simp del] json_ok.simps(4) [simp del]

lemma json_ok_PDict:
  "json_ok (PDict d) \<longleftrightarrow> dict_ok d \<and> (\<forall>(k, v) \<in> set d. valid_utf8 k \<and> json_ok v)"
  by (simp add: json_ok.simps list_all_iff)

lemma write_loop_all: "write_loop accept view file = file @ view"
proof (induction accept view "file" rule: write_loop.induct)
  case (1 accept view f)
  show ?case
  proof (cases "view = []")
    case False
    then show ?thesis using 1 by (subst write_loop.simps) (simp add: Let_def del: take_append)
  qed (simp add: write_loop.simps)
qed

lemma universal_newlines_id: "CHR 0x0D \<notin> set s \<Longrightarrow> universal_newlines s = s"
  unfolding universal_newlines_def by (induction s) auto

lemma py_split_append: "c \<notin> set a \<Longrightarrow> py_split c (a @ c # b) = a # py_split c b"
  by (induction a) auto

lemma py_split_lines:
  "\<forall>l \<in> set ls. CHR 0x0A \<notin> set l \<Longrightarrow> py_split CHR 0x0A (concat (map (\<lambda>l. l @ newline) ls)) = ls @ [[]]"
  by (induction ls) (simp_all add: newline_def py_split_append)

lemma dict_text_ends:
  "\<exists>t. json_dumps st (PDict d) = ''{'' @ t @ ''}''"
  by (simp add: json_dumps_dict)

lemma py_strip_braces: "py_strip (''{'' @ t @ ''}'') = ''{'' @ t @ ''}''"
  by (simp add: py_strip_def py_lstrip_def is_space_def rstrip_while_id)

lemma json_line_plain:
  assumes "json_ok (PDict r)"
  shows "CHR 0x0A \<notin> set (json_dumps Compact_Utf8 (PDict r))"
    "CHR 0x0D \<notin> set (json_dumps Compact_Utf8 (PDict r))"
  using json_dumps_printable [OF assms, of _ Compact_Utf8] by fastforce+

definition log_text :: "pyval dict list \<Rightarrow> string" where
  "log_text rs = concat (map log_line rs)"

lemma log_text_simps [simp]:
  "log_text [] = []" "log_text (rs @ [r]) = log_text rs @ log_line r"
  by (simp_all add: log_text_def)

lemma valid_newline [simp]: "valid_utf8 newline"
  unfolding newline_def by (rule valid_utf8_ascii) simp

lemma log_text_valid: "\<forall>r \<in> set rs. json_ok (PDict r) \<Longrightarrow> valid_utf8 (log_text rs)"
  unfolding log_text_def log_line_def
  by (induction rs) (simp_all add: valid_utf8_append valid_json_dumps)

lemma read_log_text:
  assumes "\<forall>r \<in> set rs. json_ok (PDict r)"
  shows "read_events (log_text rs) = Inr (map PDict rs)"
proof -
  let ?ls = "map (\<lambda>r. json_dumps Compact_Utf8 (PDict r)) rs"
  have t: "log_text rs = concat (map (\<lambda>l. l @ newline) ?ls)"
    by (simp add: log_text_def comp_def flip: log_line_def)
  have cr: "CHR 0x0D \<notin> set (log_text rs)"
    using json_line_plain(2) assms by (auto simp: t newline_def)
  have "py_split CHR 0x0A (log_text rs) = ?ls @ [[]]"
    unfolding t using json_line_plain(1) assms by (intro py_split_lines) auto
  moreover have strip: "py_strip (json_dumps Compact_Utf8 (PDict r)) = json_dumps Compact_Utf8 (PDict r)" for r
    using dict_text_ends [of Compact_Utf8 r] py_strip_braces by metis
  have "json_dumps Compact_Utf8 (PDict r) \<noteq> []" for r
    using dict_text_ends [of Compact_Utf8 r] by auto
  then have "filter (\<lambda>l. l \<noteq> []) (map py_strip (?ls @ [[]])) = ?ls"
    using py_strip_id [of "[]"] by (simp add: strip filter_id_conv comp_def)
  moreover have "mapE json_loads ?ls = Inr (map PDict rs)"
    using assms by (auto simp: mapE_Inr_iff list_all2_conv_all_nth json_loads_dumps)
  moreover have "read_events (log_text rs) = mapE json_loads (filter (\<lambda>l. l \<noteq> [])
      (map py_strip (py_split CHR 0x0A (log_text rs))))"
    using log_text_valid [OF assms] universal_newlines_id [OF cr] by (simp only: read_events_def if_True)
  ultimately show ?thesis by (simp only:)
qed

subsection \<open>The log is a list of records\<close>

record log_model =
  model_seq :: int
  model_instance :: string
  model_closed :: bool
  model_records :: "pyval dict list"

datatype log_op = Append string "string \<Rightarrow> nat" "pyval dict" | Flush | Close

fun log_step :: "log_op \<Rightarrow> logger \<Rightarrow> pyval dict option raises \<times> logger" where
  "log_step (Append stamp accept event) lg =
     (case append_event stamp accept event lg of
        (Inl e, lg') \<Rightarrow> (Inl e, lg') | (Inr r, lg') \<Rightarrow> (Inr (Some r), lg'))"
| "log_step Flush lg = (Inr None, flush lg)"
| "log_step Close lg = (Inr None, close_log lg)"

fun log_spec :: "log_op \<Rightarrow> log_model \<Rightarrow> pyval dict option raises \<times> log_model" where
  "log_spec (Append stamp accept event) m =
     (if model_closed m then (Inl (RuntimeError ''logger is closed''), m)
      else let r = dupdate [(''seq'', PInt (model_seq m + 1)),
                 (''proxy_instance_id'', PStr (model_instance m)), (''logged_at'', PStr stamp)] event
        in (Inr (Some r), m\<lparr>model_seq := model_seq m + 1, model_records := model_records m @ [r]\<rparr>))"
| "log_spec Flush m = (Inr None, m)"
| "log_spec Close m = (Inr None, m\<lparr>model_closed := True\<rparr>)"

definition event_ok :: "pyval dict \<Rightarrow> bool" where
  "event_ok e \<longleftrightarrow> json_ok (PDict e)"

fun log_op_ok :: "log_op \<Rightarrow> bool" where
  "log_op_ok (Append stamp accept event) \<longleftrightarrow> valid_utf8 stamp \<and> event_ok event"
| "log_op_ok _ \<longleftrightarrow> True"

definition log_inv :: "logger \<Rightarrow> bool" where
  "log_inv lg \<longleftrightarrow> valid_utf8 (log_instance lg) \<and>
     (\<exists>rs. log_file lg = log_text rs \<and> (\<forall>r \<in> set rs. json_ok (PDict r)))"

definition dict_of :: "pyval \<Rightarrow> pyval dict" where
  "dict_of v = (case v of PDict d \<Rightarrow> d | _ \<Rightarrow> [])"

definition log_entries :: "logger \<Rightarrow> pyval dict list" where
  "log_entries lg = (case read_events (log_file lg) of Inl e \<Rightarrow> [] | Inr vs \<Rightarrow> map dict_of vs)"

definition log_abs :: "logger \<Rightarrow> log_model" where
  "log_abs lg = \<lparr>model_seq = log_seq lg, model_instance = log_instance lg,
     model_closed = log_closed lg, model_records = log_entries lg\<rparr>"

lemma json_ok_dset:
  assumes "json_ok (PDict d)" "valid_utf8 k" "json_ok v"
  shows "json_ok (PDict (dset k v d))"
proof -
  have "valid_utf8 k' \<and> json_ok v'" if "(k', v') \<in> set (dset k v d)" for k' v'
  proof -
    have d: "dict_ok d" "\<forall>(a, b) \<in> set d. valid_utf8 a \<and> json_ok b"
      using assms(1) by (simp_all add: json_ok_PDict)
    have "dget (dset k v d) k' = Some v'"
      using that d(1) dict_ok_set_iff [of "dset k v d"] by simp
    then have "(k' = k \<and> v' = v) \<or> (k', v') \<in> set d"
      by (auto split: if_split_asm dest: map_of_SomeD)
    then show ?thesis using d(2) assms(2,3) by blast
  qed
  then show ?thesis using assms(1) by (auto simp: json_ok_PDict)
qed

lemma json_ok_dupdate: "json_ok (PDict d) \<Longrightarrow> json_ok (PDict e) \<Longrightarrow> json_ok (PDict (dupdate d e))"
proof (induction d e rule: dupdate.induct)
  case (2 d k v e)
  have "json_ok (PDict e)" "valid_utf8 k" "json_ok v" using 2(3) by (auto simp: json_ok_PDict)
  with 2(1) json_ok_dset [OF 2(2)] show ?case by simp
qed simp

lemma valid_log_keys [simp]:
  "valid_utf8 ''seq''" "valid_utf8 ''proxy_instance_id''" "valid_utf8 ''logged_at''"
  by (rule valid_utf8_ascii; simp)+

lemma log_record_ok:
  assumes "valid_utf8 (log_instance lg)" "valid_utf8 stamp" "event_ok event"
  shows "json_ok (PDict (log_record lg stamp event))"
  unfolding log_record_def using assms
  by (intro json_ok_dupdate) (simp_all add: event_ok_def json_ok_PDict)

lemma log_entries_text:
  "log_file lg = log_text rs \<Longrightarrow> \<forall>r \<in> set rs. json_ok (PDict r) \<Longrightarrow> log_entries lg = rs"
  by (simp add: log_entries_def read_log_text dict_of_def comp_def)

lemma append_event_step:
  assumes inv: "log_inv lg" and ok: "valid_utf8 stamp" "event_ok event" and op: "\<not> log_closed lg"
    and app: "append_event stamp accept event lg = (r, lg')"
  shows "log_inv lg' \<and> r = Inr (log_record lg stamp event) \<and>
    lg' = lg\<lparr>log_seq := log_seq lg + 1, log_file := log_file lg @ log_line (log_record lg stamp event)\<rparr> \<and>
    log_entries lg' = log_entries lg @ [log_record lg stamp event]"
proof -
  obtain rs where rs: "log_file lg = log_text rs" "\<forall>r \<in> set rs. json_ok (PDict r)"
    and i: "valid_utf8 (log_instance lg)" using inv by (auto simp: log_inv_def)
  let ?r = "log_record lg stamp event"
  have line: "valid_utf8 (log_line ?r)"
    using log_text_valid [of "[?r]"] log_record_ok [OF i ok] by (simp add: log_text_def)
  have lg': "lg' = lg\<lparr>log_seq := log_seq lg + 1, log_file := log_file lg @ log_line ?r\<rparr>" "r = Inr ?r"
    using app op line by (auto simp: append_event_def Let_def write_loop_all)
  have r: "\<forall>x \<in> set (rs @ [?r]). json_ok (PDict x)" using rs(2) log_record_ok [OF i ok] by simp
  have t: "log_file lg' = log_text (rs @ [?r])" by (simp add: lg'(1) rs(1))
  have "valid_utf8 (log_instance lg')" using i lg'(1) by simp
  with r t have "log_inv lg'" unfolding log_inv_def by blast
  moreover have "log_entries lg' = log_entries lg @ [?r]"
    using log_entries_text [OF t r] log_entries_text [OF rs] by simp
  ultimately show ?thesis using lg' by simp
qed

interpretation log_sim: simulation log_step log_spec log_abs log_inv log_op_ok
proof
  fix lg op r lg' assume i: "log_inv lg" and ok: "log_op_ok op" and st: "log_step op lg = (r, lg')"
  have "log_inv lg' \<and> log_spec op (log_abs lg) = (r, log_abs lg')"
  proof (cases op)
    case (Append stamp accept event)
    show ?thesis
    proof (cases "log_closed lg")
      case True
      then show ?thesis using st i Append by (auto simp: append_event_def log_abs_def)
    next
      case False
      obtain q lg2 where a: "append_event stamp accept event lg = (q, lg2)" by fastforce
      have v: "valid_utf8 stamp" "event_ok event" using ok Append by simp_all
      note s = append_event_step [OF i v False a]
      have "lg' = lg2" "r = Inr (Some (log_record lg stamp event))"
        using st s Append a by (auto split: sum.splits)
      with s False Append show ?thesis
        by (auto simp: log_abs_def log_record_def Let_def)
    qed
  next
    case Flush
    with st i show ?thesis by (auto simp: flush_def)
  next
    case Close
    with st i show ?thesis
      by (auto simp: close_log_def log_inv_def log_abs_def log_entries_def)
  qed
  then show "log_inv lg'" "log_spec op (log_abs lg) = (r, log_abs lg')" by blast+
qed

subsection \<open>What a run of operations leaves behind\<close>

definition fresh_log :: "string \<Rightarrow> logger" where
  "fresh_log inst = \<lparr>log_seq = 0, log_instance = inst, log_closed = False, log_file = []\<rparr>"

fun returned :: "pyval dict option raises list \<Rightarrow> pyval dict list" where
  "returned [] = []"
| "returned (Inr (Some r) # rs) = r # returned rs"
| "returned (_ # rs) = returned rs"

fun plain_op :: "log_op \<Rightarrow> bool" where
  "plain_op (Append stamp accept event) \<longleftrightarrow>
     dict_ok event \<and> dget event ''seq'' = None \<and> dget event ''proxy_instance_id'' = None"
| "plain_op _ \<longleftrightarrow> True"

lemma returned_records:
  "run_ops log_spec ops m = (rs, m') \<Longrightarrow> model_records m' = model_records m @ returned rs"
proof (induction ops arbitrary: m rs)
  case (Cons op ops)
  obtain r m1 qs where st: "log_spec op m = (r, m1)" "run_ops log_spec ops m1 = (qs, m')" "rs = r # qs"
    using Cons.prems by (auto simp: Let_def split: prod.splits)
  have "model_records m1 = model_records m @ returned [r]"
    using st(1) by (cases op) (auto simp: Let_def split: if_split_asm)
  moreover have "returned (r # qs) = returned [r] @ returned qs"
    by (cases "[r]" rule: returned.cases) auto
  ultimately show ?case using Cons.IH [OF st(2)] st(3) by simp
qed simp

definition model_inv :: "string \<Rightarrow> log_model \<Rightarrow> bool" where
  "model_inv inst m \<longleftrightarrow> model_instance m = inst \<and> model_seq m = int (length (model_records m)) \<and>
     (\<forall>i < length (model_records m).
        dget (model_records m ! i) ''seq'' = Some (PInt (int i + 1)) \<and>
        dget (model_records m ! i) ''proxy_instance_id'' = Some (PStr inst))"

lemma model_inv_step: "model_inv inst m \<Longrightarrow> plain_op op \<Longrightarrow> log_spec op m = (r, m') \<Longrightarrow> model_inv inst m'"
  by (cases op) (auto simp: model_inv_def Let_def nth_append dget_dupdate less_Suc_eq
      split: if_split_asm)

lemma model_inv_run:
  "model_inv inst m \<Longrightarrow> list_all plain_op ops \<Longrightarrow> run_ops log_spec ops m = (rs, m') \<Longrightarrow> model_inv inst m'"
proof (induction ops arbitrary: m rs)
  case (Cons op ops)
  then obtain r m1 qs where st: "log_spec op m = (r, m1)" "run_ops log_spec ops m1 = (qs, m')"
    by (auto simp: Let_def split: prod.splits)
  then show ?case using model_inv_step [OF Cons.prems(1) _ st(1)] Cons.IH Cons.prems(2) by simp
qed simp

lemma log_run:
  assumes "valid_utf8 inst" "list_all log_op_ok ops" "run_ops log_step ops (fresh_log inst) = (rs, lg)"
  shows "log_inv lg" "log_entries lg = returned rs"
    and "list_all plain_op ops \<Longrightarrow> model_inv inst (log_abs lg)"
    and "run_ops log_spec ops \<lparr>model_seq = 0, model_instance = inst, model_closed = False, model_records = []\<rparr>
      = (rs, log_abs lg)"
proof -
  have i: "log_inv (fresh_log inst)"
    using assms(1) by (auto simp: log_inv_def fresh_log_def intro!: exI [of _ "[]"])
  have a: "log_abs (fresh_log inst) = \<lparr>model_seq = 0, model_instance = inst, model_closed = False, model_records = []\<rparr>"
    using log_entries_text [of "fresh_log inst" "[]"] by (simp add: log_abs_def fresh_log_def)
  show "log_inv lg" using log_sim.run_inv [OF i assms(2,3)] .
  note r = log_sim.run_spec [OF i assms(2,3)]
  from r a show "run_ops log_spec ops \<lparr>model_seq = 0, model_instance = inst, model_closed = False, model_records = []\<rparr>
      = (rs, log_abs lg)" by simp
  show "log_entries lg = returned rs" using returned_records [OF r] a by (simp add: log_abs_def)
  show "model_inv inst (log_abs lg)" if "list_all plain_op ops"
    using model_inv_run [OF _ that r] a by (simp add: model_inv_def)
qed

lemma log_inv_read: "log_inv lg \<Longrightarrow> read_events (log_file lg) = Inr (map PDict (log_entries lg))"
  using log_entries_text read_log_text unfolding log_inv_def by metis

text \<open>C9: reading the file back gives exactly the records that the successful appends returned, in
  order, and they are numbered 1, 2, 3, ... without a gap, whatever part of each line every single
  \<open>os.write\<close> accepted, with failed appends, flushes and closes in between.\<close>

theorem log_round_trip:
  assumes "valid_utf8 inst" "list_all log_op_ok ops" "list_all plain_op ops"
    and "run_ops log_step ops (fresh_log inst) = (rs, lg)"
  shows "read_events (log_file lg) = Inr (map PDict (returned rs))
     \<and> map (\<lambda>r. dget r ''seq'') (returned rs) = map (\<lambda>i. Some (PInt (int i + 1))) [0..<length (returned rs)]"
proof -
  note r = log_run [OF assms(1,2,4)]
  have "map (\<lambda>r. dget r ''seq'') (returned rs) = map (\<lambda>i. Some (PInt (int i + 1))) [0..<length (returned rs)]"
    using r(3) [OF assms(3)] by (intro nth_equalityI) (simp_all add: model_inv_def log_abs_def r(2))
  then show ?thesis using log_inv_read [OF r(1)] by (simp add: r(2))
qed

definition sample_ops :: "log_op list" where
  "sample_ops = [Append ''t1'' (\<lambda>_. 5) [(''event_type'', PStr ''RUN_START'')], Flush, Close,
     Append ''t2'' length [(''event_type'', PStr ''LOST'')]]"

lemma sample_ops_ok: "list_all log_op_ok sample_ops" "list_all plain_op sample_ops"
proof -
  have "valid_utf8 ''t1''" "valid_utf8 ''t2''" "valid_utf8 ''event_type''" "valid_utf8 ''RUN_START''"
    "valid_utf8 ''LOST''"
    by (rule valid_utf8_ascii; simp)+
  then show "list_all log_op_ok sample_ops" "list_all plain_op sample_ops"
    by (simp_all add: sample_ops_def event_ok_def json_ok_PDict)
qed

lemma sample_run:
  assumes "run_ops log_step sample_ops (fresh_log ''p'') = (rs, lg)"
  shows "length (returned rs) = 1" "log_seq lg = 1" "log_closed lg"
proof -
  have "valid_utf8 ''p''" by (rule valid_utf8_ascii) simp
  note run = log_run(4) [OF this sample_ops_ok(1) assms]
  obtain r where spec: "run_ops log_spec sample_ops
      \<lparr>model_seq = 0, model_instance = ''p'', model_closed = False, model_records = []\<rparr>
    = ([Inr (Some r), Inr None, Inr None, Inl (RuntimeError ''logger is closed'')],
       \<lparr>model_seq = 1, model_instance = ''p'', model_closed = True, model_records = [r]\<rparr>)"
    by (simp add: sample_ops_def Let_def)
  have "rs = [Inr (Some r), Inr None, Inr None, Inl (RuntimeError ''logger is closed'')]"
    using run unfolding spec by blast
  then show "length (returned rs) = 1" by simp
  show "log_seq lg = 1" "log_closed lg"
    using run unfolding spec by (auto simp: log_abs_def)
qed

theorem log_round_trip_witness:
  "\<exists>rs lg. run_ops log_step sample_ops (fresh_log ''p'') = (rs, lg) \<and> length (returned rs) = 1
     \<and> read_events (log_file lg) = Inr (map PDict (returned rs))"
proof -
  obtain rs lg where r: "run_ops log_step sample_ops (fresh_log ''p'') = (rs, lg)" by fastforce
  have "valid_utf8 ''p''" by (rule valid_utf8_ascii) simp
  moreover have "length (returned rs) = 1" using r by (rule sample_run)
  ultimately show ?thesis using log_round_trip [OF _ sample_ops_ok r] r by blast
qed

text \<open>the log only grows. No operation on any events changes a byte already written, and a
  closed logger never writes again.\<close>

theorem log_grows:
  assumes "run_ops log_step ops lg = (rs, lg')"
  shows "prefix (log_file lg) (log_file lg') \<and> (log_closed lg \<longrightarrow> lg' = lg \<and> returned rs = [])"
  using assms
proof (induction ops arbitrary: lg rs)
  case (Cons op ops)
  then obtain r lg1 qs where st: "log_step op lg = (r, lg1)" "run_ops log_step ops lg1 = (qs, lg')"
    "rs = r # qs"
    by (auto simp: Let_def split: prod.splits)
  have "prefix (log_file lg) (log_file lg1) \<and> (log_closed lg \<longrightarrow> lg1 = lg \<and> returned [r] = [])"
    using st(1) by (cases op)
      (auto simp: append_event_def Let_def write_loop_all flush_def close_log_def split: if_split_asm)
  moreover have "returned (r # qs) = returned [r] @ returned qs"
    by (cases "[r]" rule: returned.cases) auto
  ultimately show ?case using Cons.IH [OF st(2)] st(3) by (auto intro: prefix_order.trans)
qed simp

theorem log_grows_witness:
  "\<exists>rs lg. run_ops log_step sample_ops \<lparr>log_seq = 3, log_instance = ''p'', log_closed = True, log_file = ''x''\<rparr>
     = (rs, lg) \<and> log_file lg = ''x''"
proof -
  let ?lg = "\<lparr>log_seq = 3, log_instance = ''p'', log_closed = True, log_file = ''x''\<rparr>"
  obtain rs lg where r: "run_ops log_step sample_ops ?lg = (rs, lg)" by fastforce
  from log_grows [OF r] r show ?thesis by simp
qed

text \<open>C10: opening the file of a logger again under the same instance identifier gives that
  logger, open, with its sequence number where it stood.\<close>

theorem log_resume:
  assumes "valid_utf8 inst" "list_all log_op_ok ops" "list_all plain_op ops"
    and "run_ops log_step ops (fresh_log inst) = (rs, lg)"
  shows "open_log inst (log_file lg) = Inr (lg\<lparr>log_closed := False\<rparr>)"
proof -
  note r = log_run [OF assms(1,2,4)]
  have m: "model_inv inst (log_abs lg)" using r(3) [OF assms(3)] .
  have read: "read_events (log_file lg) = Inr (map PDict (returned rs))"
    using log_inv_read [OF r(1)] r(2) by simp
  have i: "log_instance lg = inst" "log_seq lg = int (length (returned rs))"
    using m r(2) by (simp_all add: model_inv_def log_abs_def)
  show ?thesis
  proof (cases "returned rs = []")
    case True
    have "log_file lg = []"
    proof -
      obtain qs where q: "log_file lg = log_text qs" "\<forall>r \<in> set qs. json_ok (PDict r)"
        using r(1) by (auto simp: log_inv_def)
      then have "qs = []" using log_entries_text [OF q] r(2) True by simp
      with q show ?thesis by simp
    qed
    then show ?thesis using i True by (simp add: open_log_def)
  next
    case False
    let ?n = "length (returned rs) - 1"
    have n: "int ?n + 1 = int (length (returned rs))" using False by (cases "returned rs") simp_all
    have l: "last (returned rs) = returned rs ! ?n" using False by (rule last_conv_nth)
    have "dget (last (returned rs)) ''seq'' = Some (PInt (int (length (returned rs))))"
      "dget (last (returned rs)) ''proxy_instance_id'' = Some (PStr inst)"
      using m r(2) False n unfolding l by (auto simp: model_inv_def log_abs_def)
    then have s: "last_seq inst (map PDict (returned rs)) = Inr (log_seq lg)"
      using False i by (simp add: last_seq_def as_dict_def last_map)
    have "log_file lg \<noteq> []"
    proof
      assume "log_file lg = []"
      then have "read_events (log_file lg) = Inr []" using read_log_text [of "[]"] by simp
      with read False show False by simp
    qed
    then show ?thesis using i read s by (simp add: open_log_def Let_def)
  qed
qed

theorem log_resume_witness:
  "\<exists>rs lg. run_ops log_step sample_ops (fresh_log ''p'') = (rs, lg) \<and> log_seq lg = 1 \<and> log_closed lg
     \<and> open_log ''p'' (log_file lg) = Inr (lg\<lparr>log_closed := False\<rparr>)"
proof -
  obtain rs lg where r: "run_ops log_step sample_ops (fresh_log ''p'') = (rs, lg)" by fastforce
  have "valid_utf8 ''p''" by (rule valid_utf8_ascii) simp
  moreover have "log_seq lg = 1 \<and> log_closed lg" using sample_run [OF r] by blast
  ultimately show ?thesis using log_resume [OF _ sample_ops_ok r] r by blast
qed

text \<open>Resuming a file that no logger leaves behind: one of blank lines only is an uncaught
  \<open>IndexError\<close>; one whose last line was cut short restarts the sequence at 0.\<close>

lemma open_log_blank: "open_log ''p'' newline = Inl IndexError"
  by code_simp

lemma open_log_cut: "open_log ''p'' ''{''
    = Inr \<lparr>log_seq = 0, log_instance = ''p'', log_closed = False, log_file = ''{''\<rparr>"
  by code_simp

end
