(* ===== verification/Tokenization.thy ===== *)
theory Tokenization
  imports Event_Log
begin

section \<open>Local token estimates (\<open>proxy/tokenization.py\<close>)\<close>

text \<open>
  The cache of encodings, the failures and the flag that turns local estimates off. The tiktoken
  package is a parameter: what its two lookups do at a call (\<open>loader\<close>) and how many tokens an
  encoding makes of a text (\<open>toks\<close>). Facts: \<open>encoding_settled\<close> (a key is looked up at most once,
  and after the base encoding failed nothing is looked up), and what each estimate counts.
\<close>

text \<open>A lookup by model returns an encoding, raises \<open>KeyError\<close> (an unknown name) or fails with a
  text \<open>TypeName: message\<close>; a lookup by encoding name returns one or fails with such a text.\<close>

datatype 'enc lookup = Loaded 'enc | Unknown_Name | Load_Failed string

record 'enc loader =
  available :: bool
  for_model :: "string \<Rightarrow> 'enc lookup"
  get_encoding :: "string \<Rightarrow> string + 'enc"
  tiktoken_version :: "string option"

record 'enc tok_state =
  encodings :: "'enc dict"
  failures :: "string dict"
  disabled :: bool

definition BASE :: string where
  "BASE = ''cl100k_base''"

definition initial_tok :: "'enc loader \<Rightarrow> 'enc tok_state" where
  "initial_tok ld = \<lparr>encodings = [], failures = [], disabled = \<not> available ld\<rparr>"

definition model_key :: "string option \<Rightarrow> string" where
  "model_key model = (case model of None \<Rightarrow> BASE | Some m \<Rightarrow> if m = [] then BASE else m)"

definition load :: "'enc loader \<Rightarrow> string \<Rightarrow> string + 'enc" where
  "load ld key =
     (case for_model ld key of
        Loaded e \<Rightarrow> Inr e
      | Load_Failed msg \<Rightarrow> Inl msg
      | Unknown_Name \<Rightarrow> get_encoding ld BASE)"

definition encoding_for ::
  "'enc loader \<Rightarrow> string option \<Rightarrow> 'enc tok_state \<Rightarrow> 'enc option \<times> 'enc tok_state" where
  "encoding_for ld model st =
     (let key = model_key model in
      if disabled st then (None, st)
      else case dget (encodings st) key of
        Some e \<Rightarrow> (Some e, st)
      | None \<Rightarrow>
          if dhas (failures st) key then (None, st)
          else (case load ld key of
              Inl msg \<Rightarrow>
                (None, st\<lparr>failures := dset key (py_take 200 msg) (failures st),
                          disabled := (key = BASE \<or> encodings st = [])\<rparr>)
            | Inr e \<Rightarrow> (Some e, st\<lparr>encodings := dset key e (encodings st)\<rparr>)))"

definition tokenizer_status :: "'enc loader \<Rightarrow> 'enc tok_state \<Rightarrow> pyval dict \<times> 'enc tok_state" where
  "tokenizer_status ld st =
     (let (enc, st1) = encoding_for ld (Some BASE) st in
      ([(''tiktoken_version'', if available ld then opt_str (tiktoken_version ld) else PNone),
        (''local_estimates_available'', PBool (enc \<noteq> None)),
        (''disabled'', PBool (disabled st1)),
        (''loaded_encodings'', PList (map PStr (sort (dkeys (encodings st1))))),
        (''failures'', PDict (map (\<lambda>(k, m). (k, PStr m)) (failures st1)))], st1))"

fun load_all :: "'enc loader \<Rightarrow> string list \<Rightarrow> 'enc tok_state \<Rightarrow> 'enc tok_state" where
  "load_all ld [] st = st"
| "load_all ld (m # ms) st = load_all ld ms (snd (encoding_for ld (Some m) st))"

definition DEFAULT_PRELOAD :: "string list" where
  "DEFAULT_PRELOAD = [''cl100k_base'', ''gpt-4o-mini'', ''gpt-4o'', ''text-embedding-3-small'',
     ''text-embedding-3-large'']"

definition preload :: "'enc loader \<Rightarrow> string list \<Rightarrow> 'enc tok_state \<Rightarrow> pyval dict \<times> 'enc tok_state" where
  "preload ld models st =
     (let st1 = snd (encoding_for ld (Some BASE) st);
          st2 = (if disabled st1 then st1 else load_all ld models st1)
      in tokenizer_status ld st2)"

subsection \<open>Counting\<close>

definition TOKENS_PER_MESSAGE :: nat where "TOKENS_PER_MESSAGE = 3"

definition TOKENS_PER_NAME :: nat where "TOKENS_PER_NAME = 1"

definition REPLY_PRIMING :: nat where "REPLY_PRIMING = 3"

definition count_text_tokens ::
  "'enc loader \<Rightarrow> ('enc \<Rightarrow> string \<Rightarrow> nat) \<Rightarrow> string option \<Rightarrow> string option \<Rightarrow> 'enc tok_state
    \<Rightarrow> nat option \<times> 'enc tok_state" where
  "count_text_tokens ld toks text model st =
     (case text of None \<Rightarrow> (None, st)
      | Some t \<Rightarrow> (case encoding_for ld model st of
            (None, st1) \<Rightarrow> (None, st1) | (Some e, st1) \<Rightarrow> (Some (toks e t), st1)))"

definition part_tokens :: "(string \<Rightarrow> nat) \<Rightarrow> pyval \<Rightarrow> nat" where
  "part_tokens n part =
     (case part of PDict d \<Rightarrow> (case dget d ''text'' of Some (PStr t) \<Rightarrow> n t | _ \<Rightarrow> 0) | _ \<Rightarrow> 0)"

definition value_tokens :: "(string \<Rightarrow> nat) \<Rightarrow> pyval \<Rightarrow> nat" where
  "value_tokens n v =
     (case v of PStr t \<Rightarrow> n t | PList parts \<Rightarrow> sum_list (map (part_tokens n) parts) | _ \<Rightarrow> 0)"

definition message_tokens :: "(string \<Rightarrow> nat) \<Rightarrow> pyval \<Rightarrow> nat" where
  "message_tokens n msg =
     (case msg of
        PDict d \<Rightarrow> TOKENS_PER_MESSAGE + sum_list (map (\<lambda>(key, v). value_tokens n v
            + (if key = ''name'' then TOKENS_PER_NAME else 0)) d)
      | _ \<Rightarrow> 0)"

definition count_chat_prompt_tokens ::
  "'enc loader \<Rightarrow> ('enc \<Rightarrow> string \<Rightarrow> nat) \<Rightarrow> pyval \<Rightarrow> string option \<Rightarrow> 'enc tok_state
    \<Rightarrow> nat option \<times> 'enc tok_state" where
  "count_chat_prompt_tokens ld toks messages model st =
     (case encoding_for ld model st of
        (None, st1) \<Rightarrow> (None, st1)
      | (Some e, st1) \<Rightarrow>
          (case messages of
             PList ms \<Rightarrow> (Some (sum_list (map (message_tokens (toks e)) ms) + REPLY_PRIMING), st1)
           | _ \<Rightarrow> (None, st1)))"

fun count_items ::
  "'enc loader \<Rightarrow> ('enc \<Rightarrow> string \<Rightarrow> nat) \<Rightarrow> string option \<Rightarrow> nat \<Rightarrow> pyval list \<Rightarrow> 'enc tok_state
    \<Rightarrow> nat option \<times> 'enc tok_state" where
  "count_items ld toks model acc [] st = (Some acc, st)"
| "count_items ld toks model acc (item # items) st =
     (case item of
        PStr t \<Rightarrow> (case count_text_tokens ld toks (Some t) model st of
            (None, st1) \<Rightarrow> (None, st1)
          | (Some n, st1) \<Rightarrow> count_items ld toks model (acc + n) items st1)
      | PList xs \<Rightarrow> if list_all is_int xs then count_items ld toks model (acc + length xs) items st
                   else (None, st)
      | _ \<Rightarrow> (None, st))"

definition count_embedding_input_tokens ::
  "'enc loader \<Rightarrow> ('enc \<Rightarrow> string \<Rightarrow> nat) \<Rightarrow> pyval \<Rightarrow> string option \<Rightarrow> 'enc tok_state
    \<Rightarrow> nat option \<times> 'enc tok_state" where
  "count_embedding_input_tokens ld toks inp model st =
     (case inp of
        PStr t \<Rightarrow> count_text_tokens ld toks (Some t) model st
      | PList xs \<Rightarrow> if list_all is_int xs then (Some (length xs), st)
                   else count_items ld toks model 0 xs st
      | _ \<Rightarrow> (None, st))"

definition embedding_input_count :: "pyval \<Rightarrow> nat option" where
  "embedding_input_count inp =
     (case inp of
        PStr t \<Rightarrow> Some 1
      | PList xs \<Rightarrow> Some (if xs \<noteq> [] \<and> list_all is_int xs then 1 else length xs)
      | _ \<Rightarrow> None)"

subsection \<open>The cache\<close>

text \<open>A key is settled once its encoding is cached, its lookup has failed, or estimates are off.\<close>

definition key_settled :: "'enc tok_state \<Rightarrow> string \<Rightarrow> bool" where
  "key_settled st key \<longleftrightarrow> disabled st \<or> dhas (encodings st) key \<or> dhas (failures st) key"

definition tok_inv :: "'enc tok_state \<Rightarrow> bool" where
  "tok_inv st \<longleftrightarrow> dict_ok (encodings st) \<and> dict_ok (failures st) \<and>
     (\<forall>k. dhas (encodings st) k \<longrightarrow> \<not> dhas (failures st) k) \<and>
     (dhas (failures st) BASE \<longrightarrow> disabled st)"

lemma dhas_dset [simp]: "dhas (dset k v d) k' \<longleftrightarrow> k = k' \<or> dhas d k'"
  by (simp add: dhas_def)

lemma dhas_None: "dget d k = None \<longleftrightarrow> \<not> dhas d k"
  by (simp add: dhas_def)

lemma encoding_settled:
  "key_settled st (model_key model) \<Longrightarrow>
   encoding_for ld model st
     = (if disabled st then None else dget (encodings st) (model_key model), st)"
  by (auto simp: encoding_for_def Let_def key_settled_def dhas_def split: option.splits)

lemma encoding_for_cases:
  assumes "encoding_for ld model st = (r, st')"
  obtains (Same) "st' = st"
  | (Fail) msg where "\<not> disabled st" "\<not> dhas (encodings st) (model_key model)"
      "\<not> dhas (failures st) (model_key model)"
      "st' = st\<lparr>failures := dset (model_key model) msg (failures st),
                disabled := (model_key model = BASE \<or> encodings st = [])\<rparr>"
  | (Load) e where "\<not> disabled st" "\<not> dhas (encodings st) (model_key model)"
      "\<not> dhas (failures st) (model_key model)"
      "st' = st\<lparr>encodings := dset (model_key model) e (encodings st)\<rparr>"
proof (cases "key_settled st (model_key model)")
  case True
  with assms have "st' = st" by (simp add: encoding_settled)
  then show thesis by (rule Same)
next
  case False
  then have n: "\<not> disabled st" "\<not> dhas (encodings st) (model_key model)"
    "\<not> dhas (failures st) (model_key model)" by (simp_all add: key_settled_def)
  show thesis
  proof (cases "load ld (model_key model)")
    case (Inl msg)
    with assms n show ?thesis by (intro Fail) (auto simp: encoding_for_def Let_def dhas_def)
  next
    case (Inr e)
    with assms n show ?thesis by (intro Load) (auto simp: encoding_for_def Let_def dhas_def)
  qed
qed

lemma encoding_for_inv: "tok_inv st \<Longrightarrow> tok_inv (snd (encoding_for ld model st))"
proof -
  assume i: "tok_inv st"
  obtain r st' where e: "encoding_for ld model st = (r, st')" by fastforce
  then have "tok_inv st'"
  proof (cases rule: encoding_for_cases)
    case (Fail msg)
    then show ?thesis using i by (fastforce simp: tok_inv_def)
  next
    case (Load e)
    then show ?thesis using i by (auto simp: tok_inv_def)
  qed (simp add: i)
  then show ?thesis by (simp add: e)
qed

lemma encoding_for_settles: "key_settled (snd (encoding_for ld model st)) (model_key model)"
  by (auto simp: encoding_for_def Let_def key_settled_def dhas_def split: option.splits sum.splits)

lemma settled_mono:
  "key_settled st key \<Longrightarrow> key_settled (snd (encoding_for ld model st)) key"
  by (auto simp: encoding_for_def Let_def key_settled_def dhas_def split: option.splits sum.splits)

lemma load_all_settled: "key_settled st key \<Longrightarrow> key_settled (load_all ld ms st) key"
  by (induction ms arbitrary: st) (auto intro: settled_mono)

lemma load_all_inv: "tok_inv st \<Longrightarrow> tok_inv (load_all ld ms st)"
  by (induction ms arbitrary: st) (auto intro: encoding_for_inv)

lemma load_all_settles: "m \<in> set ms \<Longrightarrow> key_settled (load_all ld ms st) m \<or> m = []"
proof (induction ms arbitrary: st)
  case (Cons a ms)
  show ?case
  proof (cases "m = a \<and> m \<noteq> []")
    case True
    then have "key_settled (snd (encoding_for ld (Some a) st)) m"
      using encoding_for_settles [of ld "Some a" st] by (simp add: model_key_def split: if_split_asm)
    then show ?thesis by (simp add: load_all_settled)
  qed (use Cons in auto)
qed simp

subsection \<open>What the estimates count\<close>

text \<open>The total of a list of embedding inputs, when every item has one.\<close>

definition item_tokens :: "(string \<Rightarrow> nat) \<Rightarrow> pyval \<Rightarrow> nat option" where
  "item_tokens n item = (case item of PStr t \<Rightarrow> Some (n t)
     | PList xs \<Rightarrow> if list_all is_int xs then Some (length xs) else None | _ \<Rightarrow> None)"

lemma count_items_settled:
  assumes "key_settled st (model_key model)" "fst (encoding_for ld model st) = Some e"
  shows "count_items ld toks model acc items st =
    ((if list_all (\<lambda>i. item_tokens (toks e) i \<noteq> None) items
      then Some (acc + sum_list (map (\<lambda>i. the (item_tokens (toks e) i)) items)) else None), st)"
proof (induction items arbitrary: acc)
  case (Cons i items)
  have "count_text_tokens ld toks (Some t) model st = (Some (toks e t), st)" for t
    using assms by (simp add: count_text_tokens_def encoding_settled split: if_split_asm)
  then show ?case using Cons by (cases i) (auto simp: item_tokens_def)
qed simp

text \<open>a name is looked up at most once. After any call for a model its cached answer no longer
  depends on what the package would do, further calls leave the cache alone, and after the base
  encoding failed to load every estimate is \<open>None\<close>.\<close>

theorem encoding_cached:
  assumes "tok_inv st" "encoding_for ld model st = (enc, st1)"
  shows "tok_inv st1 \<and> encoding_for ld' model st1 = (if disabled st1 then None else enc, st1)
     \<and> (dhas (failures st1) BASE \<longrightarrow> count_text_tokens ld' toks text model' st1 = (None, st1))"
proof -
  have inv: "tok_inv st1" using encoding_for_inv [OF assms(1), of ld model] assms(2) by simp
  have s: "key_settled st1 (model_key model)" using encoding_for_settles [of ld model st] assms(2) by simp
  have "enc = None \<or> dget (encodings st1) (model_key model) = enc"
    using assms(2) by (auto simp: encoding_for_def Let_def split: if_split_asm option.splits sum.splits)
  moreover have "enc = None \<longrightarrow> disabled st1 \<or> dget (encodings st1) (model_key model) = None"
    using assms(2) by (auto simp: encoding_for_def Let_def split: if_split_asm option.splits sum.splits)
  ultimately have "encoding_for ld' model st1 = (if disabled st1 then None else enc, st1)"
    using encoding_settled [OF s] by auto
  moreover have "count_text_tokens ld' toks text model' st1 = (None, st1)" if "dhas (failures st1) BASE"
    using that inv by (auto simp: tok_inv_def count_text_tokens_def encoding_for_def split: option.splits)
  ultimately show ?thesis using inv by blast
qed

definition byte_loader :: "string loader" where
  "byte_loader = \<lparr>available = True, for_model = (\<lambda>_. Unknown_Name),
     get_encoding = (\<lambda>n. Inr n), tiktoken_version = Some ''0''\<rparr>"

definition offline :: "string loader" where
  "offline = \<lparr>available = True, for_model = (\<lambda>_. Load_Failed ''ConnectionError: offline''),
     get_encoding = (\<lambda>_. Inl ''ConnectionError: offline''), tiktoken_version = None\<rparr>"

theorem encoding_cached_witness:
  "\<exists>st1. encoding_for offline None (initial_tok offline) = (None, st1) \<and> disabled st1 \<and>
     count_text_tokens byte_loader (\<lambda>_. length) (Some ''hello'') (Some ''gpt-4o'') st1 = (None, st1)"
proof -
  obtain st1 where e: "encoding_for offline None (initial_tok offline) = (None, st1)"
    and f: "dhas (failures st1) BASE" "disabled st1"
    by (auto simp: encoding_for_def Let_def initial_tok_def offline_def model_key_def load_def dhas_def)
  have "tok_inv (initial_tok offline)" by (simp add: tok_inv_def initial_tok_def dhas_def)
  from encoding_cached [OF this e] e f show ?thesis by blast
qed

text \<open>the estimate for a list of embedding inputs is, on every branch, the sum over its items of
  the tokens of a text and the length of a token list; any other item makes it \<open>None\<close>.\<close>

theorem embedding_estimate:
  assumes "key_settled st (model_key model)" "fst (encoding_for ld model st) = Some e"
  shows "count_embedding_input_tokens ld toks (PList xs) model st =
    ((if list_all is_int xs then Some (length xs)
      else if list_all (\<lambda>i. item_tokens (toks e) i \<noteq> None) xs
      then Some (sum_list (map (\<lambda>i. the (item_tokens (toks e) i)) xs)) else None), st)"
  using count_items_settled [OF assms, of toks 0 xs]
  by (simp add: count_embedding_input_tokens_def)

theorem embedding_estimate_witness:
  "count_embedding_input_tokens byte_loader (\<lambda>_. length) (PList [PStr ''abc'', PList [PInt 1, PInt 2]])
     None (snd (encoding_for byte_loader None (initial_tok byte_loader)))
   = (Some 5, snd (encoding_for byte_loader None (initial_tok byte_loader)))"
proof -
  let ?st = "snd (encoding_for byte_loader None (initial_tok byte_loader))"
  have st: "?st = \<lparr>encodings = [(BASE, BASE)], failures = [], disabled = False\<rparr>"
    by (simp add: encoding_for_def byte_loader_def initial_tok_def model_key_def load_def dhas_def)
  have s: "key_settled ?st (model_key None)" by (rule encoding_for_settles)
  have "fst (encoding_for byte_loader None ?st) = Some BASE"
    unfolding st by (simp add: encoding_for_def model_key_def)
  from embedding_estimate [OF s this, of "\<lambda>_. length" "[PStr ''abc'', PList [PInt 1, PInt 2]]"]
  show ?thesis by (simp add: item_tokens_def is_int_def)
qed

text \<open>the chat estimate is additive. With the encoding at hand, the estimate for two
  conversations in one is the sum of the two less one reply priming, and entries that are not
  objects add nothing.\<close>

theorem chat_estimate_append:
  assumes "encoding_for ld model st = (Some e, st)"
    and "count_chat_prompt_tokens ld toks (PList xs) model st = (Some m, st)"
    and "count_chat_prompt_tokens ld toks (PList ys) model st = (Some n, st)"
  shows "count_chat_prompt_tokens ld toks (PList (xs @ ys)) model st = (Some (m + n - REPLY_PRIMING), st)
     \<and> count_chat_prompt_tokens ld toks (PList (filter is_dict xs)) model st = (Some m, st)"
proof -
  have "sum_list (map (message_tokens k) (filter is_dict xs)) = sum_list (map (message_tokens k) xs)" for k
    by (induction xs) (auto simp: message_tokens_def is_dict_def split: pyval.splits)
  then show ?thesis using assms by (auto simp: count_chat_prompt_tokens_def REPLY_PRIMING_def)
qed

theorem chat_estimate_append_witness:
  "count_chat_prompt_tokens byte_loader (\<lambda>_. length) (PList ([PDict [(''content'', PStr ''abcd'')]] @ [PNone]))
     None \<lparr>encodings = [(BASE, BASE)], failures = [], disabled = False\<rparr>
   = (Some 10, \<lparr>encodings = [(BASE, BASE)], failures = [], disabled = False\<rparr>)"
proof -
  let ?st = "\<lparr>encodings = [(BASE, BASE)], failures = [], disabled = False\<rparr>"
  have e: "encoding_for byte_loader None ?st = (Some BASE, ?st)"
    by (simp add: encoding_for_def model_key_def)
  have m: "count_chat_prompt_tokens byte_loader (\<lambda>_. length) (PList [PDict [(''content'', PStr ''abcd'')]])
      None ?st = (Some 10, ?st)"
    and n: "count_chat_prompt_tokens byte_loader (\<lambda>_. length) (PList [PNone]) None ?st = (Some 3, ?st)"
    by (simp_all add: count_chat_prompt_tokens_def e message_tokens_def value_tokens_def
        TOKENS_PER_MESSAGE_def REPLY_PRIMING_def)
  from chat_estimate_append [OF e m n] show ?thesis by (simp add: REPLY_PRIMING_def)
qed

end
