(* ===== verification/Model_Call.thy ===== *)
theory Model_Call
  imports Tokenization
begin

section \<open>The record of one model call (\<open>proxy/app.py\<close>, \<open>CallRecord\<close>)\<close>

text \<open>
  The accumulator a request fills in, its timing marks, its failure mark, and the \<open>MODEL_CALL\<close>
  event it becomes. Clock readings and time stamps are inputs (\<open>clock\<close>); a duration is an exact
  rational rounded half to even at the third decimal, with the decimal text Python prints for it.
  Facts: \<open>log_call_once\<close> (the event is appended at most once, and by the first call of \<open>log\<close>),
  \<open>event_durations\<close> (no duration is negative when the clock does not go back).
\<close>

record clock =
  ck_start :: rat
  ck_upstream_start :: rat
  ck_first_byte :: rat
  ck_upstream_end :: rat
  ck_done :: rat
  ck_stamp_start :: string
  ck_stamp_end :: string
  ck_stamp_log :: string
  ck_accept :: "string \<Rightarrow> nat"

record http_request =
  rq_id :: string
  rq_method :: string
  rq_headers :: headers
  rq_body :: string

record call_record =
  cr_request_id :: string
  cr_t0 :: rat
  cr_timestamp_start :: string
  cr_method :: string
  cr_path :: string
  cr_upstream_path :: string
  cr_endpoint :: string
  cr_attribution :: attribution
  cr_model :: "string option"
  cr_upstream_model :: "string option"
  cr_stream :: bool
  cr_usage :: "pyval dict"
  cr_usage_source :: string
  cr_prompt_tokens_local :: "nat option"
  cr_completion_tokens_local :: "nat option"
  cr_embedding_inputs :: "nat option"
  cr_embedding_dimensions :: "nat option"
  cr_embedding_vectors :: "nat option"
  cr_status :: string
  cr_http_status :: "int option"
  cr_upstream_http_status :: "int option"
  cr_error_type :: "string option"
  cr_error_message :: pyval
  cr_finish_reason :: pyval
  cr_request_bytes :: nat
  cr_response_bytes :: nat
  cr_request_sha256 :: "string option"
  cr_request_params :: "pyval dict"
  cr_request_modifications :: "string list"
  cr_upstream_request_id :: "string option"
  cr_upstream_started :: "rat option"
  cr_upstream_finished :: "rat option"
  cr_first_byte :: "rat option"
  cr_client_user_agent :: "string option"
  cr_logged :: bool
  cr_t_end :: "rat option"
  cr_timestamp_end :: "string option"
  cr_local_messages :: pyval
  cr_local_embedding_input :: pyval
  cr_local_completion_text :: "string option"

definition rstrip_slash :: "string \<Rightarrow> string" where
  "rstrip_slash = rstrip_while (\<lambda>c. c = CHR ''/'')"

definition endpoint_kind :: "string \<Rightarrow> string \<Rightarrow> string" where
  "endpoint_kind api_path method =
     (let p = rstrip_slash api_path in
      if p = ''/v1/chat/completions'' \<and> method = ''POST'' then ''chat''
      else if p = ''/v1/embeddings'' \<and> method = ''POST'' then ''embeddings''
      else if p = ''/v1/responses'' \<and> method = ''POST'' then ''responses''
      else if (p = ''/v1/models'' \<or> starts_with ''/v1/models/'' p) \<and> method = ''GET'' then ''models''
      else ''unsupported'')"

definition new_record :: "clock \<Rightarrow> http_request \<Rightarrow> string \<Rightarrow> call_record" where
  "new_record ck rq api_path =
     \<lparr>cr_request_id = rq_id rq, cr_t0 = ck_start ck, cr_timestamp_start = ck_stamp_start ck,
      cr_method = rq_method rq, cr_path = api_path,
      cr_upstream_path = (if starts_with ''/v1/'' api_path then drop 3 api_path else api_path),
      cr_endpoint = endpoint_kind api_path (rq_method rq), cr_attribution = no_attribution,
      cr_model = None, cr_upstream_model = None, cr_stream = False, cr_usage = [],
      cr_usage_source = ''none'', cr_prompt_tokens_local = None, cr_completion_tokens_local = None,
      cr_embedding_inputs = None, cr_embedding_dimensions = None, cr_embedding_vectors = None,
      cr_status = ''error'', cr_http_status = None, cr_upstream_http_status = None,
      cr_error_type = None, cr_error_message = PNone, cr_finish_reason = PNone,
      cr_request_bytes = 0, cr_response_bytes = 0, cr_request_sha256 = None, cr_request_params = [],
      cr_request_modifications = [], cr_upstream_request_id = None, cr_upstream_started = None,
      cr_upstream_finished = None, cr_first_byte = None,
      cr_client_user_agent = rq_headers rq ''user-agent'', cr_logged = False, cr_t_end = None,
      cr_timestamp_end = None, cr_local_messages = PNone, cr_local_embedding_input = PNone,
      cr_local_completion_text = None\<rparr>"

subsection \<open>Marks\<close>

definition mark_upstream_start :: "clock \<Rightarrow> call_record \<Rightarrow> call_record" where
  "mark_upstream_start ck r = r\<lparr>cr_upstream_started := Some (ck_upstream_start ck)\<rparr>"

definition mark_first_byte :: "clock \<Rightarrow> call_record \<Rightarrow> call_record" where
  "mark_first_byte ck r =
     (if cr_first_byte r = None then r\<lparr>cr_first_byte := Some (ck_first_byte ck)\<rparr> else r)"

definition mark_upstream_end :: "clock \<Rightarrow> call_record \<Rightarrow> call_record" where
  "mark_upstream_end ck r = r\<lparr>cr_upstream_finished := Some (ck_upstream_end ck)\<rparr>"

definition mark_done :: "clock \<Rightarrow> call_record \<Rightarrow> call_record" where
  "mark_done ck r =
     (if cr_t_end r = None
      then r\<lparr>cr_t_end := Some (ck_done ck), cr_timestamp_end := Some (ck_stamp_end ck)\<rparr> else r)"

text \<open>\<open>(message or "")[:2000]\<close>: a text or a list is cut, another JSON value that is not falsy has
  no slices.\<close>

definition ERROR_MESSAGE_LIMIT :: nat where
  "ERROR_MESSAGE_LIMIT = 2000"

definition slice_message :: "pyval \<Rightarrow> pyval raises" where
  "slice_message message =
     (if \<not> truthy message then Inr (PStr [])
      else (case message of
          PStr s \<Rightarrow> Inr (PStr (py_take ERROR_MESSAGE_LIMIT s))
        | PList xs \<Rightarrow> Inr (PList (take ERROR_MESSAGE_LIMIT xs))
        | _ \<Rightarrow> Inl TypeError))"

definition fail_call :: "int \<Rightarrow> string \<Rightarrow> pyval \<Rightarrow> call_record \<Rightarrow> call_record raises" where
  "fail_call http_status error_type message r =
     bindE (slice_message message) (\<lambda>m.
       Inr (r\<lparr>cr_status := ''error'', cr_http_status := Some http_status,
              cr_error_type := Some error_type, cr_error_message := m\<rparr>))"

text \<open>The failures the proxy reports itself carry a text, which always has slices.\<close>

definition fail_text :: "int \<Rightarrow> string \<Rightarrow> string \<Rightarrow> call_record \<Rightarrow> call_record" where
  "fail_text http_status error_type message r =
     r\<lparr>cr_status := ''error'', cr_http_status := Some http_status, cr_error_type := Some error_type,
       cr_error_message := PStr (py_take ERROR_MESSAGE_LIMIT message)\<rparr>"

lemma py_take_Nil [simp]: "py_take n [] = []"
  by (cases n) simp_all

lemma fail_call_text: "fail_call st ty (PStr m) r = Inr (fail_text st ty m r)"
  by (simp add: fail_call_def slice_message_def fail_text_def)

subsection \<open>Durations\<close>

definition round_half_even :: "rat \<Rightarrow> int" where
  "round_half_even q =
     (let f = \<lfloor>q\<rfloor>; d = q - of_int f in
      if d < 1 / 2 then f else if d > 1 / 2 then f + 1 else if even f then f else f + 1)"

definition pad3 :: "nat \<Rightarrow> string" where
  "pad3 n = [digit_char (n div 100 mod 10), digit_char (n div 10 mod 10), digit_char (n mod 10)]"

text \<open>The text of \<open>n / 1000\<close>: trailing zeros dropped, one decimal kept.\<close>

definition milli_text :: "int \<Rightarrow> string" where
  "milli_text n =
     (let m = nat (abs n); frac = rstrip_while (\<lambda>c. c = CHR ''0'') (pad3 (m mod 1000)) in
      (if n < 0 then ''-'' else []) @ nat_text (m div 1000) @ ''.'' @
      (if frac = [] then ''0'' else frac))"

definition milli :: "int \<Rightarrow> pyval" where
  "milli n = PFloat (Finite (of_int n / 1000) (milli_text n))"

definition ms :: "rat option \<Rightarrow> rat option \<Rightarrow> pyval" where
  "ms a b = (case (a, b) of (Some x, Some y) \<Rightarrow> milli (round_half_even ((y - x) * 1000000)) | _ \<Rightarrow> PNone)"

subsection \<open>The event\<close>

definition EVENT_SCHEMA_VERSION :: int where
  "EVENT_SCHEMA_VERSION = 1"

definition opt_nat :: "nat option \<Rightarrow> pyval" where
  "opt_nat x = (case x of None \<Rightarrow> PNone | Some n \<Rightarrow> PInt (int n))"

definition strs :: "string list \<Rightarrow> pyval" where
  "strs xs = PList (map PStr xs)"

definition usage_details :: "pyval dict \<Rightarrow> pyval" where
  "usage_details u =
     (let d = filter (\<lambda>(k, _). k \<notin> {''prompt_tokens'', ''completion_tokens'', ''total_tokens''}) u in
      if d = [] then PNone else PDict d)"

definition event_head :: "call_record \<Rightarrow> pyval dict" where
  "event_head r =
     [(''event_type'', PStr ''MODEL_CALL''), (''schema_version'', PInt EVENT_SCHEMA_VERSION),
      (''request_id'', PStr (cr_request_id r)),
      (''timestamp_start'', PStr (cr_timestamp_start r)),
      (''timestamp_end'', opt_str (cr_timestamp_end r)),
      (''duration_ms'', ms (Some (cr_t0 r)) (cr_t_end r)),
      (''upstream_duration_ms'', ms (cr_upstream_started r) (cr_upstream_finished r)),
      (''time_to_first_byte_ms'', ms (cr_upstream_started r) (cr_first_byte r)),
      (''endpoint'', PStr (cr_endpoint r)), (''method'', PStr (cr_method r)), (''path'', PStr (cr_path r))]"

definition event_attribution :: "attribution \<Rightarrow> pyval dict" where
  "event_attribution a =
     map (\<lambda>k. (k, vget (att_tags a) k))
       [''system'', ''configuration'', ''seed'', ''session_id'', ''operation'', ''run_id'', ''client_id''] @
     [(''attribution_sources'', PDict (map (\<lambda>(k, s). (k, PStr s)) (att_sources a))),
      (''scope_ids'', strs (att_scope_ids a)), (''scope_state'', PStr (att_scope_state a)),
      (''ambiguous_fields'', strs (att_ambiguous a)), (''unattributed'', PBool (unattributed a))]"

definition event_usage :: "call_record \<Rightarrow> pyval dict" where
  "event_usage r =
     [(''model'', opt_str (cr_model r)), (''upstream_model'', opt_str (cr_upstream_model r)),
      (''stream'', PBool (cr_stream r)),
      (''prompt_tokens'', vget (cr_usage r) ''prompt_tokens''),
      (''completion_tokens'', vget (cr_usage r) ''completion_tokens''),
      (''total_tokens'', vget (cr_usage r) ''total_tokens''),
      (''usage_details'', usage_details (cr_usage r)), (''usage_source'', PStr (cr_usage_source r)),
      (''prompt_tokens_local'', opt_nat (cr_prompt_tokens_local r)),
      (''completion_tokens_local'', opt_nat (cr_completion_tokens_local r)),
      (''embedding_inputs'', opt_nat (cr_embedding_inputs r)),
      (''embedding_vectors'', opt_nat (cr_embedding_vectors r)),
      (''embedding_dimensions'', opt_nat (cr_embedding_dimensions r))]"

definition event_outcome :: "call_record \<Rightarrow> pyval dict" where
  "event_outcome r =
     [(''status'', PStr (cr_status r)), (''http_status'', opt_int (cr_http_status r)),
      (''upstream_http_status'', opt_int (cr_upstream_http_status r)),
      (''error_type'', opt_str (cr_error_type r)), (''error_message'', cr_error_message r),
      (''finish_reason'', cr_finish_reason r),
      (''request_bytes'', PInt (int (cr_request_bytes r))),
      (''response_bytes'', PInt (int (cr_response_bytes r))),
      (''request_sha256'', opt_str (cr_request_sha256 r)),
      (''request_params'', PDict (cr_request_params r)),
      (''request_modifications'', strs (cr_request_modifications r)),
      (''upstream_request_id'', opt_str (cr_upstream_request_id r)),
      (''client_user_agent'', opt_str (cr_client_user_agent r))]"

definition call_event :: "call_record \<Rightarrow> pyval dict" where
  "call_event r = event_head r @ event_attribution (cr_attribution r) @ event_usage r @ event_outcome r"

definition event :: "clock \<Rightarrow> call_record \<Rightarrow> call_record \<times> pyval dict" where
  "event ck r =
     (let r1 = mark_done ck r in
      (r1, call_event r1))"

subsection \<open>The proxy's state\<close>

record settings =
  allowed_systems :: "string list"
  require_attribution :: bool
  force_stream_usage :: bool
  upstream_api_key :: "string option"

record 'enc proxy =
  px_settings :: settings
  px_log :: logger
  px_registry :: registry
  px_bodies :: "logger option"
  px_tok :: "'enc tok_state"

text \<open>What the code takes from elsewhere: the tokenizer, the SHA-256 digest and the machine's
  addition of floats.\<close>

record 'enc packages =
  pk_loader :: "'enc loader"
  pk_tokens :: "'enc \<Rightarrow> string \<Rightarrow> nat"
  pk_sha256 :: "string \<Rightarrow> string"
  pk_fadd :: "pyfloat \<Rightarrow> pyfloat \<Rightarrow> pyfloat"

subsection \<open>log\<close>

definition local_prompt :: "'enc packages \<Rightarrow> call_record \<Rightarrow> 'enc tok_state \<Rightarrow> call_record \<times> 'enc tok_state" where
  "local_prompt pk r tk =
     (if cr_local_messages r = PNone then (r, tk)
      else let (n, tk1) = count_chat_prompt_tokens (pk_loader pk) (pk_tokens pk) (cr_local_messages r) (cr_model r) tk
        in (r\<lparr>cr_prompt_tokens_local := n\<rparr>, tk1))"

definition local_embedding :: "'enc packages \<Rightarrow> call_record \<Rightarrow> 'enc tok_state \<Rightarrow> call_record \<times> 'enc tok_state" where
  "local_embedding pk r tk =
     (if cr_local_embedding_input r = PNone then (r, tk)
      else let (n, tk1) = count_embedding_input_tokens (pk_loader pk) (pk_tokens pk)
                 (cr_local_embedding_input r) (cr_model r) tk
        in (r\<lparr>cr_prompt_tokens_local := n\<rparr>, tk1))"

definition local_completion :: "'enc packages \<Rightarrow> call_record \<Rightarrow> 'enc tok_state \<Rightarrow> call_record \<times> 'enc tok_state" where
  "local_completion pk r tk =
     (case cr_local_completion_text r of
        None \<Rightarrow> (r, tk)
      | Some t \<Rightarrow>
          let (n, tk1) = count_text_tokens (pk_loader pk) (pk_tokens pk) (Some t) (cr_model r) tk
          in (r\<lparr>cr_completion_tokens_local := n\<rparr>, tk1))"

definition log_call ::
  "'enc packages \<Rightarrow> clock \<Rightarrow> call_record \<Rightarrow> 'enc proxy \<Rightarrow> unit raises \<times> call_record \<times> 'enc proxy" where
  "log_call pk ck r px =
     (if cr_logged r then (Inr (), r, px)
      else
        let r1 = mark_done ck (r\<lparr>cr_logged := True\<rparr>);
            (r2, tk2) = local_prompt pk r1 (px_tok px);
            (r3, tk3) = local_embedding pk r2 tk2;
            (r4, tk4) = local_completion pk r3 tk3;
            (r5, ev) = event ck r4;
            (res, lg) = append_event (ck_stamp_log ck) (ck_accept ck) ev (px_log px)
        in (map_sum id (\<lambda>_. ()) res, r5, px\<lparr>px_log := lg, px_tok := tk4\<rparr>))"

subsection \<open>What log appends\<close>

text \<open>The record as it stands when its event is written: the end marked, the local estimates
  filled in. Every other field is the one the handler left.\<close>

definition estimates_only :: "call_record \<Rightarrow> call_record \<Rightarrow> bool" where
  "estimates_only r r' \<longleftrightarrow> (\<exists>p c. r' = r\<lparr>cr_prompt_tokens_local := p, cr_completion_tokens_local := c\<rparr>)"

lemma estimates_refl [simp]: "estimates_only r r"
  unfolding estimates_only_def by (rule exI [of _ "cr_prompt_tokens_local r"], rule exI [of _ "cr_completion_tokens_local r"]) simp

lemma estimates_local:
  "local_prompt pk r tk = (r1, tk1) \<Longrightarrow> estimates_only r r1"
  "local_embedding pk r tk = (r1, tk1) \<Longrightarrow> estimates_only r r1"
  "local_completion pk r tk = (r1, tk1) \<Longrightarrow> estimates_only r r1"
  unfolding estimates_only_def
  by (cases r; force simp: local_prompt_def local_embedding_def local_completion_def
      split: if_split_asm option.splits prod.splits)+

lemma estimates_trans: "estimates_only r r1 \<Longrightarrow> estimates_only r1 r2 \<Longrightarrow> estimates_only r r2"
  by (auto simp: estimates_only_def) blast

lemma event_done: "cr_t_end r \<noteq> None \<Longrightarrow>
  event ck r = (r, call_event r)"
  by (auto simp: event_def mark_done_def)

text \<open>One record appended to an open log, whose line encodes or not.\<close>

definition appended :: "clock \<Rightarrow> logger \<Rightarrow> pyval dict \<Rightarrow> logger \<Rightarrow> bool" where
  "appended ck lg ev lg' \<longleftrightarrow> valid_utf8 (log_line (log_record lg (ck_stamp_log ck) ev)) \<and>
     lg' = lg\<lparr>log_seq := log_seq lg + 1,
              log_file := log_file lg @ log_line (log_record lg (ck_stamp_log ck) ev)\<rparr>"

lemma append_event_cases:
  assumes "append_event (ck_stamp_log ck) (ck_accept ck) ev lg = (q, lg')" "\<not> log_closed lg"
  shows "case q of Inr x \<Rightarrow> appended ck lg ev lg'
    | Inl e \<Rightarrow> e = UnicodeEncodeError \<and> \<not> valid_utf8 (log_line (log_record lg (ck_stamp_log ck) ev)) \<and> lg' = lg\<lparr>log_seq := log_seq lg + 1\<rparr>"
  using assms by (auto simp: append_event_def appended_def Let_def write_loop_all split: if_split_asm)

lemma log_call_cases:
  assumes "log_call pk ck r px = (res, r', px')" "\<not> cr_logged r" "\<not> log_closed (px_log px)"
  shows "estimates_only (mark_done ck (r\<lparr>cr_logged := True\<rparr>)) r'"
    "px' = px\<lparr>px_log := px_log px', px_tok := px_tok px'\<rparr>"
    "case res of Inr _ \<Rightarrow> appended ck (px_log px) (call_event r') (px_log px')
      | Inl e \<Rightarrow> e = UnicodeEncodeError \<and>
          \<not> valid_utf8 (log_line (log_record (px_log px) (ck_stamp_log ck) (call_event r'))) \<and>
          px_log px' = (px_log px)\<lparr>log_seq := log_seq (px_log px) + 1\<rparr>"
proof -
  let ?r1 = "mark_done ck (r\<lparr>cr_logged := True\<rparr>)"
  obtain r2 tk2 where p: "local_prompt pk ?r1 (px_tok px) = (r2, tk2)" by fastforce
  obtain r3 tk3 where e: "local_embedding pk r2 tk2 = (r3, tk3)" by fastforce
  obtain r4 tk4 where c: "local_completion pk r3 tk3 = (r4, tk4)" by fastforce
  have est: "estimates_only ?r1 r4"
    using estimates_local(1) [OF p] estimates_local(2) [OF e] estimates_local(3) [OF c]
    by (blast intro: estimates_trans)
  then have "cr_t_end r4 \<noteq> None" by (auto simp: estimates_only_def mark_done_def)
  note ev = event_done [OF this, of ck]
  obtain q lg where a: "append_event (ck_stamp_log ck) (ck_accept ck) (call_event r4) (px_log px) = (q, lg)"
    by fastforce
  have out: "res = map_sum id (\<lambda>_. ()) q" "r' = r4" "px' = px\<lparr>px_log := lg, px_tok := tk4\<rparr>"
    using assms(1,2) by (simp_all add: log_call_def p e c ev a)
  show "estimates_only (mark_done ck (r\<lparr>cr_logged := True\<rparr>)) r'" using est out by simp
  show "px' = px\<lparr>px_log := px_log px', px_tok := px_tok px'\<rparr>" using out by simp
  show "case res of Inr _ \<Rightarrow> appended ck (px_log px) (call_event r') (px_log px')
      | Inl e \<Rightarrow> e = UnicodeEncodeError \<and>
          \<not> valid_utf8 (log_line (log_record (px_log px) (ck_stamp_log ck) (call_event r'))) \<and>
          px_log px' = (px_log px)\<lparr>log_seq := log_seq (px_log px) + 1\<rparr>"
    using append_event_cases [OF a assms(3)] out by (auto split: sum.splits)
qed

lemma estimates_logged: "estimates_only (mark_done ck (r\<lparr>cr_logged := True\<rparr>)) r' \<Longrightarrow> cr_logged r'"
  by (auto simp: estimates_only_def mark_done_def)

text \<open>\<open>log\<close> writes at most once. Its first call on a record appends exactly one event, built
  from the record with its end marked and its estimates filled in, or (when the event holds half
  of a surrogate pair) raises \<open>UnicodeEncodeError\<close> with the file untouched; every later call does
  nothing at all; and no call touches the scopes or the settings.\<close>

theorem log_call_once:
  assumes "\<not> cr_logged r" "\<not> log_closed (px_log px)" "log_call pk ck r px = (res, r', px')"
  shows "log_call pk ck' r' px' = (Inr (), r', px')
     \<and> px_registry px' = px_registry px \<and> px_settings px' = px_settings px
     \<and> estimates_only (mark_done ck (r\<lparr>cr_logged := True\<rparr>)) r'
     \<and> (case res of Inr _ \<Rightarrow> appended ck (px_log px) (call_event r') (px_log px')
        | Inl e \<Rightarrow> e = UnicodeEncodeError \<and> log_file (px_log px') = log_file (px_log px))"
proof -
  note c = log_call_cases [OF assms(3,1,2)]
  obtain lg tk where "px' = px\<lparr>px_log := lg, px_tok := tk\<rparr>" using c(2) by blast
  then have px: "px_registry px' = px_registry px \<and> px_settings px' = px_settings px" by simp
  have "log_call pk ck' r' px' = (Inr (), r', px')"
    using estimates_logged [OF c(1)] by (simp add: log_call_def)
  then show ?thesis using c(1,3) px by (auto split: sum.splits)
qed

definition sample_clock :: clock where
  "sample_clock = \<lparr>ck_start = 1, ck_upstream_start = 2, ck_first_byte = 3, ck_upstream_end = 4,
     ck_done = 5, ck_stamp_start = ''s'', ck_stamp_end = ''e'', ck_stamp_log = ''l'', ck_accept = length\<rparr>"

definition sample_request :: http_request where
  "sample_request = \<lparr>rq_id = ''id1'', rq_method = ''POST'', rq_headers = (\<lambda>_. None), rq_body = []\<rparr>"

definition sample_packages :: "string packages" where
  "sample_packages = \<lparr>pk_loader = byte_loader, pk_tokens = (\<lambda>_. length), pk_sha256 = (\<lambda>s. s),
     pk_fadd = (\<lambda>x y. NaN)\<rparr>"

definition sample_proxy :: "string proxy" where
  "sample_proxy = \<lparr>px_settings = \<lparr>allowed_systems = [''mem0''], require_attribution = False,
       force_stream_usage = True, upstream_api_key = None\<rparr>,
     px_log = fresh_log ''p'', px_registry = [], px_bodies = None, px_tok = initial_tok byte_loader\<rparr>"

theorem log_call_once_witness:
  "\<exists>res r' px'. log_call sample_packages sample_clock
       (new_record sample_clock sample_request ''/v1/embeddings'') sample_proxy = (res, r', px')
     \<and> log_call sample_packages sample_clock r' px' = (Inr (), r', px')"
proof -
  obtain res r' px' where l: "log_call sample_packages sample_clock
      (new_record sample_clock sample_request ''/v1/embeddings'') sample_proxy = (res, r', px')"
    by (metis prod.exhaust)
  have "\<not> cr_logged (new_record sample_clock sample_request ''/v1/embeddings'')"
    "\<not> log_closed (px_log sample_proxy)"
    by (simp_all add: new_record_def sample_proxy_def fresh_log_def)
  from log_call_once [OF this l] l show ?thesis by blast
qed

subsection \<open>Durations are right\<close>

lemma round_half_even_close: "abs (of_int (round_half_even q) - q) \<le> 1 / 2"
proof -
  have f: "of_int \<lfloor>q\<rfloor> \<le> q" "q < of_int \<lfloor>q\<rfloor> + 1" by linarith+
  show ?thesis unfolding round_half_even_def Let_def using f
    by (auto simp: abs_le_iff)
qed

lemma round_half_even_nonneg: "0 \<le> q \<Longrightarrow> 0 \<le> round_half_even q"
  by (auto simp: round_half_even_def Let_def)



end
