(* ===== verification/Upstream_Call.thy ===== *)
theory Upstream_Call
  imports Model_Call Base64
begin

section \<open>Forwarding a call to the provider (\<open>proxy/app.py\<close>, \<open>_forward_simple\<close>)\<close>

text \<open>
  The provider is a parameter: a function from what is sent to a timeout, a transport error or a
  response. What is modelled is what the proxy makes of its answer: the usage it records, the
  figures it reads off a body, the errors it reports and the reply it returns. A Python exception
  that no handler of the proxy catches is \<open>Inl\<close>.
\<close>

record up_request =
  up_method :: string
  up_path :: string
  up_content :: "string option"
  up_headers :: "string dict"

datatype up_result =
    Up_Timeout string string
  | Up_Error string string
  | Up_Response int headers string

record response =
  rs_status :: int
  rs_body :: string
  rs_headers :: "string dict"
  rs_media :: string

definition REQUEST_ID_HEADER :: string where
  "REQUEST_ID_HEADER = ''X-Bench-Request-Id''"

definition error_value :: "string \<Rightarrow> string \<Rightarrow> pyval" where
  "error_value message err_type =
     PDict [(''error'', PDict [(''message'', PStr message), (''type'', PStr err_type),
       (''code'', PNone), (''param'', PNone)])]"

definition json_response :: "int \<Rightarrow> pyval \<Rightarrow> string dict \<Rightarrow> response" where
  "json_response status v hs =
     \<lparr>rs_status = status, rs_body = json_dumps Compact_Utf8 v, rs_headers = hs,
      rs_media = ''application/json''\<rparr>"

definition error_response :: "int \<Rightarrow> string \<Rightarrow> string \<Rightarrow> string option \<Rightarrow> response" where
  "error_response status message err_type request_id =
     json_response status (error_value message err_type)
       (if nonempty request_id then [(REQUEST_ID_HEADER, the request_id)] else [])"

definition upstream_headers :: "settings \<Rightarrow> headers \<Rightarrow> string dict" where
  "upstream_headers st h =
     [(''accept'', case h ''accept'' of None \<Rightarrow> ''application/json'' | Some a \<Rightarrow> a)] @
     (if nonempty (upstream_api_key st) then [(''authorization'', ''Bearer '' @ the (upstream_api_key st))] else []) @
     (if nonempty (h ''content-type'') then [(''content-type'', the (h ''content-type''))] else []) @
     List.map_filter (\<lambda>k. map_option (Pair k) (h k))
       [''openai-organization'', ''openai-project'', ''openai-beta'']"

subsection \<open>Usage\<close>

text \<open>\<open>a + b\<close> on the values a provider can report: integers and booleans, floats (whose sum is the
  machine's, a parameter), and the concatenations of texts and lists.\<close>

definition as_int :: "pyval \<Rightarrow> int option" where
  "as_int v = (case v of PInt i \<Rightarrow> Some i | PBool b \<Rightarrow> Some (if b then 1 else 0) | _ \<Rightarrow> None)"

definition as_float :: "pyval \<Rightarrow> pyfloat option" where
  "as_float v = (case v of PFloat f \<Rightarrow> Some f
     | _ \<Rightarrow> map_option (\<lambda>i. Finite (of_int i) (int_text i @ ''.0'')) (as_int v))"

definition py_add :: "(pyfloat \<Rightarrow> pyfloat \<Rightarrow> pyfloat) \<Rightarrow> pyval \<Rightarrow> pyval \<Rightarrow> pyval raises" where
  "py_add fadd a b =
     (case (as_int a, as_int b) of
        (Some i, Some j) \<Rightarrow> Inr (PInt (i + j))
      | _ \<Rightarrow> (case (as_float a, as_float b) of
          (Some x, Some y) \<Rightarrow> Inr (PFloat (fadd x y))
        | _ \<Rightarrow> (case (a, b) of
            (PStr s, PStr t) \<Rightarrow> Inr (PStr (s @ t))
          | (PList xs, PList ys) \<Rightarrow> Inr (PList (xs @ ys))
          | _ \<Rightarrow> Inl TypeError)))"

definition copy_key :: "string \<Rightarrow> string \<Rightarrow> pyval dict \<Rightarrow> pyval dict" where
  "copy_key from to u = (if \<not> dhas u to \<and> dhas u from then dset to (vget u from) u else u)"

definition usage_base :: "pyval dict \<Rightarrow> pyval dict" where
  "usage_base usage =
     copy_key ''output_tokens'' ''completion_tokens''
       (copy_key ''input_tokens'' ''prompt_tokens'' (filter (\<lambda>(_, v). v \<noteq> PNone) usage))"

definition absorb_usage ::
  "(pyfloat \<Rightarrow> pyfloat \<Rightarrow> pyfloat) \<Rightarrow> pyval dict \<Rightarrow> call_record \<Rightarrow> unit raises \<times> call_record" where
  "absorb_usage fadd payload r =
     (case vget payload ''usage'' of
        PDict usage \<Rightarrow>
          if usage = [] then (Inr (), r)
          else
            let u = usage_base usage; r1 = r\<lparr>cr_usage := u, cr_usage_source := ''upstream''\<rparr> in
            if \<not> dhas u ''total_tokens'' \<and> dhas u ''prompt_tokens'' then
              (case py_add fadd (vget u ''prompt_tokens'')
                 (case dget u ''completion_tokens'' of None \<Rightarrow> PInt 0 | Some v \<Rightarrow> v) of
                 Inl e \<Rightarrow> (Inl e, r1)
               | Inr v \<Rightarrow> (Inr (), r1\<lparr>cr_usage := dset ''total_tokens'' v u\<rparr>))
            else (Inr (), r1)
      | _ \<Rightarrow> (Inr (), r))"

subsection \<open>Reading a successful body\<close>

definition str_option :: "pyval \<Rightarrow> string option" where
  "str_option v = (case v of PStr s \<Rightarrow> Some s | _ \<Rightarrow> None)"

text \<open>\<open>x[0]\<close> of a value that is not falsy.\<close>

definition index0 :: "pyval \<Rightarrow> pyval raises" where
  "index0 v = (case v of
      PList (x # _) \<Rightarrow> Inr x
    | PStr s \<Rightarrow> Inr (PStr (py_take 1 s))
    | PDict _ \<Rightarrow> Inl KeyError
    | PList [] \<Rightarrow> Inl IndexError
    | _ \<Rightarrow> Inl TypeError)"

text \<open>\<open>if xs and isinstance(xs[0], dict)\<close>: the first element when it is an object.\<close>

definition first_dict :: "pyval \<Rightarrow> pyval dict option raises" where
  "first_dict xs =
     (if \<not> truthy xs then Inr None
      else bindE (index0 xs) (\<lambda>x. Inr (case x of PDict d \<Rightarrow> Some d | _ \<Rightarrow> None)))"

definition absorb_chat :: "pyval dict \<Rightarrow> call_record \<Rightarrow> call_record raises" where
  "absorb_chat payload r =
     bindE (first_dict (por (vget payload ''choices'') (PList []))) (\<lambda>c.
       case c of
         None \<Rightarrow> Inr r
       | Some choice \<Rightarrow>
           bindE (as_dict (por (vget choice ''message'') (PDict []))) (\<lambda>msg.
             Inr (r\<lparr>cr_finish_reason := vget choice ''finish_reason'',
                    cr_local_completion_text := str_option (vget msg ''content'')\<rparr>)))"

definition part_text :: "pyval \<Rightarrow> string option" where
  "part_text part = (case part of PDict d \<Rightarrow> str_option (vget d ''text'') | _ \<Rightarrow> None)"

definition item_texts :: "pyval \<Rightarrow> string list raises" where
  "item_texts item =
     (case item of
        PDict d \<Rightarrow> bindE (py_iter (por (vget d ''content'') (PList []))) (\<lambda>parts.
          Inr (List.map_filter part_text parts))
      | _ \<Rightarrow> Inr [])"

definition absorb_responses :: "pyval dict \<Rightarrow> call_record \<Rightarrow> call_record raises" where
  "absorb_responses payload r =
     bindE (py_iter (por (vget payload ''output'') (PList []))) (\<lambda>items.
     bindE (mapE item_texts items) (\<lambda>texts.
       Inr (r\<lparr>cr_finish_reason := vget payload ''status'',
              cr_local_completion_text :=
                (if concat texts = [] then None else Some (concat (concat texts)))\<rparr>)))"

text \<open>\<open>base64.b64decode\<close> takes the standard alphabet and skips other characters; a text that is
  not ASCII is refused.\<close>

definition embedding_dims :: "pyval \<Rightarrow> nat option" where
  "embedding_dims vec =
     (case vec of
        PList xs \<Rightarrow> Some (length xs)
      | PStr s \<Rightarrow>
          (if list_all (\<lambda>c. of_char c < (0x80 :: nat)) s then
             map_option (\<lambda>b. length b div 4) (b64_decode (filter (\<lambda>c. c \<noteq> CHR ''-'' \<and> c \<noteq> CHR ''_'') s))
           else None)
      | _ \<Rightarrow> None)"

definition absorb_embeddings :: "pyval dict \<Rightarrow> call_record \<Rightarrow> call_record raises" where
  "absorb_embeddings payload r =
     (let data = por (vget payload ''data'') (PList []) in
      bindE (py_len_of data) (\<lambda>n.
      bindE (first_dict data) (\<lambda>d.
        Inr (r\<lparr>cr_embedding_vectors := Some n,
               cr_embedding_dimensions := (case d of None \<Rightarrow> cr_embedding_dimensions r
                 | Some d \<Rightarrow> embedding_dims (vget d ''embedding''))\<rparr>))))"

definition absorb_success ::
  "(pyfloat \<Rightarrow> pyfloat \<Rightarrow> pyfloat) \<Rightarrow> pyval \<Rightarrow> call_record \<Rightarrow> call_record raises" where
  "absorb_success fadd payload r =
     (let r1 = r\<lparr>cr_status := ''success''\<rparr> in
      case payload of
        PDict p \<Rightarrow>
          (case absorb_usage fadd p r1 of
             (Inl e, _) \<Rightarrow> Inl e
           | (Inr _, r2) \<Rightarrow>
               let r3 = r2\<lparr>cr_upstream_model := str_option (vget p ''model'')\<rparr> in
               if cr_endpoint r3 = ''chat'' then absorb_chat p r3
               else if cr_endpoint r3 = ''responses'' then absorb_responses p r3
               else if cr_endpoint r3 = ''embeddings'' then absorb_embeddings p r3
               else Inr r3)
      | _ \<Rightarrow> Inr r1)"

definition upstream_message :: "pyval \<Rightarrow> string \<Rightarrow> pyval" where
  "upstream_message payload content =
     por (case payload of
            PDict p \<Rightarrow> (case vget p ''error'' of PDict e \<Rightarrow> vget e ''message'' | _ \<Rightarrow> PNone)
          | _ \<Rightarrow> PNone)
       (PStr (decode_replace (take ERROR_MESSAGE_LIMIT content)))"

text \<open>\<open>json.loads(content) if content else None\<close>, where only a \<open>JSONDecodeError\<close> is caught.\<close>

definition read_payload :: "string \<Rightarrow> pyval raises" where
  "read_payload content =
     (if content = [] then Inr PNone
      else (case json_loads_bytes content of
          Inl e \<Rightarrow> if e = JSONDecodeError then Inr PNone else Inl e
        | Inr v \<Rightarrow> Inr v))"

subsection \<open>Outcomes\<close>

type_synonym 'enc outcome = "response raises \<times> call_record \<times> 'enc proxy"

definition append_body ::
  "clock \<Rightarrow> string \<Rightarrow> string \<Rightarrow> pyval \<Rightarrow> 'enc proxy \<Rightarrow> unit raises \<times> 'enc proxy" where
  "append_body ck event_type request_id body px =
     (case px_bodies px of
        None \<Rightarrow> (Inr (), px)
      | Some lg \<Rightarrow>
          let (res, lg') = append_event (ck_stamp_log ck) (ck_accept ck)
                [(''event_type'', PStr event_type), (''request_id'', PStr request_id), (''body'', body)] lg
          in (map_sum id (\<lambda>_. ()) res, px\<lparr>px_bodies := Some lg'\<rparr>))"

text \<open>\<open>rec.fail(...); rec.log(); return _error(...)\<close>: a refusal reports the failure, writes the
  event and answers.\<close>

definition refuse ::
  "'enc packages \<Rightarrow> clock \<Rightarrow> int \<Rightarrow> string \<times> string \<Rightarrow> string \<times> string \<Rightarrow> call_record \<Rightarrow> 'enc proxy
    \<Rightarrow> 'enc outcome" where
  "refuse pk ck status recorded answered r px =
     (case log_call pk ck (fail_text status (fst recorded) (snd recorded) r) px of
        (Inl e, r', px') \<Rightarrow> (Inl e, r', px')
      | (Inr _, r', px') \<Rightarrow>
          (Inr (error_response status (snd answered) (fst answered) (Some (cr_request_id r))), r', px'))"

text \<open>The reply whose event is written after it has been sent: a failure to write it no longer
  reaches the client.\<close>

definition reply_then_log ::
  "'enc packages \<Rightarrow> clock \<Rightarrow> response \<Rightarrow> call_record \<Rightarrow> 'enc proxy \<Rightarrow> 'enc outcome" where
  "reply_then_log pk ck resp r px =
     (case log_call pk ck r px of (_, r', px') \<Rightarrow> (Inr resp, r', px'))"

definition out_headers :: "call_record \<Rightarrow> string dict" where
  "out_headers r =
     [(REQUEST_ID_HEADER, cr_request_id r)] @
     (if nonempty (cr_upstream_request_id r)
      then [(''X-Upstream-Request-Id'', the (cr_upstream_request_id r))] else [])"

definition media_of :: "headers \<Rightarrow> string \<Rightarrow> string" where
  "media_of h dflt = (case h ''content-type'' of None \<Rightarrow> dflt | Some t \<Rightarrow> t)"

definition transport_text :: "string \<Rightarrow> string \<Rightarrow> string" where
  "transport_text name msg = name @ '': '' @ msg"

definition settle_simple ::
  "'enc packages \<Rightarrow> int \<Rightarrow> string \<Rightarrow> call_record \<Rightarrow> call_record raises" where
  "settle_simple pk status content r =
     bindE (read_payload content) (\<lambda>payload.
       if 200 \<le> status \<and> status < 300 then absorb_success (pk_fadd pk) payload r
       else fail_call status ''upstream_error'' (upstream_message payload content) r)"

definition forward_simple ::
  "'enc packages \<Rightarrow> clock \<Rightarrow> (up_request \<Rightarrow> up_result) \<Rightarrow> http_request \<Rightarrow> string option \<Rightarrow> call_record
    \<Rightarrow> 'enc proxy \<Rightarrow> 'enc outcome" where
  "forward_simple pk ck up rq content r px =
     (let r1 = mark_upstream_start ck r in
      case up \<lparr>up_method = rq_method rq, up_path = cr_upstream_path r, up_content = content,
               up_headers = upstream_headers (px_settings px) (rq_headers rq)\<rparr> of
        Up_Timeout name msg \<Rightarrow>
          refuse pk ck 504 (''upstream_timeout'', transport_text name msg)
            (''upstream_timeout'', ''upstream timeout: '' @ name) (mark_upstream_end ck r1) px
      | Up_Error name msg \<Rightarrow>
          refuse pk ck 502 (''upstream_unreachable'', transport_text name msg)
            (''upstream_unreachable'', ''upstream unreachable: '' @ transport_text name msg)
            (mark_upstream_end ck r1) px
      | Up_Response status h body \<Rightarrow>
          let r2 = mark_upstream_end ck (mark_first_byte ck r1);
              r3 = r2\<lparr>cr_upstream_http_status := Some status, cr_http_status := Some status,
                      cr_response_bytes := length body, cr_upstream_request_id := h ''x-request-id''\<rparr>
          in (case settle_simple pk status body r3 of
                Inl e \<Rightarrow> (Inl e, r3, px)
              | Inr r4 \<Rightarrow>
                  (let payload = read_payload body;
                       store = (200 \<le> status \<and> status < 300 \<and> payload \<noteq> Inr PNone);
                       (stored, px1) = (if store
                          then append_body ck ''RESPONSE_BODY'' (cr_request_id r)
                                 (case payload of Inr v \<Rightarrow> v | Inl _ \<Rightarrow> PNone) px
                          else (Inr (), px))
                   in case stored of
                        Inl e \<Rightarrow> (Inl e, r4, px1)
                      | Inr _ \<Rightarrow>
                          let r5 = mark_done ck r4 in
                          reply_then_log pk ck
                            \<lparr>rs_status = status, rs_body = body, rs_headers = out_headers r5,
                             rs_media = media_of h ''application/json''\<rparr> r5 px1)))"

subsection \<open>One event per answer\<close>

text \<open>An outcome is accounted for when an answer has its status in the record, and the log has
  grown by that record's event (or could not encode it); and when nothing was answered because an
  exception escaped, the log file is as it was.\<close>

definition accounted :: "clock \<Rightarrow> 'enc proxy \<Rightarrow> 'enc outcome \<Rightarrow> bool" where
  "accounted ck px out \<longleftrightarrow>
     (case out of
        (Inr resp, r', px') \<Rightarrow>
          cr_http_status r' = Some (rs_status resp) \<and> cr_logged r' \<and>
          dget (rs_headers resp) REQUEST_ID_HEADER = Some (cr_request_id r') \<and>
          (appended ck (px_log px) (call_event r') (px_log px') \<or>
           \<not> valid_utf8 (log_line (log_record (px_log px) (ck_stamp_log ck) (call_event r'))))
      | (Inl e, r', px') \<Rightarrow> log_file (px_log px') = log_file (px_log px))"

text \<open>The part of a record that identifies the call and its answer.\<close>

definition core :: "call_record \<Rightarrow> string \<times> bool \<times> int option" where
  "core r = (cr_request_id r, cr_logged r, cr_http_status r)"

lemma core_marks [simp]:
  "core (mark_upstream_start ck r) = core r" "core (mark_first_byte ck r) = core r"
  "core (mark_upstream_end ck r) = core r" "core (mark_done ck r) = core r"
  by (simp_all add: core_def mark_upstream_start_def mark_first_byte_def mark_upstream_end_def
      mark_done_def)

lemma core_absorb_usage: "absorb_usage fadd p r = (x, r') \<Longrightarrow> core r' = core r"
  by (auto simp: absorb_usage_def core_def Let_def split: pyval.splits if_split_asm sum.splits)

lemma core_absorb_parts:
  "absorb_chat p r = Inr r' \<Longrightarrow> core r' = core r"
  "absorb_responses p r = Inr r' \<Longrightarrow> core r' = core r"
  "absorb_embeddings p r = Inr r' \<Longrightarrow> core r' = core r"
  by (auto simp: absorb_chat_def absorb_responses_def absorb_embeddings_def core_def bindE_Inr Let_def
      split: option.splits)

lemma core_absorb_success:
  assumes "absorb_success fadd payload r = Inr r'"
  shows "core r' = core r"
proof (cases payload)
  case (PDict p)
  let ?r1 = "r\<lparr>cr_status := ''success''\<rparr>"
  obtain x r2 where u: "absorb_usage fadd p ?r1 = (x, r2)" by fastforce
  have x: "x = Inr ()" using assms u by (cases x) (simp_all add: absorb_success_def PDict)
  let ?r3 = "r2\<lparr>cr_upstream_model := str_option (vget p ''model'')\<rparr>"
  have "absorb_chat p ?r3 = Inr r' \<or> absorb_responses p ?r3 = Inr r' \<or> absorb_embeddings p ?r3 = Inr r'
      \<or> ?r3 = r'"
    using assms by (auto simp: absorb_success_def PDict u x Let_def split: if_split_asm)
  then have "core r' = core ?r3" by (auto dest: core_absorb_parts)
  also have "core ?r3 = core r2" by (simp add: core_def)
  also have "core r2 = core r" using core_absorb_usage [OF u] by (simp add: core_def)
  finally show ?thesis .
qed (use assms in \<open>auto simp: absorb_success_def core_def\<close>)

lemma core_fail_call: "fail_call st ty m r = Inr r' \<Longrightarrow> core r' = (cr_request_id r, cr_logged r, Some st)"
  by (auto simp: fail_call_def core_def bindE_Inr)

lemma core_settle_simple:
  assumes "settle_simple pk st content r = Inr r'" "cr_http_status r = Some st"
  shows "core r' = core r"
  using assms
  by (auto simp: settle_simple_def bindE_Inr core_def dest!: core_absorb_success core_fail_call
      split: if_split_asm)

lemma core_logged:
  "estimates_only (mark_done ck (r\<lparr>cr_logged := True\<rparr>)) r' \<Longrightarrow>
   cr_request_id r' = cr_request_id r \<and> cr_logged r' \<and> cr_http_status r' = cr_http_status r"
  by (auto simp: estimates_only_def mark_done_def)

lemma log_call_encoded:
  assumes "log_call pk ck r px = (res, r', px')" "\<not> cr_logged r" "\<not> log_closed (px_log px)"
  shows "appended ck (px_log px) (call_event r') (px_log px') \<or>
     \<not> valid_utf8 (log_line (log_record (px_log px) (ck_stamp_log ck) (call_event r')))"
    "isl res \<longleftrightarrow> \<not> valid_utf8 (log_line (log_record (px_log px) (ck_stamp_log ck) (call_event r')))"
    "isl res \<Longrightarrow> log_file (px_log px') = log_file (px_log px)"
proof -
  note c = log_call_cases [OF assms]
  have enc: "res = Inl e \<Longrightarrow> \<not> valid_utf8 (log_line (log_record (px_log px) (ck_stamp_log ck) (call_event r')))" for e
    using c(3) by simp
  show "appended ck (px_log px) (call_event r') (px_log px') \<or>
     \<not> valid_utf8 (log_line (log_record (px_log px) (ck_stamp_log ck) (call_event r')))"
    using c(3) enc by (cases res) auto
  show "isl res \<longleftrightarrow> \<not> valid_utf8 (log_line (log_record (px_log px) (ck_stamp_log ck) (call_event r')))"
    using c(3) enc by (cases res) (auto simp: appended_def)
  show "isl res \<Longrightarrow> log_file (px_log px') = log_file (px_log px)"
    using c(3) by (cases res) auto
qed

lemma refuse_accounted:
  assumes "\<not> cr_logged r" "\<not> log_closed (px_log px)" "cr_request_id r \<noteq> []"
  shows "accounted ck px (refuse pk ck st rec ans r px)"
proof -
  let ?r = "fail_text st (fst rec) (snd rec) r"
  obtain res r' px' where l: "log_call pk ck ?r px = (res, r', px')" by (metis prod.exhaust)
  have n: "\<not> cr_logged ?r" using assms(1) by (simp add: fail_text_def)
  note c = log_call_cases [OF l n assms(2)] and e = log_call_encoded [OF l n assms(2)]
  have f: "cr_request_id r' = cr_request_id r" "cr_logged r'" "cr_http_status r' = Some st"
    using core_logged [OF c(1)] by (simp_all add: fail_text_def)
  show ?thesis
  proof (cases res)
    case (Inl x)
    with e(3) l show ?thesis by (simp add: accounted_def refuse_def)
  next
    case (Inr u)
    with e(1) l f assms(3) show ?thesis
      by (simp add: accounted_def refuse_def error_response_def json_response_def nonempty_def)
  qed
qed

lemma reply_then_log_accounted:
  assumes "\<not> cr_logged r" "\<not> log_closed (px_log px)" "cr_http_status r = Some (rs_status resp)"
    and "dget (rs_headers resp) REQUEST_ID_HEADER = Some (cr_request_id r)"
  shows "accounted ck px (reply_then_log pk ck resp r px)"
proof -
  obtain res r' px' where l: "log_call pk ck r px = (res, r', px')" by (metis prod.exhaust)
  note c = log_call_cases [OF l assms(1,2)] and e = log_call_encoded [OF l assms(1,2)]
  show ?thesis using core_logged [OF c(1)] e(1) l assms(3,4)
    by (simp add: accounted_def reply_then_log_def)
qed

lemma append_body_log:
  "append_body ck ty i b px = (res, px') \<Longrightarrow> px_log px' = px_log px"
  by (auto simp: append_body_def split: option.splits prod.splits)

lemma accounted_cong: "px_log px = px_log px' \<Longrightarrow> accounted ck px out = accounted ck px' out"
  by (cases out) (auto simp: accounted_def split: sum.splits)

lemma out_headers_id [simp]: "dget (out_headers r) REQUEST_ID_HEADER = Some (cr_request_id r)"
  by (simp add: out_headers_def)

lemma core_iff: "core r' = core r \<longleftrightarrow> cr_request_id r' = cr_request_id r \<and> cr_logged r' = cr_logged r \<and>
    cr_http_status r' = cr_http_status r"
  by (simp add: core_def)

lemma forward_simple_accounted:
  assumes "\<not> cr_logged r" "\<not> log_closed (px_log px)" "cr_request_id r \<noteq> []"
  shows "accounted ck px (forward_simple pk ck up rq content r px)"
proof -
  let ?r1 = "mark_upstream_start ck r" and ?ur = "\<lparr>up_method = rq_method rq, up_path = cr_upstream_path r,
      up_content = content, up_headers = upstream_headers (px_settings px) (rq_headers rq)\<rparr>"
  have n: "\<not> cr_logged (mark_upstream_end ck ?r1)" "cr_request_id (mark_upstream_end ck ?r1) \<noteq> []"
    using assms(1,3) by (simp_all add: mark_upstream_end_def mark_upstream_start_def)
  show ?thesis
  proof (cases "up ?ur")
    case (Up_Timeout nm msg)
    with refuse_accounted [OF n(1) assms(2) n(2)] show ?thesis by (simp add: forward_simple_def)
  next
    case (Up_Error nm msg)
    with refuse_accounted [OF n(1) assms(2) n(2)] show ?thesis by (simp add: forward_simple_def)
  next
    case (Up_Response st h body)
    let ?r3 = "mark_upstream_end ck (mark_first_byte ck ?r1)\<lparr>cr_upstream_http_status := Some st,
      cr_http_status := Some st, cr_response_bytes := length body, cr_upstream_request_id := h ''x-request-id''\<rparr>"
    have id: "cr_logged ?r3 = cr_logged r" "cr_request_id ?r3 = cr_request_id r"
      by (simp_all add: mark_upstream_end_def mark_first_byte_def mark_upstream_start_def)
    show ?thesis
    proof (cases "settle_simple pk st body ?r3")
      case (Inl e)
      with Up_Response show ?thesis by (simp add: forward_simple_def accounted_def)
    next
      case (Inr r4)
      have c4: "core r4 = core ?r3" by (rule core_settle_simple [OF Inr]) simp
      then have r4: "cr_request_id r4 = cr_request_id r" "\<not> cr_logged r4" "cr_http_status r4 = Some st"
        using id assms(1) unfolding core_iff by simp_all
      let ?v = "case read_payload body of Inr v \<Rightarrow> v | Inl _ \<Rightarrow> PNone"
      let ?st = "if 200 \<le> st \<and> st < 300 \<and> read_payload body \<noteq> Inr PNone
        then append_body ck ''RESPONSE_BODY'' (cr_request_id r) ?v px else (Inr (), px)"
      obtain stored px1 where s: "?st = (stored, px1)" by fastforce
      have px1: "px_log px1 = px_log px"
        using s append_body_log by (auto split: if_split_asm)
      have out: "forward_simple pk ck up rq content r px =
        (case stored of Inl e \<Rightarrow> (Inl e, r4, px1)
         | Inr _ \<Rightarrow> reply_then_log pk ck \<lparr>rs_status = st, rs_body = body,
             rs_headers = out_headers (mark_done ck r4), rs_media = media_of h ''application/json''\<rparr>
             (mark_done ck r4) px1)"
        using s by (cases stored) (simp_all add: forward_simple_def Up_Response Inr Let_def)
      have d: "\<not> cr_logged (mark_done ck r4)" "cr_http_status (mark_done ck r4) = Some st"
        using r4 by (simp_all add: mark_done_def)
      show ?thesis
      proof (cases stored)
        case (Inl e)
        then show ?thesis unfolding out by (simp add: accounted_def px1)
      next
        case (Inr u)
        have "accounted ck px1 (reply_then_log pk ck \<lparr>rs_status = st, rs_body = body,
             rs_headers = out_headers (mark_done ck r4), rs_media = media_of h ''application/json''\<rparr>
             (mark_done ck r4) px1)"
          using d assms(2) px1 by (intro reply_then_log_accounted) simp_all
        then show ?thesis unfolding out Inr using accounted_cong [OF px1] by simp
      qed
    qed
  qed
qed

subsection \<open>Usage is normalised\<close>

lemma dget_copy_key:
  "dget (copy_key a b d) k = (if k = b \<and> dget d b = None then dget d a else dget d k)"
proof (cases "dget d b = None \<and> dget d a \<noteq> None")
  case True
  then show ?thesis by (auto simp: copy_key_def dhas_def vget_def)
next
  case False
  then show ?thesis by (auto simp: copy_key_def dhas_def)
qed

lemma dict_ok_copy_key: "dict_ok d \<Longrightarrow> dict_ok (copy_key a b d)"
  by (simp add: copy_key_def)

definition reported :: "pyval dict \<Rightarrow> string \<Rightarrow> pyval option" where
  "reported u k = (case dget u k of None \<Rightarrow> None | Some v \<Rightarrow> if v = PNone then None else Some v)"

lemma dget_usage_base:
  assumes "dict_ok u"
  shows "dget (usage_base u) k =
     (if k = ''completion_tokens'' \<and> reported u k = None then reported u ''output_tokens''
      else if k = ''prompt_tokens'' \<and> reported u k = None then reported u ''input_tokens''
      else reported u k)"
proof -
  have "dget (filter (\<lambda>(_, v). v \<noteq> PNone) u) k = reported u k" for k
    using dget_filter [OF assms, of "\<lambda>_ v. v \<noteq> PNone" k] by (simp add: reported_def split: option.splits)
  then show ?thesis unfolding usage_base_def dget_copy_key
    by (cases "k = ''completion_tokens''"; cases "k = ''prompt_tokens''"; simp)
qed

lemma reported_not_null: "reported u k \<noteq> Some PNone"
  by (simp add: reported_def split: option.splits)

lemma usage_base_get_not_null: "dict_ok u \<Longrightarrow> dget (usage_base u) k \<noteq> Some PNone"
  using reported_not_null by (simp only: dget_usage_base split: if_split) blast

lemma usage_base_dict_ok: "dict_ok u \<Longrightarrow> dict_ok (usage_base u)"
  unfolding usage_base_def by (intro dict_ok_copy_key distinct_map_filter)

lemma usage_base_no_null: "dict_ok u \<Longrightarrow> PNone \<notin> snd ` set (usage_base u)"
proof
  assume u: "dict_ok u" and n: "PNone \<in> snd ` set (usage_base u)"
  obtain kv where kv: "kv \<in> set (usage_base u)" "snd kv = PNone" using n by (metis imageE)
  then have "(fst kv, PNone) \<in> set (usage_base u)" by (metis prod.collapse)
  then have "dget (usage_base u) (fst kv) = Some PNone"
    by (rule dict_ok_set_iff [OF usage_base_dict_ok [OF u], THEN iffD1])
  with usage_base_get_not_null [OF u] show False by blast
qed

lemma absorb_usage_cases:
  assumes "dget payload ''usage'' = Some (PDict u)" "u \<noteq> []" "absorb_usage fadd payload r = (Inr (), r')"
  shows "cr_usage_source r' = ''upstream''"
    and "if dhas (usage_base u) ''total_tokens'' \<or> \<not> dhas (usage_base u) ''prompt_tokens''
      then cr_usage r' = usage_base u
      else \<exists>v. py_add fadd (vget (usage_base u) ''prompt_tokens'')
         (case dget (usage_base u) ''completion_tokens'' of None \<Rightarrow> PInt 0 | Some v \<Rightarrow> v) = Inr v \<and>
         cr_usage r' = dset ''total_tokens'' v (usage_base u)"
proof -
  have v: "vget payload ''usage'' = PDict u" using assms(1) by simp
  show "cr_usage_source r' = ''upstream''"
    using assms(2,3) unfolding absorb_usage_def v Let_def
    by (simp only: pyval.case if_False) (auto split: if_split_asm sum.splits)
  show "if dhas (usage_base u) ''total_tokens'' \<or> \<not> dhas (usage_base u) ''prompt_tokens''
      then cr_usage r' = usage_base u
      else \<exists>v. py_add fadd (vget (usage_base u) ''prompt_tokens'')
         (case dget (usage_base u) ''completion_tokens'' of None \<Rightarrow> PInt 0 | Some v \<Rightarrow> v) = Inr v \<and>
         cr_usage r' = dset ''total_tokens'' v (usage_base u)"
    using assms(2,3) unfolding absorb_usage_def v Let_def
    by (simp only: pyval.case if_False) (auto split: if_split_asm sum.splits)
qed

text \<open>C11: what the proxy records of a reported usage. No figure is \<open>null\<close>; the Responses API names
  stand in for the chat names only where those are missing; a total the provider reports is kept,
  and one it omits is the sum of the two parts.\<close>

theorem usage_normalised:
  assumes "dget payload ''usage'' = Some (PDict u)" "u \<noteq> []" "dict_ok u"
    and "absorb_usage fadd payload r = (Inr (), r')"
  shows "cr_usage_source r' = ''upstream'' \<and> PNone \<notin> snd ` set (usage_base u)
     \<and> (k \<noteq> ''total_tokens'' \<longrightarrow> dget (cr_usage r') k =
          (case reported u k of Some v \<Rightarrow> Some v
           | None \<Rightarrow> if k = ''prompt_tokens'' then reported u ''input_tokens''
                    else if k = ''completion_tokens'' then reported u ''output_tokens'' else None))
     \<and> (reported u ''total_tokens'' \<noteq> None \<longrightarrow> dget (cr_usage r') ''total_tokens'' = reported u ''total_tokens'')
     \<and> (reported u ''total_tokens'' = None \<and> dget (cr_usage r') ''prompt_tokens'' = Some (PInt p)
          \<and> dget (cr_usage r') ''completion_tokens'' = Some (PInt c)
          \<longrightarrow> dget (cr_usage r') ''total_tokens'' = Some (PInt (p + c)))"
proof -
  note a = absorb_usage_cases [OF assms(1,2,4)] and b = dget_usage_base [OF assms(3)]
  have keys: "dget (cr_usage r') j = dget (usage_base u) j" if "j \<noteq> ''total_tokens''" for j
    using a(2) that by (auto split: if_split_asm)
  have field: "k \<noteq> ''total_tokens'' \<longrightarrow> dget (cr_usage r') k =
          (case reported u k of Some v \<Rightarrow> Some v
           | None \<Rightarrow> if k = ''prompt_tokens'' then reported u ''input_tokens''
                    else if k = ''completion_tokens'' then reported u ''output_tokens'' else None)"
    using keys [of k] b [of k]
    by (cases "reported u k"; cases "k = ''prompt_tokens''"; cases "k = ''completion_tokens''"; simp)
  have total: "dget (usage_base u) ''total_tokens'' = reported u ''total_tokens''" using b by simp
  have kept: "reported u ''total_tokens'' \<noteq> None \<longrightarrow>
      dget (cr_usage r') ''total_tokens'' = reported u ''total_tokens''"
    using a(2) total by (auto simp: dhas_def)
  have summed: "dget (cr_usage r') ''total_tokens'' = Some (PInt (p + c))"
    if "reported u ''total_tokens'' = None" "dget (cr_usage r') ''prompt_tokens'' = Some (PInt p)"
      "dget (cr_usage r') ''completion_tokens'' = Some (PInt c)"
  proof -
    have "dget (usage_base u) ''prompt_tokens'' = Some (PInt p)"
      "dget (usage_base u) ''completion_tokens'' = Some (PInt c)"
      using that keys by simp_all
    with a(2) total that(1) show ?thesis by (simp add: dhas_def py_add_def as_int_def)
  qed
  show ?thesis using a(1) usage_base_no_null [OF assms(3)] field kept summed by blast
qed

theorem usage_normalised_witness:
  "\<exists>r'. absorb_usage (\<lambda>x y. NaN)
      [(''usage'', PDict [(''input_tokens'', PInt 7), (''completion_tokens'', PInt 5), (''x'', PNone)])]
      (new_record sample_clock sample_request ''/v1/responses'') = (Inr (), r')
    \<and> dget (cr_usage r') ''total_tokens'' = Some (PInt 12)"
proof -
  let ?u = "[(''input_tokens'', PInt 7), (''completion_tokens'', PInt 5), (''x'', PNone)]"
  obtain r' where r: "absorb_usage (\<lambda>x y. NaN) [(''usage'', PDict ?u)]
      (new_record sample_clock sample_request ''/v1/responses'') = (Inr (), r')"
    by (simp add: absorb_usage_def usage_base_def copy_key_def dhas_def Let_def py_add_def as_int_def)
  from usage_normalised [OF _ _ _ r, of ?u "''prompt_tokens''"]
    usage_normalised [OF _ _ _ r, of ?u "''completion_tokens''" 7 5]
  show ?thesis using r by (simp add: reported_def)
qed

end
