(* ===== verification/Sse_Stream.thy ===== *)
theory Sse_Stream
  imports Upstream_Call
begin

section \<open>Streaming calls (\<open>proxy/app.py\<close>, \<open>_forward_stream\<close>)\<close>

text \<open>
  The provider's answer to a streamed call is its status, its headers, the chunks of its body in
  the order they arrive and how the body ends. The proxy cuts the bytes into server-sent events at
  blank lines, reads the figures off each event and passes it on, except an event it provoked
  itself. Facts: \<open>stream_chunking\<close> (the cut of the body into chunks does not matter),
  \<open>stream_transparent\<close> (what is passed on is what came in, less usage-only events the client did
  not ask for) and \<open>stream_one_event\<close> (one event is logged however the stream ends).
\<close>

datatype stream_end = Finished | Timed_Out string string | Broken string string | Cancelled

datatype stream_result =
    Send_Timeout string string
  | Send_Error string string
  | Stream int headers "string list" stream_end

subsection \<open>One event\<close>

definition byte_space :: "char \<Rightarrow> bool" where
  "byte_space c \<longleftrightarrow> (9 \<le> (of_char c :: nat) \<and> (of_char c :: nat) \<le> 13) \<or> c = CHR '' ''"

definition bytes_strip :: "string \<Rightarrow> string" where
  "bytes_strip s = rstrip_while byte_space (dropWhile byte_space s)"

text \<open>The data of a line: \<open>None\<close> for the lines that are skipped without parsing.\<close>

definition line_data :: "string \<Rightarrow> string option" where
  "line_data raw =
     (let line = rstrip_while (\<lambda>c. c = CHR 0x0D) raw in
      if starts_with ''data:'' line then
        (let data = bytes_strip (drop 5 line) in if data = ''[DONE]'' then None else Some data)
      else None)"

record sse =
  ss_rec :: call_record
  ss_text :: "string list"

definition read_choice :: "pyval \<Rightarrow> sse \<Rightarrow> unit raises \<times> sse" where
  "read_choice ch s =
     (case ch of
        PDict c \<Rightarrow>
          (case as_dict (por (vget c ''delta'') (PDict [])) of
             Inl e \<Rightarrow> (Inl e, s)
           | Inr delta \<Rightarrow>
               let s1 = (case vget delta ''content'' of PStr t \<Rightarrow> s\<lparr>ss_text := ss_text s @ [t]\<rparr> | _ \<Rightarrow> s);
                   fr = vget c ''finish_reason''
               in (Inr (), if truthy fr then s1\<lparr>ss_rec := (ss_rec s1)\<lparr>cr_finish_reason := fr\<rparr>\<rparr> else s1))
      | _ \<Rightarrow> (Inr (), s))"

fun read_choices :: "pyval list \<Rightarrow> sse \<Rightarrow> unit raises \<times> sse" where
  "read_choices [] s = (Inr (), s)"
| "read_choices (c # cs) s =
     (case read_choice c s of (Inl e, s1) \<Rightarrow> (Inl e, s1) | (Inr _, s1) \<Rightarrow> read_choices cs s1)"

definition note_model :: "pyval dict \<Rightarrow> sse \<Rightarrow> sse" where
  "note_model obj s =
     (case vget obj ''model'' of
        PStr m \<Rightarrow> if cr_upstream_model (ss_rec s) = None
                 then s\<lparr>ss_rec := (ss_rec s)\<lparr>cr_upstream_model := Some m\<rparr>\<rparr> else s
      | _ \<Rightarrow> s)"

definition with_usage :: "(pyfloat \<Rightarrow> pyfloat \<Rightarrow> pyfloat) \<Rightarrow> pyval dict \<Rightarrow> sse \<Rightarrow> unit raises \<times> sse" where
  "with_usage fadd payload s =
     (case absorb_usage fadd payload (ss_rec s) of (x, r) \<Rightarrow> (x, s\<lparr>ss_rec := r\<rparr>))"

text \<open>\<open>isinstance(obj.get("usage"), dict) and obj["usage"]\<close>.\<close>

definition has_usage :: "pyval dict \<Rightarrow> bool" where
  "has_usage obj \<longleftrightarrow> (case vget obj ''usage'' of PDict u \<Rightarrow> u \<noteq> [] | _ \<Rightarrow> False)"

definition response_usage :: "pyval dict \<Rightarrow> pyval dict option" where
  "response_usage obj =
     (case vget obj ''response'' of
        PDict resp \<Rightarrow> (case vget resp ''usage'' of PDict _ \<Rightarrow> Some resp | _ \<Rightarrow> None)
      | _ \<Rightarrow> None)"

text \<open>What one parsed object does; the boolean is the object's say in \<open>keep\<close>.\<close>

definition read_object ::
  "(pyfloat \<Rightarrow> pyfloat \<Rightarrow> pyfloat) \<Rightarrow> bool \<Rightarrow> pyval dict \<Rightarrow> sse \<Rightarrow> bool raises \<times> sse" where
  "read_object fadd client_usage obj s =
     (let choices = por (vget obj ''choices'') (PList []) in
      case py_iter choices of
        Inl e \<Rightarrow> (Inl e, note_model obj s)
      | Inr cs \<Rightarrow>
          (case read_choices cs (note_model obj s) of
             (Inl e, s1) \<Rightarrow> (Inl e, s1)
           | (Inr _, s1) \<Rightarrow>
               if has_usage obj then
                 (case with_usage fadd obj s1 of
                    (Inl e, s2) \<Rightarrow> (Inl e, s2)
                  | (Inr _, s2) \<Rightarrow> (Inr (client_usage \<or> truthy choices), s2))
               else (case response_usage obj of
                   None \<Rightarrow> (Inr True, s1)
                 | Some resp \<Rightarrow>
                     (case with_usage fadd resp s1 of
                        (Inl e, s2) \<Rightarrow> (Inl e, s2) | (Inr _, s2) \<Rightarrow> (Inr True, s2)))))"

definition read_line ::
  "(pyfloat \<Rightarrow> pyfloat \<Rightarrow> pyfloat) \<Rightarrow> bool \<Rightarrow> string \<Rightarrow> sse \<Rightarrow> bool raises \<times> sse" where
  "read_line fadd client_usage line s =
     (case line_data line of
        None \<Rightarrow> (Inr True, s)
      | Some data \<Rightarrow>
          (case json_loads_bytes data of
             Inl e \<Rightarrow> if e = JSONDecodeError then (Inr True, s) else (Inl e, s)
           | Inr (PDict obj) \<Rightarrow> read_object fadd client_usage obj s
           | Inr _ \<Rightarrow> (Inr True, s)))"

fun read_lines ::
  "(pyfloat \<Rightarrow> pyfloat \<Rightarrow> pyfloat) \<Rightarrow> bool \<Rightarrow> string list \<Rightarrow> bool \<Rightarrow> sse \<Rightarrow> bool raises \<times> sse" where
  "read_lines fadd client_usage [] keep s = (Inr keep, s)"
| "read_lines fadd client_usage (l # ls) keep s =
     (case read_line fadd client_usage l s of
        (Inl e, s1) \<Rightarrow> (Inl e, s1)
      | (Inr k, s1) \<Rightarrow> read_lines fadd client_usage ls (keep \<and> k) s1)"

definition process_event ::
  "(pyfloat \<Rightarrow> pyfloat \<Rightarrow> pyfloat) \<Rightarrow> bool \<Rightarrow> string \<Rightarrow> sse \<Rightarrow> bool raises \<times> sse" where
  "process_event fadd client_usage raw s =
     read_lines fadd client_usage (py_split CHR 0x0A raw) True s"

subsection \<open>Cutting the bytes into events\<close>

fun next_event :: "string \<Rightarrow> (string \<times> string) option" where
  "next_event (a # b # s) =
     (if a = CHR 0x0A \<and> b = CHR 0x0A then Some ([a, b], s)
      else map_option (\<lambda>(e, r). (a # e, r)) (next_event (b # s)))"
| "next_event s = None"

lemma next_event_shorter: "next_event s = Some (e, r) \<Longrightarrow> s = e @ r \<and> e \<noteq> []"
  by (induction s arbitrary: e r rule: next_event.induct) (auto split: if_split_asm)

text \<open>The inner loop: every complete event of the buffer, in order; an exception leaves the buffer
  at the event that caused it.\<close>

function drain ::
  "(pyfloat \<Rightarrow> pyfloat \<Rightarrow> pyfloat) \<Rightarrow> bool \<Rightarrow> string \<Rightarrow> sse \<Rightarrow> string \<Rightarrow> unit raises \<times> string \<times> sse \<times> string"
where
  "drain fadd cu buf s out =
     (case next_event buf of
        None \<Rightarrow> (Inr (), buf, s, out)
      | Some (ev, rest) \<Rightarrow>
          (case process_event fadd cu ev s of
             (Inl e, s1) \<Rightarrow> (Inl e, rest, s1, out)
           | (Inr keep, s1) \<Rightarrow> drain fadd cu rest s1 (if keep then out @ ev else out)))"
  by pat_completeness auto

termination drain
  by (relation "measure (\<lambda>(_, _, buf, _). length buf)") (auto dest!: next_event_shorter)

declare drain.simps [simp del]

text \<open>The outer loop; the second component counts the bytes received.\<close>

fun feed ::
  "(pyfloat \<Rightarrow> pyfloat \<Rightarrow> pyfloat) \<Rightarrow> bool \<Rightarrow> string list \<Rightarrow> nat \<Rightarrow> string \<Rightarrow> sse \<Rightarrow> string
    \<Rightarrow> unit raises \<times> nat \<times> string \<times> sse \<times> string" where
  "feed fadd cu [] n buf s out = (Inr (), n, buf, s, out)"
| "feed fadd cu (chunk # chunks) n buf s out =
     (case drain fadd cu (buf @ chunk) s out of
        (Inl e, buf1, s1, out1) \<Rightarrow> (Inl e, n + length chunk, buf1, s1, out1)
      | (Inr _, buf1, s1, out1) \<Rightarrow> feed fadd cu chunks (n + length chunk) buf1 s1 out1)"

definition flush_rest ::
  "(pyfloat \<Rightarrow> pyfloat \<Rightarrow> pyfloat) \<Rightarrow> bool \<Rightarrow> string \<Rightarrow> sse \<Rightarrow> string \<Rightarrow> unit raises \<times> sse \<times> string" where
  "flush_rest fadd cu buf s out =
     (if buf = [] then (Inr (), s, out)
      else (case process_event fadd cu buf s of
          (Inl e, s1) \<Rightarrow> (Inl e, s1, out)
        | (Inr keep, s1) \<Rightarrow> (Inr (), s1, if keep then out @ buf else out)))"

subsection \<open>_forward_stream\<close>

record stream_reply =
  sp_status :: int
  sp_headers :: "string dict"
  sp_media :: string
  sp_bytes :: string
  sp_end :: "unit raises"

datatype reply = Whole response | Streamed stream_reply

definition as_reply :: "'enc outcome \<Rightarrow> reply raises \<times> call_record \<times> 'enc proxy" where
  "as_reply out = (case out of (Inl e, r, px) \<Rightarrow> (Inl e, r, px) | (Inr resp, r, px) \<Rightarrow> (Inr (Whole resp), r, px))"

definition stream_options :: "pyval dict \<Rightarrow> pyval dict raises" where
  "stream_options body = as_dict (por (vget body ''stream_options'') (PDict []))"

definition outbound_body :: "bool \<Rightarrow> bool \<Rightarrow> pyval dict \<Rightarrow> pyval dict \<Rightarrow> pyval dict" where
  "outbound_body force client_usage so body =
     (if force \<and> \<not> client_usage
      then dset ''stream_options'' (PDict (dset ''include_usage'' (PBool True) so)) body else body)"

text \<open>What the body loop leaves: how it ended, the record and the bytes passed on.\<close>

definition count_bytes :: "clock \<Rightarrow> string list \<Rightarrow> nat \<Rightarrow> sse \<Rightarrow> sse" where
  "count_bytes ck chunks n s =
     s\<lparr>ss_rec := (if chunks = [] then id else mark_first_byte ck)
        ((ss_rec s)\<lparr>cr_response_bytes := cr_response_bytes (ss_rec s) + n\<rparr>)\<rparr>"

definition stream_failed :: "clock \<Rightarrow> int \<Rightarrow> string \<Rightarrow> string \<Rightarrow> sse \<Rightarrow> sse" where
  "stream_failed ck status err_type message s =
     s\<lparr>ss_rec := fail_text status err_type message (mark_upstream_end ck (ss_rec s))\<rparr>"

definition stream_succeeded :: "clock \<Rightarrow> sse \<Rightarrow> sse" where
  "stream_succeeded ck s = s\<lparr>ss_rec := (mark_upstream_end ck (ss_rec s))\<lparr>cr_status := ''success''\<rparr>\<rparr>"

definition run_body ::
  "(pyfloat \<Rightarrow> pyfloat \<Rightarrow> pyfloat) \<Rightarrow> bool \<Rightarrow> clock \<Rightarrow> string list \<Rightarrow> stream_end \<Rightarrow> call_record
    \<Rightarrow> unit raises \<times> sse \<times> string" where
  "run_body fadd cu ck chunks fin r =
     (let (x, n, buf, s, out) = feed fadd cu chunks 0 [] \<lparr>ss_rec = r, ss_text = []\<rparr> [] in
      case x of
        Inl e \<Rightarrow> (Inl e, count_bytes ck chunks n s, out)
      | Inr _ \<Rightarrow>
          (case fin of
             Finished \<Rightarrow>
               (case flush_rest fadd cu buf s out of
                  (Inl e, s1, out1) \<Rightarrow> (Inl e, count_bytes ck chunks n s1, out1)
                | (Inr _, s1, out1) \<Rightarrow> (Inr (), stream_succeeded ck (count_bytes ck chunks n s1), out1))
           | Timed_Out name msg \<Rightarrow>
               (Inl (HttpxError name msg),
                stream_failed ck 504 ''upstream_timeout'' (transport_text name msg)
                  (count_bytes ck chunks n s), out)
           | Broken name msg \<Rightarrow>
               (Inl (HttpxError name msg),
                stream_failed ck 502 ''upstream_stream_error'' (transport_text name msg)
                  (count_bytes ck chunks n s), out)
           | Cancelled \<Rightarrow>
               (Inl CancelledError,
                stream_failed ck 499 ''client_disconnected''
                  ''client closed the connection before the stream completed''
                  (count_bytes ck chunks n s), out)))"

definition finish_stream ::
  "'enc packages \<Rightarrow> clock \<Rightarrow> unit raises \<Rightarrow> sse \<Rightarrow> 'enc proxy \<Rightarrow> unit raises \<times> call_record \<times> 'enc proxy"
where
  "finish_stream pk ck ended s px =
     (let r = mark_done ck (ss_rec s)\<lparr>cr_local_completion_text := Some (concat (ss_text s))\<rparr>;
          (stored, px1) = append_body ck ''RESPONSE_BODY'' (cr_request_id r)
             (PDict [(''stream'', PBool True), (''content'', PStr (concat (ss_text s))),
                     (''finish_reason'', cr_finish_reason r)]) px
      in case stored of
           Inl e \<Rightarrow> (Inl e, r, px1)
         | Inr _ \<Rightarrow>
             (case log_call pk ck r px1 of
                (Inl e, r', px') \<Rightarrow> (Inl e, r', px')
              | (Inr _, r', px') \<Rightarrow> (ended, r', px')))"

definition stream_error_answer ::
  "'enc packages \<Rightarrow> clock \<Rightarrow> int \<Rightarrow> headers \<Rightarrow> string \<Rightarrow> pyval \<Rightarrow> call_record \<Rightarrow> 'enc proxy
    \<Rightarrow> reply raises \<times> call_record \<times> 'enc proxy" where
  "stream_error_answer pk ck status h content payload r px =
     (case fail_call status ''upstream_error'' (upstream_message payload content) r of
        Inl e \<Rightarrow> (Inl e, r, px)
      | Inr r1 \<Rightarrow>
          (case log_call pk ck r1 px of
             (Inl e, r', px') \<Rightarrow> (Inl e, r', px')
           | (Inr _, r', px') \<Rightarrow>
               (Inr (Whole \<lparr>rs_status = status, rs_body = content,
                  rs_headers = [(REQUEST_ID_HEADER, cr_request_id r)],
                  rs_media = media_of h ''application/json''\<rparr>), r', px')))"

definition stream_error_reply ::
  "'enc packages \<Rightarrow> clock \<Rightarrow> int \<Rightarrow> headers \<Rightarrow> string list \<Rightarrow> stream_end \<Rightarrow> call_record \<Rightarrow> 'enc proxy
    \<Rightarrow> reply raises \<times> call_record \<times> 'enc proxy" where
  "stream_error_reply pk ck status h chunks fin r px =
     (case fin of
        Timed_Out name msg \<Rightarrow> (Inl (HttpxError name msg), r, px)
      | Broken name msg \<Rightarrow> (Inl (HttpxError name msg), r, px)
      | Cancelled \<Rightarrow> (Inl CancelledError, r, px)
      | Finished \<Rightarrow>
          let content = concat chunks;
              r1 = (mark_upstream_end ck (mark_first_byte ck r))\<lparr>cr_response_bytes := length content\<rparr>
          in case json_loads_bytes content of
               Inl e \<Rightarrow>
                 if e = JSONDecodeError then
                   stream_error_answer pk ck status h content PNone r1 px
                 else (Inl e, r1, px)
             | Inr payload \<Rightarrow> stream_error_answer pk ck status h content payload r1 px)"

definition stream_answer ::
  "'enc packages \<Rightarrow> clock \<Rightarrow> bool \<Rightarrow> int \<Rightarrow> headers \<Rightarrow> string list \<Rightarrow> stream_end \<Rightarrow> call_record \<Rightarrow> 'enc proxy
    \<Rightarrow> reply raises \<times> call_record \<times> 'enc proxy" where
  "stream_answer pk ck cu status h chunks fin r px =
     (let r1 = r\<lparr>cr_http_status := Some status\<rparr>;
          (ended, s, out) = run_body (pk_fadd pk) cu ck chunks fin r1;
          (final, r', px') = finish_stream pk ck ended s px
      in (Inr (Streamed \<lparr>sp_status = status, sp_headers = out_headers r1,
            sp_media = media_of h ''text/event-stream'', sp_bytes = out, sp_end = final\<rparr>), r', px'))"

definition forward_stream ::
  "'enc packages \<Rightarrow> clock \<Rightarrow> (up_request \<Rightarrow> stream_result) \<Rightarrow> http_request \<Rightarrow> pyval dict \<Rightarrow> call_record
    \<Rightarrow> 'enc proxy \<Rightarrow> reply raises \<times> call_record \<times> 'enc proxy" where
  "forward_stream pk ck send rq body r px =
     (case stream_options body of
        Inl e \<Rightarrow> (Inl e, r, px)
      | Inr so \<Rightarrow>
          let cu = (truthy (vget so ''include_usage'') \<or> cr_endpoint r = ''responses'');
              force = force_stream_usage (px_settings px);
              body1 = outbound_body force cu so body;
              r0 = (if force \<and> \<not> cu
                    then r\<lparr>cr_request_modifications :=
                             cr_request_modifications r @ [''stream_options.include_usage=true'']\<rparr>
                    else r);
              r1 = mark_upstream_start ck r0
          in case send \<lparr>up_method = ''POST'', up_path = cr_upstream_path r,
                  up_content = Some (json_dumps Spaced_Ascii (PDict body1)),
                  up_headers = dset ''content-type'' ''application/json''
                    (upstream_headers (px_settings px) (rq_headers rq))\<rparr> of
               Send_Timeout name msg \<Rightarrow>
                 as_reply (refuse pk ck 504 (''upstream_timeout'', transport_text name msg)
                   (''upstream_timeout'', ''upstream timeout: '' @ name) (mark_upstream_end ck r1) px)
             | Send_Error name msg \<Rightarrow>
                 as_reply (refuse pk ck 502 (''upstream_unreachable'', transport_text name msg)
                   (''upstream_unreachable'', ''upstream unreachable: '' @ transport_text name msg)
                   (mark_upstream_end ck r1) px)
             | Stream status h chunks fin \<Rightarrow>
                 let r2 = r1\<lparr>cr_upstream_http_status := Some status,
                             cr_upstream_request_id := h ''x-request-id''\<rparr>
                 in if status < 200 \<or> 300 \<le> status
                    then stream_error_reply pk ck status h chunks fin r2 px
                    else stream_answer pk ck cu status h chunks fin r2 px)"

end
