(* ===== verification/Sse_Facts.thy ===== *)
theory Sse_Facts
  imports Sse_Stream
begin

section \<open>What streaming guarantees\<close>

text \<open>
  The theorems on the body of a streamed call: independence of the chunks, transparency, and one
  logged event for every ending.
\<close>

subsection \<open>Chunks do not matter\<close>

lemma next_event_append: "next_event a = Some (e, r) \<Longrightarrow> next_event (a @ b) = Some (e, r @ b)"
  by (induction a arbitrary: e r rule: next_event.induct) (auto split: if_split_asm)

lemma drain_None: "next_event buf = None \<Longrightarrow> drain fadd cu buf s out = (Inr (), buf, s, out)"
  by (simp add: drain.simps)

lemma drain_Some: "next_event buf = Some (ev, rest) \<Longrightarrow> drain fadd cu buf s out =
    (case process_event fadd cu ev s of
       (Inl e, s1) \<Rightarrow> (Inl e, rest, s1, out)
     | (Inr keep, s1) \<Rightarrow> drain fadd cu rest s1 (if keep then out @ ev else out))"
  by (simp add: drain.simps [of fadd cu buf])

lemma drain_append:
  "drain fadd cu (a @ b) s out =
     (case drain fadd cu a s out of
        (Inl e, rest, s1, out1) \<Rightarrow> (Inl e, rest @ b, s1, out1)
      | (Inr _, rest, s1, out1) \<Rightarrow> drain fadd cu (rest @ b) s1 out1)"
proof (induction fadd cu a s out rule: drain.induct)
  case (1 fadd cu a s out)
  show ?case
  proof (cases "next_event a")
    case None
    then show ?thesis by (simp add: drain_None)
  next
    case (Some p)
    obtain ev rest where p: "next_event a = Some (ev, rest)" using Some by (cases p) auto
    obtain x s1 where pe: "process_event fadd cu ev s = (x, s1)" by fastforce
    show ?thesis
    proof (cases x)
      case (Inl e)
      then show ?thesis by (simp add: drain_Some [OF p] drain_Some [OF next_event_append [OF p]] pe)
    next
      case (Inr k)
      with 1 [OF p refl pe [symmetric] Inr] show ?thesis
        by (simp add: drain_Some [OF p] drain_Some [OF next_event_append [OF p]] pe Inr)
    qed
  qed
qed

lemma drain_rest: "drain fadd cu buf s out = (Inr u, rest, s1, out1) \<Longrightarrow> next_event rest = None"
proof (induction fadd cu buf s out rule: drain.induct)
  case (1 fadd cu buf s out)
  show ?case
  proof (cases "next_event buf")
    case None
    with 1(2) show ?thesis by (simp add: drain_None)
  next
    case (Some p)
    obtain ev rest' where p: "next_event buf = Some (ev, rest')" using Some by (cases p) auto
    obtain x s1' where pe: "process_event fadd cu ev s = (x, s1')" by fastforce
    with 1(2) p obtain k where x: "x = Inr k" by (cases x) (auto simp: drain_Some)
    from 1(1) [OF p refl pe [symmetric] x] 1(2) show ?thesis by (simp add: drain_Some [OF p] pe x)
  qed
qed

lemma feed_drain:
  assumes "next_event buf = None"
  shows "case feed fadd cu chunks n buf s out of
      (Inl e, m, buf', s', out') \<Rightarrow> \<exists>rest. drain fadd cu (buf @ concat chunks) s out = (Inl e, rest, s', out')
    | (Inr _, m, buf', s', out') \<Rightarrow> m = n + length (concat chunks) \<and>
        drain fadd cu (buf @ concat chunks) s out = (Inr (), buf', s', out')"
  using assms
proof (induction chunks arbitrary: n buf s out)
  case Nil
  then show ?case by (simp add: drain_None)
next
  case (Cons c chunks)
  obtain x buf1 s1 out1 where d: "drain fadd cu (buf @ c) s out = (x, buf1, s1, out1)"
    by (metis prod.exhaust)
  have app: "drain fadd cu (buf @ concat (c # chunks)) s out =
     (case x of Inl e \<Rightarrow> (Inl e, buf1 @ concat chunks, s1, out1)
      | Inr _ \<Rightarrow> drain fadd cu (buf1 @ concat chunks) s1 out1)"
    using drain_append [of fadd cu "buf @ c" "concat chunks" s out] by (cases x) (simp_all add: d)
  show ?case
  proof (cases x)
    case (Inl e)
    then show ?thesis using app by (simp add: d)
  next
    case (Inr u)
    from drain_rest [of fadd cu "buf @ c" s out u buf1 s1 out1] d Inr
    have "next_event buf1 = None" by simp
    from Cons.IH [OF this, where n = "n + length c" and s = s1 and out = out1] show ?thesis
      unfolding app by (simp add: d Inr add.assoc split: prod.splits sum.splits)
  qed
qed

lemma feed_chunks:
  assumes "concat chunks = concat chunks'"
    and "feed fadd cu chunks 0 [] s [] = (x, n, buf, s1, out)"
    and "feed fadd cu chunks' 0 [] s [] = (x', n', buf', s1', out')"
  shows "x = x' \<and> s1 = s1' \<and> out = out' \<and> (x = Inr () \<longrightarrow> n = n' \<and> buf = buf')"
proof -
  have n: "next_event [] = None" by simp
  note d = feed_drain [OF n, where fadd = fadd and cu = cu and n = 0 and s = s and out = "[]"]
  show ?thesis using d [of chunks] d [of chunks'] assms(1) unfolding assms(2,3)
    by (cases x; cases x'; auto)
qed

text \<open>C13: how the network cuts the body into chunks is invisible. Two streams with the same bytes
  and the same ending pass on the same bytes, end the same way and collect the same text; their
  records differ at most in the byte count, and not even there when the stream ends normally.\<close>

theorem stream_chunking:
  assumes "concat chunks = concat chunks'" "chunks = [] \<longleftrightarrow> chunks' = []"
    and "run_body fadd cu ck chunks fin r = (x, s, out)"
    and "run_body fadd cu ck chunks' fin r = (x', s', out')"
  shows "x = x' \<and> out = out' \<and> ss_text s = ss_text s' \<and>
     (\<exists>n. ss_rec s' = (ss_rec s)\<lparr>cr_response_bytes := n\<rparr>) \<and> (x = Inr () \<longrightarrow> s = s')"
proof -
  let ?s = "\<lparr>ss_rec = r, ss_text = []\<rparr>"
  obtain y n buf s1 o1 where f: "feed fadd cu chunks 0 [] ?s [] = (y, n, buf, s1, o1)"
    by (metis prod.exhaust)
  obtain y' n' buf' s1' o1' where f': "feed fadd cu chunks' 0 [] ?s [] = (y', n', buf', s1', o1')"
    by (metis prod.exhaust)
  note eq = feed_chunks [OF assms(1) f f']
  show ?thesis
  proof (cases y)
    case (Inl e)
    have y': "y' = Inl e" using eq Inl by simp
    have a: "x = Inl e \<and> out = o1 \<and> s = count_bytes ck chunks n s1"
      using assms(3) by (simp add: run_body_def f Inl)
    have "count_bytes ck chunks' n' s1 = count_bytes ck chunks n' s1"
      using assms(2) by (simp add: count_bytes_def)
    then have b: "x' = Inl e \<and> out' = o1 \<and> s' = count_bytes ck chunks n' s1"
      using assms(4) eq by (simp add: run_body_def f' y')
    have "ss_rec (count_bytes ck chunks n' s1)
        = (ss_rec (count_bytes ck chunks n s1))\<lparr>cr_response_bytes := cr_response_bytes (ss_rec s1) + n'\<rparr>"
      by (simp add: count_bytes_def mark_first_byte_def)
    moreover have "ss_text (count_bytes ck chunks n' s1) = ss_text (count_bytes ck chunks n s1)"
      by (simp add: count_bytes_def)
    ultimately show ?thesis using a b by auto
  next
    case (Inr u)
    have cb: "count_bytes ck chunks = count_bytes ck chunks'"
      using assms(2) by (simp add: count_bytes_def fun_eq_iff)
    have "y' = y" "n' = n" "buf' = buf" "s1' = s1" "o1' = o1" using eq Inr by auto
    then have "run_body fadd cu ck chunks fin r = run_body fadd cu ck chunks' fin r"
      unfolding run_body_def f f' cb by simp
    then have "s = s'" "x = x'" "out = out'" using assms(3,4) by simp_all
    moreover have "ss_rec s = (ss_rec s)\<lparr>cr_response_bytes := cr_response_bytes (ss_rec s)\<rparr>" by simp
    ultimately show ?thesis by metis
  qed
qed

definition sample_stream :: string where
  "sample_stream = ''data: {'' @ [CHR 0x22] @ ''choices'' @ [CHR 0x22] @ '':[]}'' @ [CHR 0x0A, CHR 0x0A]"

theorem stream_chunking_witness:
  "\<exists>x s out s'. run_body (\<lambda>x y. NaN) True sample_clock [sample_stream] Finished
        (new_record sample_clock sample_request ''/v1/chat/completions'') = (x, s, out)
     \<and> run_body (\<lambda>x y. NaN) True sample_clock [take 9 sample_stream, drop 9 sample_stream] Finished
        (new_record sample_clock sample_request ''/v1/chat/completions'') = (x, s', out)"
proof -
  let ?r = "new_record sample_clock sample_request ''/v1/chat/completions''"
  obtain x s out where a: "run_body (\<lambda>x y. NaN) True sample_clock [sample_stream] Finished ?r = (x, s, out)"
    by (metis prod.exhaust)
  obtain x' s' out' where b: "run_body (\<lambda>x y. NaN) True sample_clock
      [take 9 sample_stream, drop 9 sample_stream] Finished ?r = (x', s', out')"
    by (metis prod.exhaust)
  from stream_chunking [OF _ _ a b] a b show ?thesis by auto
qed

subsection \<open>Transparency\<close>

text \<open>The specification: the body is a list of events, each ending at a blank line except perhaps
  the last; an event is injected when one of its data lines reports usage and no choices.\<close>

function events_of :: "string \<Rightarrow> string list" where
  "events_of s =
     (case next_event s of
        None \<Rightarrow> if s = [] then [] else [s]
      | Some (e, r) \<Rightarrow> e # events_of r)"
  by pat_completeness auto

termination events_of
  by (relation "measure length") (auto dest!: next_event_shorter)

declare events_of.simps [simp del]

lemma concat_events: "concat (events_of s) = s"
proof (induction s rule: events_of.induct)
  case (1 s)
  show ?case
  proof (cases "next_event s")
    case None
    then show ?thesis by (simp add: events_of.simps [of s])
  next
    case (Some p)
    obtain e r where p: "next_event s = Some (e, r)" using Some by (cases p) auto
    have "events_of s = e # events_of r" by (subst events_of.simps) (simp add: p)
    then show ?thesis using 1 [OF p refl] next_event_shorter [OF p] by simp
  qed
qed

definition injected_line :: "string \<Rightarrow> bool" where
  "injected_line l \<longleftrightarrow>
     (case line_data l of
        None \<Rightarrow> False
      | Some data \<Rightarrow>
          (case json_loads_bytes data of
             Inr (PDict obj) \<Rightarrow> has_usage obj \<and> \<not> truthy (por (vget obj ''choices'') (PList []))
           | _ \<Rightarrow> False))"

definition injected :: "string \<Rightarrow> bool" where
  "injected ev \<longleftrightarrow> list_ex injected_line (py_split CHR 0x0A ev)"

lemma read_object_keep:
  assumes "read_object fadd cu obj s = (Inr k, s')"
  shows "k \<longleftrightarrow> cu \<or> \<not> (has_usage obj \<and> \<not> truthy (por (vget obj ''choices'') (PList [])))"
  using assms by (auto simp: read_object_def Let_def split: sum.splits prod.splits if_split_asm option.splits)

lemma read_line_keep:
  assumes "read_line fadd cu l s = (Inr k, s')" shows "k \<longleftrightarrow> cu \<or> \<not> injected_line l"
proof (cases "line_data l")
  case None
  then show ?thesis using assms by (simp add: read_line_def injected_line_def)
next
  case (Some data)
  then show ?thesis
    using assms read_object_keep [of fadd cu _ s k s']
    by (auto simp: read_line_def injected_line_def split: sum.splits if_split_asm pyval.splits)
qed

lemma read_lines_keep:
  "read_lines fadd cu ls keep s = (Inr k, s') \<Longrightarrow> k \<longleftrightarrow> keep \<and> (cu \<or> \<not> list_ex injected_line ls)"
proof (induction ls arbitrary: keep s)
  case (Cons l ls)
  obtain x s1 where l: "read_line fadd cu l s = (x, s1)" by fastforce
  with Cons.prems obtain b where x: "x = Inr b" by (cases x) auto
  with Cons.IH [of "keep \<and> b" s1] Cons.prems l read_line_keep [of fadd cu l s b s1] show ?case by auto
qed simp

lemma process_event_keep:
  "process_event fadd cu ev s = (Inr k, s') \<Longrightarrow> k \<longleftrightarrow> cu \<or> \<not> injected ev"
  unfolding process_event_def injected_def using read_lines_keep by blast

lemma drain_flush:
  assumes "drain fadd cu buf s out = (Inr u, rest, s1, out1)"
    and "flush_rest fadd cu rest s1 out1 = (Inr u', s2, out2)"
  shows "out2 = out @ concat (filter (\<lambda>ev. cu \<or> \<not> injected ev) (events_of buf))"
  using assms
proof (induction fadd cu buf s out rule: drain.induct)
  case (1 fadd cu buf s out)
  show ?case
  proof (cases "next_event buf")
    case None
    then have "rest = buf" "s1 = s" "out1 = out" using 1(2) by (simp_all add: drain_None)
    then show ?thesis
      using 1(3) None process_event_keep [of fadd cu buf s]
      by (auto simp: flush_rest_def events_of.simps [of buf] split: if_split_asm prod.splits sum.splits)
  next
    case (Some p)
    obtain ev r where p: "next_event buf = Some (ev, r)" using Some by (cases p) auto
    obtain x s' where pe: "process_event fadd cu ev s = (x, s')" by fastforce
    with 1(2) p obtain k where x: "x = Inr k" by (cases x) (auto simp: drain_Some)
    have k: "k \<longleftrightarrow> cu \<or> \<not> injected ev" using process_event_keep pe x by blast
    have "drain fadd cu r s' (if k then out @ ev else out) = (Inr u, rest, s1, out1)"
      using 1(2) by (simp add: drain_Some [OF p] pe x)
    from 1(1) [OF p refl pe [symmetric] x this 1(3)] k show ?thesis
      by (simp add: events_of.simps [of buf] p)
  qed
qed

text \<open>C14: a stream that ends normally is passed on event by event, in order and byte for byte, and
  nothing is withheld but usage-only events of a client that did not ask for usage; one that did
  gets exactly the provider's bytes.\<close>

theorem stream_transparent:
  assumes "run_body fadd cu ck chunks Finished r = (Inr (), s, out)"
  shows "out = concat (filter (\<lambda>ev. cu \<or> \<not> injected ev) (events_of (concat chunks)))
     \<and> concat (events_of (concat chunks)) = concat chunks
     \<and> (cu \<longrightarrow> out = concat chunks)
     \<and> cr_status (ss_rec s) = ''success''"
proof -
  obtain x n buf s1 out1 where f: "feed fadd cu chunks 0 [] \<lparr>ss_rec = r, ss_text = []\<rparr> [] = (x, n, buf, s1, out1)"
    by (metis prod.exhaust)
  obtain u where x: "x = Inr u" using assms f by (cases x) (auto simp: run_body_def)
  obtain y s2 out2 where fl: "flush_rest fadd cu buf s1 out1 = (y, s2, out2)" by (metis prod.exhaust)
  obtain u' where y: "y = Inr u'" using assms f x fl by (cases y) (auto simp: run_body_def)
  have out: "out2 = out" and st: "cr_status (ss_rec s) = ''success''"
    using assms f x fl y by (auto simp: run_body_def stream_succeeded_def)
  have n: "next_event [] = None" by simp
  have "drain fadd cu (concat chunks) \<lparr>ss_rec = r, ss_text = []\<rparr> [] = (Inr (), buf, s1, out1)"
    using feed_drain [OF n, where fadd = fadd and cu = cu and n = 0 and out = "[]" and chunks = chunks
        and s = "\<lparr>ss_rec = r, ss_text = []\<rparr>"] unfolding f x by simp
  from drain_flush [OF this fl [unfolded y]] out st concat_events [of "concat chunks"] show ?thesis by simp
qed

theorem stream_transparent_witness:
  "\<exists>s out. run_body (\<lambda>x y. NaN) False sample_clock [''data: x'', [CHR 0x0A]] Finished
        (new_record sample_clock sample_request ''/v1/chat/completions'') = (Inr (), s, out)
     \<and> out = concat (filter (\<lambda>ev. \<not> injected ev) (events_of (''data: x'' @ [CHR 0x0A])))"
proof -
  let ?r = "new_record sample_clock sample_request ''/v1/chat/completions''"
  obtain x s out where a: "run_body (\<lambda>x y. NaN) False sample_clock [''data: x'', [CHR 0x0A]] Finished ?r
    = (x, s, out)" by (metis prod.exhaust)
  have "fst (process_event (\<lambda>x y. NaN) False (''data: x'' @ [CHR 0x0A]) \<lparr>ss_rec = ?r, ss_text = []\<rparr>) = Inr True"
    by code_simp
  then have "x = Inr ()" using a
    by (auto simp: run_body_def drain_None flush_rest_def split: prod.splits sum.splits)
  with stream_transparent [of "\<lambda>x y. NaN" False sample_clock _ ?r s out] a show ?thesis by fastforce
qed

subsection \<open>One event for every ending\<close>

definition kept :: "call_record \<Rightarrow> string \<times> bool \<times> int option \<times> string" where
  "kept r = (cr_request_id r, cr_logged r, cr_http_status r, cr_status r)"

lemma kept_absorb: "absorb_usage fadd p r = (x, r') \<Longrightarrow> kept r' = kept r"
  by (auto simp: absorb_usage_def kept_def Let_def split: pyval.splits if_split_asm sum.splits)

lemma kept_choice: "read_choice c s = (x, s') \<Longrightarrow> kept (ss_rec s') = kept (ss_rec s)"
  by (auto simp: read_choice_def kept_def Let_def split: pyval.splits if_split_asm sum.splits)

lemma kept_choices: "read_choices cs s = (x, s') \<Longrightarrow> kept (ss_rec s') = kept (ss_rec s)"
proof (induction cs arbitrary: s)
  case (Cons c cs)
  obtain y s1 where c: "read_choice c s = (y, s1)" by fastforce
  with Cons show ?case using kept_choice [OF c] by (cases y) auto
qed simp

lemma kept_model: "kept (ss_rec (note_model obj s)) = kept (ss_rec s)"
  by (simp add: note_model_def kept_def split: pyval.split)

lemma kept_with_usage: "with_usage fadd p s = (x, s') \<Longrightarrow> kept (ss_rec s') = kept (ss_rec s)"
  by (auto simp: with_usage_def split: prod.splits dest: kept_absorb)

lemma kept_object:
  assumes "read_object fadd cu obj s = (x, s')" shows "kept (ss_rec s') = kept (ss_rec s)"
proof (cases "py_iter (por (vget obj ''choices'') (PList []))")
  case (Inl e)
  then show ?thesis using assms kept_model by (auto simp: read_object_def)
next
  case (Inr cs)
  obtain y s1 where c: "read_choices cs (note_model obj s) = (y, s1)" by fastforce
  have 1: "kept (ss_rec s1) = kept (ss_rec s)" using kept_choices [OF c] kept_model by simp
  have "s' = s1 \<or> (\<exists>p z. with_usage fadd p s1 = (z, s'))"
    using assms Inr c by (auto simp: read_object_def Let_def split: sum.splits prod.splits if_split_asm option.splits)
  with 1 kept_with_usage show ?thesis by metis
qed

lemma kept_line: "read_line fadd cu l s = (x, s') \<Longrightarrow> kept (ss_rec s') = kept (ss_rec s)"
  by (auto simp: read_line_def split: option.splits sum.splits if_split_asm pyval.splits dest: kept_object)

lemma kept_lines: "read_lines fadd cu ls keep s = (x, s') \<Longrightarrow> kept (ss_rec s') = kept (ss_rec s)"
proof (induction ls arbitrary: keep s)
  case (Cons l ls)
  obtain y s1 where l: "read_line fadd cu l s = (y, s1)" by fastforce
  then show ?case using Cons.prems Cons.IH kept_line [OF l] by (cases y) auto
qed simp

lemma kept_event: "process_event fadd cu ev s = (x, s') \<Longrightarrow> kept (ss_rec s') = kept (ss_rec s)"
  unfolding process_event_def by (rule kept_lines)

lemma kept_drain: "drain fadd cu buf s out = (x, b, s', o') \<Longrightarrow> kept (ss_rec s') = kept (ss_rec s)"
proof (induction fadd cu buf s out rule: drain.induct)
  case (1 fadd cu buf s out)
  show ?case
  proof (cases "next_event buf")
    case None
    then show ?thesis using 1(2) by (simp add: drain_None)
  next
    case (Some p)
    obtain ev r where p: "next_event buf = Some (ev, r)" using Some by (cases p) auto
    obtain y s1 where pe: "process_event fadd cu ev s = (y, s1)" by fastforce
    show ?thesis
    proof (cases y)
      case (Inl e)
      then show ?thesis using 1(2) kept_event [OF pe] by (simp add: drain_Some [OF p] pe)
    next
      case (Inr k)
      then show ?thesis using 1(1) [OF p refl pe [symmetric] Inr] 1(2) kept_event [OF pe]
        by (simp add: drain_Some [OF p] pe)
    qed
  qed
qed

lemma kept_feed: "feed fadd cu chunks n buf s out = (x, m, b, s', o') \<Longrightarrow> kept (ss_rec s') = kept (ss_rec s)"
proof (induction chunks arbitrary: n buf s out)
  case (Cons c chunks)
  obtain y b1 s1 o1 where d: "drain fadd cu (buf @ c) s out = (y, b1, s1, o1)" by (metis prod.exhaust)
  then show ?case using Cons.prems Cons.IH kept_drain [OF d] by (cases y) auto
qed simp

lemma kept_flush: "flush_rest fadd cu buf s out = (x, s', o') \<Longrightarrow> kept (ss_rec s') = kept (ss_rec s)"
  by (auto simp: flush_rest_def split: if_split_asm prod.splits sum.splits dest: kept_event)

lemma kept_count: "kept (ss_rec (count_bytes ck chunks n s)) = kept (ss_rec s)"
  by (simp add: count_bytes_def kept_def mark_first_byte_def)

lemma kept_failed: "kept (ss_rec (stream_failed ck st ty m s)) =
    (cr_request_id (ss_rec s), cr_logged (ss_rec s), Some st, ''error'')"
  by (simp add: stream_failed_def kept_def fail_text_def mark_upstream_end_def)

lemma kept_succeeded: "kept (ss_rec (stream_succeeded ck s)) =
    (cr_request_id (ss_rec s), cr_logged (ss_rec s), cr_http_status (ss_rec s), ''success'')"
  by (simp add: stream_succeeded_def kept_def mark_upstream_end_def)

lemma run_body_kept:
  assumes "run_body fadd cu ck chunks fin r = (x, s, out)"
  shows "(x = Inr () \<and> kept (ss_rec s) = (cr_request_id r, cr_logged r, cr_http_status r, ''success'')) \<or>
    (x \<noteq> Inr () \<and> kept (ss_rec s) = kept r) \<or>
    (x \<noteq> Inr () \<and> (\<exists>st. kept (ss_rec s) = (cr_request_id r, cr_logged r, Some st, ''error'')))"
proof -
  obtain y n buf s1 o1 where f: "feed fadd cu chunks 0 [] \<lparr>ss_rec = r, ss_text = []\<rparr> [] = (y, n, buf, s1, o1)"
    by (metis prod.exhaust)
  have k1: "kept (ss_rec (count_bytes ck chunks n s1)) = kept r"
    using kept_feed [OF f] by (simp add: kept_count)
  obtain z s2 o2 where fl: "flush_rest fadd cu buf s1 o1 = (z, s2, o2)" by (metis prod.exhaust)
  have k2: "kept (ss_rec (count_bytes ck chunks n s2)) = kept r"
    using kept_flush [OF fl] kept_feed [OF f] by (simp add: kept_count)
  have k: "(cr_request_id q, cr_logged q, a, b) = (cr_request_id r, cr_logged r, a, b)"
    "cr_http_status q = cr_http_status r" if "kept q = kept r" for q a b
    using that by (simp_all add: kept_def)
  show ?thesis
  proof (cases y)
    case (Inl e)
    with assms f k1 show ?thesis by (auto simp: run_body_def)
  next
    case y: (Inr u)
    show ?thesis
    proof (cases "fin = Finished")
      case True
      with assms f y fl k1 k2 k [OF k2] show ?thesis
        by (cases z) (auto simp: run_body_def kept_succeeded)
    next
      case False
      then have "x \<noteq> Inr () \<and> (\<exists>st ty m. s = stream_failed ck st ty m (count_bytes ck chunks n s1))"
        using assms f y by (cases fin) (auto simp: run_body_def)
      then show ?thesis using kept_failed k(1) [OF k1] by metis
    qed
  qed
qed

lemma mark_done_fields [simp]:
  "cr_request_id (mark_done ck r) = cr_request_id r" "cr_logged (mark_done ck r) = cr_logged r"
  "cr_status (mark_done ck r) = cr_status r" "cr_http_status (mark_done ck r) = cr_http_status r"
  by (simp_all add: mark_done_def)

lemma estimates_fields:
  assumes "estimates_only (mark_done ck (r\<lparr>cr_logged := True\<rparr>)) r'"
  shows "cr_request_id r' = cr_request_id r" "cr_logged r'" "cr_status r' = cr_status r"
    "cr_http_status r' = cr_http_status r"
  using assms by (auto simp: estimates_only_def)

lemma one_event_stream:
  assumes "\<not> cr_logged r" "cr_status r = ''error''" "\<not> log_closed (px_log px)" "px_bodies px = None"
    and "stream_answer pk ck cu status h chunks fin r px = (res, r', px')"
  shows "\<exists>sp. res = Inr (Streamed sp) \<and> sp_status sp = status \<and>
     dget (sp_headers sp) REQUEST_ID_HEADER = Some (cr_request_id r) \<and>
     cr_request_id r' = cr_request_id r \<and> cr_logged r' \<and>
     (appended ck (px_log px) (call_event r') (px_log px') \<or>
        sp_end sp = Inl UnicodeEncodeError \<and> log_file (px_log px') = log_file (px_log px)) \<and>
     (sp_end sp = Inr () \<longrightarrow> cr_status r' = ''success'' \<and> cr_http_status r' = Some status) \<and>
     (cr_status r' = ''success'' \<longrightarrow> sp_end sp = Inr () \<or> sp_end sp = Inl UnicodeEncodeError)"
proof -
  let ?r1 = "r\<lparr>cr_http_status := Some status\<rparr>"
  obtain x s out where b: "run_body (pk_fadd pk) cu ck chunks fin ?r1 = (x, s, out)" by (metis prod.exhaust)
  let ?q = "mark_done ck (ss_rec s)\<lparr>cr_local_completion_text := Some (concat (ss_text s))\<rparr>"
  obtain y r2 px2 where l: "log_call pk ck ?q px = (y, r2, px2)" by (metis prod.exhaust)
  note k = run_body_kept [OF b]
  have q: "\<not> cr_logged ?q" and id: "cr_request_id ?q = cr_request_id r"
    using k assms(1) by (auto simp: kept_def)
  note c = log_call_cases [OF l q assms(3)]
  note e = log_call_encoded [OF l q assms(3)]
  have store: "append_body ck ty i v px = (Inr (), px)" for ty i v
    using assms(4) by (simp add: append_body_def)
  have fin: "finish_stream pk ck x s px = (case y of Inl e \<Rightarrow> Inl e | Inr _ \<Rightarrow> x, r2, px2)"
    using store l by (cases y) (simp_all add: finish_stream_def Let_def)
  have res: "res = Inr (Streamed \<lparr>sp_status = status, sp_headers = out_headers ?r1,
      sp_media = media_of h ''text/event-stream'', sp_bytes = out,
      sp_end = (case y of Inl e \<Rightarrow> Inl e | Inr _ \<Rightarrow> x)\<rparr>)" "r' = r2" "px' = px2"
    using assms(5) by (simp_all add: stream_answer_def b fin Let_def)
  have f: "cr_request_id r2 = cr_request_id r" "cr_logged r2" "cr_status r2 = cr_status (ss_rec s)"
    "cr_http_status r2 = cr_http_status (ss_rec s)"
    using estimates_fields [OF c(1)] id by simp_all
  have hid: "dget (out_headers ?r1) REQUEST_ID_HEADER = Some (cr_request_id r)" by simp
  show ?thesis
  proof (cases y)
    case (Inl er)
    then have er: "er = UnicodeEncodeError" using c(3) by simp
    have "log_file (px_log px2) = log_file (px_log px)" using e(3) Inl by simp
    then show ?thesis using res f hid Inl er by simp
  next
    case (Inr u)
    have "appended ck (px_log px) (call_event r2) (px_log px2)" using c(3) Inr by simp
    moreover have "x = Inr () \<longrightarrow> cr_status r2 = ''success'' \<and> cr_http_status r2 = Some status"
      using k f by (auto simp: kept_def)
    moreover have "cr_status r2 = ''success'' \<longrightarrow> x = Inr ()" using k f assms(2) by (auto simp: kept_def)
    ultimately show ?thesis using res f hid Inr by simp
  qed
qed

text \<open>however a stream ends (normally, by a crash in the middle of an event, a timeout, a
  broken connection or the client going away) exactly one event is appended to the log, with the
  request's identifier and a status that is ''success'' exactly for the normal ending; the only
  way to lose it is an event that does not encode.\<close>

theorem stream_one_event:
  assumes "\<not> cr_logged r" "cr_status r = ''error''" "\<not> log_closed (px_log px)" "px_bodies px = None"
    and "stream_answer pk ck cu status h chunks fin r px = (res, r', px')"
  shows "\<exists>sp. res = Inr (Streamed sp) \<and> sp_status sp = status \<and>
     dget (sp_headers sp) REQUEST_ID_HEADER = Some (cr_request_id r) \<and>
     cr_request_id r' = cr_request_id r \<and> cr_logged r' \<and>
     (appended ck (px_log px) (call_event r') (px_log px') \<or>
        sp_end sp = Inl UnicodeEncodeError \<and> log_file (px_log px') = log_file (px_log px)) \<and>
     (sp_end sp = Inr () \<longrightarrow> cr_status r' = ''success'' \<and> cr_http_status r' = Some status) \<and>
     (cr_status r' = ''success'' \<longrightarrow> sp_end sp = Inr () \<or> sp_end sp = Inl UnicodeEncodeError)"
  using one_event_stream [OF assms] .

theorem stream_one_event_witness:
  "\<exists>sp r' px'. stream_answer sample_packages sample_clock True 200 (\<lambda>_. None) [''data: x''] Cancelled
       (new_record sample_clock sample_request ''/v1/chat/completions'') sample_proxy
     = (Inr (Streamed sp), r', px') \<and> sp_status sp = 200 \<and> cr_logged r'"
proof -
  let ?r = "new_record sample_clock sample_request ''/v1/chat/completions''"
  obtain res r' px' where a: "stream_answer sample_packages sample_clock True 200 (\<lambda>_. None) [''data: x'']
      Cancelled ?r sample_proxy = (res, r', px')" by (metis prod.exhaust)
  have "\<not> cr_logged ?r" "cr_status ?r = ''error''" "\<not> log_closed (px_log sample_proxy)" "px_bodies sample_proxy = None"
    by (simp_all add: new_record_def sample_proxy_def fresh_log_def)
  from stream_one_event [OF this a] a show ?thesis by blast
qed

text \<open>A body with CRLF line ends has no blank line the proxy sees: it is one event, and with
  injected usage in it the whole stream is withheld.\<close>

lemma crlf_is_one_event:
  "events_of (''data: a'' @ [CHR 0x0D, CHR 0x0A, CHR 0x0D, CHR 0x0A] @ ''data: b'')
     = [''data: a'' @ [CHR 0x0D, CHR 0x0A, CHR 0x0D, CHR 0x0A] @ ''data: b'']"
  by (subst events_of.simps) simp

end
