(* ===== verification/Proxy_App.thy ===== *)
theory Proxy_App
  imports Sse_Facts
begin

section \<open>The proxy application (\<open>proxy/app.py\<close>)\<close>

text \<open>
  The handlers of the proxy: the model calls with their attribution, body and forwarding, and the
  control plane that enters and leaves scopes. The main fact is \<open>one_event_per_answer\<close>: every
  model call that is answered is logged by exactly one \<open>MODEL_CALL\<close> event; a call whose handler
  lets an exception escape is not logged at all, and \<open>crash_*\<close> show requests that do that.
\<close>

definition PARAM_KEYS :: "string list" where
  "PARAM_KEYS = [''temperature'', ''max_tokens'', ''max_completion_tokens'', ''top_p'', ''n'', ''seed'',
     ''stream'', ''encoding_format'', ''dimensions'', ''response_format'']"

definition request_params :: "pyval dict \<Rightarrow> pyval dict" where
  "request_params body = List.map_filter (\<lambda>k. map_option (Pair k) (dget body k)) PARAM_KEYS"

definition set_param :: "string \<Rightarrow> pyval \<Rightarrow> call_record \<Rightarrow> call_record" where
  "set_param k v r = r\<lparr>cr_request_params := dset k v (cr_request_params r)\<rparr>"

subsection \<open>Reading the body of a call\<close>

definition note_tools :: "pyval dict \<Rightarrow> call_record \<Rightarrow> call_record raises" where
  "note_tools body r =
     (if dhas body ''tools'' \<or> dhas body ''functions'' then
        bindE (py_len_of (por (vget body ''tools'') (por (vget body ''functions'') (PList []))))
          (\<lambda>n. Inr (set_param ''tools'' (PInt (int n)) r))
      else Inr r)"

definition note_chat :: "pyval dict \<Rightarrow> call_record \<Rightarrow> call_record raises" where
  "note_chat body r =
     bindE (py_len_of (por (vget body ''messages'') (PList []))) (\<lambda>n.
       Inr ((set_param ''messages'' (PInt (int n)) r)
              \<lparr>cr_local_messages := vget body ''messages'', cr_stream := truthy (vget body ''stream'')\<rparr>))"

definition response_messages :: "pyval \<Rightarrow> nat \<times> pyval" where
  "response_messages inp =
     (case inp of
        PList xs \<Rightarrow> (length xs, inp)
      | PStr s \<Rightarrow> (1, PList [PDict [(''role'', PStr ''user''), (''content'', PStr s)]])
      | _ \<Rightarrow> (0, PNone))"

definition text_format :: "pyval dict \<Rightarrow> pyval" where
  "text_format body =
     (case vget body ''text'' of PDict t \<Rightarrow> por (vget t ''format'') (PDict []) | _ \<Rightarrow> PDict [])"

definition note_format :: "pyval dict \<Rightarrow> call_record \<Rightarrow> call_record raises" where
  "note_format body r =
     bindE (as_dict (text_format body)) (\<lambda>fmt.
       Inr (if truthy (vget fmt ''type'')
            then set_param ''response_format'' (PDict [(''type'', vget fmt ''type''), (''name'', vget fmt ''name'')]) r
            else r))"

definition note_responses :: "pyval dict \<Rightarrow> call_record \<Rightarrow> call_record raises" where
  "note_responses body r =
     (let (n, msgs) = response_messages (vget body ''input'');
          r1 = (set_param ''messages'' (PInt (int n)) r)\<lparr>cr_local_messages := msgs\<rparr>
      in bindE (note_format body r1) (\<lambda>r2.
        let r3 = (if dhas body ''max_output_tokens''
                  then set_param ''max_tokens'' (vget body ''max_output_tokens'') r2 else r2)
        in Inr (r3\<lparr>cr_stream := truthy (vget body ''stream'')\<rparr>)))"

definition note_embeddings :: "pyval dict \<Rightarrow> call_record \<Rightarrow> call_record" where
  "note_embeddings body r =
     r\<lparr>cr_embedding_inputs := embedding_input_count (vget body ''input''),
       cr_local_embedding_input := vget body ''input''\<rparr>"

definition note_body :: "pyval dict \<Rightarrow> call_record \<Rightarrow> call_record raises" where
  "note_body body r =
     (let r1 = r\<lparr>cr_model := str_option (vget body ''model''), cr_request_params := request_params body\<rparr> in
      bindE (note_tools body r1) (\<lambda>r2.
        if cr_endpoint r2 = ''chat'' then note_chat body r2
        else if cr_endpoint r2 = ''responses'' then note_responses body r2
        else Inr (note_embeddings body r2)))"

text \<open>\<open>json.loads\<close> and the check that the body is an object; every \<open>ValueError\<close> is caught.\<close>

definition parse_body :: "string \<Rightarrow> pyval dict raises" where
  "parse_body bytes =
     bindE (json_loads_bytes bytes) (\<lambda>v.
       case v of PDict d \<Rightarrow> Inr d | _ \<Rightarrow> Inl (ValueError ''body is not a JSON object''))"

subsection \<open>handle_model_request\<close>

definition default_operation :: "call_record \<Rightarrow> call_record" where
  "default_operation r =
     (let a = cr_attribution r in
      if cr_endpoint r = ''models'' \<and> \<not> dhas (att_tags a) ''operation''
      then r\<lparr>cr_attribution := a\<lparr>att_tags := dset ''operation'' (PStr ''meta'') (att_tags a),
                                att_sources := dset ''operation'' ''default'' (att_sources a)\<rparr>\<rparr>
      else r)"

definition has_body :: "call_record \<Rightarrow> bool" where
  "has_body r \<longleftrightarrow> cr_endpoint r \<in> {''chat'', ''embeddings'', ''responses''}"

definition forward ::
  "'enc packages \<Rightarrow> clock \<Rightarrow> (up_request \<Rightarrow> up_result) \<Rightarrow> (up_request \<Rightarrow> stream_result) \<Rightarrow> http_request
    \<Rightarrow> pyval dict \<Rightarrow> call_record \<Rightarrow> 'enc proxy \<Rightarrow> reply raises \<times> call_record \<times> 'enc proxy" where
  "forward pk ck up send rq body r px =
     (if cr_endpoint r \<in> {''chat'', ''responses''} \<and> cr_stream r
      then forward_stream pk ck send rq body r px
      else as_reply (forward_simple pk ck up rq
             (if cr_endpoint r \<noteq> ''models'' then Some (rq_body rq) else None) r px))"

definition with_body ::
  "'enc packages \<Rightarrow> clock \<Rightarrow> (up_request \<Rightarrow> up_result) \<Rightarrow> (up_request \<Rightarrow> stream_result) \<Rightarrow> http_request
    \<Rightarrow> call_record \<Rightarrow> 'enc proxy \<Rightarrow> reply raises \<times> call_record \<times> 'enc proxy" where
  "with_body pk ck up send rq r px =
     (case parse_body (rq_body rq) of
        Inl e \<Rightarrow>
          if is_value_error e then
            as_reply (refuse pk ck 400 (''invalid_request_body'', exc_text e)
              (''invalid_request_error'', ''invalid JSON body: '' @ exc_text e) r px)
          else (Inl e, r, px)
      | Inr body \<Rightarrow>
          (case note_body body r of
             Inl e \<Rightarrow> (Inl e, r, px)
           | Inr r1 \<Rightarrow>
               (case append_body ck ''REQUEST_BODY'' (cr_request_id r1) (PDict body) px of
                  (Inl e, px1) \<Rightarrow> (Inl e, r1, px1)
                | (Inr _, px1) \<Rightarrow> forward pk ck up send rq body r1 px1)))"

definition read_request :: "'enc packages \<Rightarrow> http_request \<Rightarrow> call_record \<Rightarrow> call_record" where
  "read_request pk rq r =
     r\<lparr>cr_request_bytes := length (rq_body rq),
       cr_request_sha256 := (if rq_body rq = [] then None else Some (pk_sha256 pk (rq_body rq)))\<rparr>"

definition handle_model_request ::
  "'enc packages \<Rightarrow> clock \<Rightarrow> (up_request \<Rightarrow> up_result) \<Rightarrow> (up_request \<Rightarrow> stream_result) \<Rightarrow> http_request
    \<Rightarrow> string option \<Rightarrow> string \<Rightarrow> 'enc proxy \<Rightarrow> reply raises \<times> call_record \<times> 'enc proxy" where
  "handle_model_request pk ck up send rq path_token api_path px =
     (let r0 = new_record ck rq api_path; st = px_settings px;
          unsupported = rq_method rq @ '' '' @ api_path in
      case resolve_attribution (rq_headers rq) path_token (px_registry px) (allowed_systems st) of
        Inl (TagError m) \<Rightarrow>
          as_reply (refuse pk ck 400 (''invalid_attribution'', m)
            (''invalid_attribution'', ''invalid benchmark attribution: '' @ m) r0 px)
      | Inl e \<Rightarrow> (Inl e, r0, px)
      | Inr a \<Rightarrow>
          let r1 = default_operation (r0\<lparr>cr_attribution := a\<rparr>) in
          if require_attribution st \<and> unattributed (cr_attribution r1) then
            as_reply (refuse pk ck 400
              (''unattributed_request'', ''request carries no benchmark attribution (headers, token, or scope)'')
              (''unattributed_request'', ''request carries no benchmark attribution'') r1 px)
          else if cr_endpoint r1 = ''unsupported'' then
            as_reply (refuse pk ck 404 (''unsupported_endpoint'', unsupported @ '' is not proxied'')
              (''unsupported_endpoint'', unsupported @ '' is not supported by the benchmark proxy'') r1 px)
          else
            let r2 = read_request pk rq r1 in
            if has_body r2 then with_body pk ck up send rq r2 px else forward pk ck up send rq [] r2 px)"

text \<open>The two routes of the data plane.\<close>

definition v1_plain ::
  "'enc packages \<Rightarrow> clock \<Rightarrow> (up_request \<Rightarrow> up_result) \<Rightarrow> (up_request \<Rightarrow> stream_result) \<Rightarrow> http_request
    \<Rightarrow> string \<Rightarrow> 'enc proxy \<Rightarrow> reply raises \<times> call_record \<times> 'enc proxy" where
  "v1_plain pk ck up send rq path px = handle_model_request pk ck up send rq None (''/v1/'' @ path) px"

definition v1_tokenised ::
  "'enc packages \<Rightarrow> clock \<Rightarrow> (up_request \<Rightarrow> up_result) \<Rightarrow> (up_request \<Rightarrow> stream_result) \<Rightarrow> http_request
    \<Rightarrow> string \<Rightarrow> string \<Rightarrow> 'enc proxy \<Rightarrow> reply raises \<times> call_record \<times> 'enc proxy" where
  "v1_tokenised pk ck up send rq token path px =
     handle_model_request pk ck up send rq (Some token) (''/v1/'' @ path) px"

subsection \<open>Control plane\<close>

definition json_body :: "string \<Rightarrow> (response + pyval dict) raises" where
  "json_body bytes =
     (case json_loads_bytes (if bytes = [] then ''{}'' else bytes) of
        Inl e \<Rightarrow>
          if e = JSONDecodeError
          then Inr (Inl (error_response 400 (''invalid JSON body: '' @ exc_text e) ''invalid_request_error'' None))
          else Inl e
      | Inr (PDict d) \<Rightarrow> Inr (Inr d)
      | Inr _ \<Rightarrow> Inr (Inl (error_response 400 ''body must be a JSON object'' ''invalid_request_error'' None)))"

definition scope_event :: "string \<Rightarrow> string \<Rightarrow> string \<Rightarrow> string \<Rightarrow> scope \<Rightarrow> pyval dict" where
  "scope_event event_type now cid sid sc =
     [(''event_type'', PStr event_type), (''schema_version'', PInt EVENT_SCHEMA_VERSION),
      (''timestamp'', PStr now), (''client_id'', PStr cid), (''scope_id'', PStr sid),
      (''tags'', PDict (scope_tags sc))]"

definition log_control ::
  "clock \<Rightarrow> pyval dict \<Rightarrow> response \<Rightarrow> 'enc proxy \<Rightarrow> response raises \<times> 'enc proxy" where
  "log_control ck ev resp px =
     (case append_event (ck_stamp_log ck) (ck_accept ck) ev (px_log px) of
        (Inl e, lg) \<Rightarrow> (Inl e, px\<lparr>px_log := lg\<rparr>)
      | (Inr _, lg) \<Rightarrow> (Inr resp, px\<lparr>px_log := lg\<rparr>))"

definition enter_parts :: "settings \<Rightarrow> string \<Rightarrow> pyval dict \<Rightarrow> (pyval dict \<times> string \<times> string) raises" where
  "enter_parts st uuid body =
     bindE (as_dict (por (vget body ''tags'') (PDict []))) (\<lambda>raw.
     bindE (normalize_tags (Some (allowed_systems st)) raw) (\<lambda>tags.
       Inr (tags,
            py_str (por (vget body ''client_id'') (por (vget tags ''client_id'') (PStr []))),
            py_str (por (vget body ''scope_id'') (PStr uuid)))))"

definition scope_enter ::
  "clock \<Rightarrow> string \<Rightarrow> string \<Rightarrow> 'enc proxy \<Rightarrow> response raises \<times> 'enc proxy" where
  "scope_enter ck uuid bytes px =
     (case json_body bytes of
        Inl e \<Rightarrow> (Inl e, px)
      | Inr (Inl resp) \<Rightarrow> (Inr resp, px)
      | Inr (Inr body) \<Rightarrow>
          (case enter_parts (px_settings px) uuid body of
             Inl (TagError m) \<Rightarrow> (Inr (error_response 400 m ''invalid_scope'' None), px)
           | Inl e \<Rightarrow> (Inl e, px)
           | Inr (tags, cid, sid) \<Rightarrow>
               (case enter cid sid tags (ck_stamp_start ck) (px_registry px) of
                  (Inl (TagError m), reg) \<Rightarrow>
                    (Inr (error_response 400 m ''invalid_scope'' None), px\<lparr>px_registry := reg\<rparr>)
                | (Inl e, reg) \<Rightarrow> (Inl e, px\<lparr>px_registry := reg\<rparr>)
                | (Inr sc, reg) \<Rightarrow>
                    log_control ck (scope_event ''SCOPE_ENTER'' (ck_stamp_start ck) cid sid sc)
                      (json_response 200 (PDict [(''client_id'', PStr cid), (''scope_id'', PStr sid),
                          (''entered_at'', PStr (ck_stamp_start ck)),
                          (''active_scopes'', PInt (int (length (active reg (Some cid)))))]) [])
                      (px\<lparr>px_registry := reg\<rparr>))))"

definition scope_exit ::
  "clock \<Rightarrow> string \<Rightarrow> 'enc proxy \<Rightarrow> response raises \<times> 'enc proxy" where
  "scope_exit ck bytes px =
     (case json_body bytes of
        Inl e \<Rightarrow> (Inl e, px)
      | Inr (Inl resp) \<Rightarrow> (Inr resp, px)
      | Inr (Inr body) \<Rightarrow>
          let cid = py_str (por (vget body ''client_id'') (PStr []));
              sid = py_str (por (vget body ''scope_id'') (PStr [])) in
          (case exit cid sid (px_registry px) of
             (Inl (TagError m), reg) \<Rightarrow>
               (Inr (error_response 404 m ''unknown_scope'' None), px\<lparr>px_registry := reg\<rparr>)
           | (Inl e, reg) \<Rightarrow> (Inl e, px\<lparr>px_registry := reg\<rparr>)
           | (Inr sc, reg) \<Rightarrow>
               log_control ck (scope_event ''SCOPE_EXIT'' (ck_stamp_end ck) cid sid sc @
                   [(''entered_at'', PStr (entered_at sc))])
                 (json_response 200 (PDict [(''client_id'', PStr cid), (''scope_id'', PStr sid),
                     (''exited_at'', PStr (ck_stamp_end ck))]) [])
                 (px\<lparr>px_registry := reg\<rparr>)))"

definition scopes_view :: "'enc proxy \<Rightarrow> response" where
  "scopes_view px = json_response 200 (PDict [(''scopes'', PDict (snapshot (px_registry px)))]) []"

definition healthz :: "'enc proxy \<Rightarrow> response" where
  "healthz px = json_response 200 (PDict [(''ok'', PBool True),
     (''proxy_instance_id'', PStr (log_instance (px_log px))), (''seq'', PInt (log_seq (px_log px)))]) []"

subsection \<open>Every answer has its event\<close>

definition accounted_reply ::
  "clock \<Rightarrow> 'enc proxy \<Rightarrow> reply raises \<times> call_record \<times> 'enc proxy \<Rightarrow> bool" where
  "accounted_reply ck px out \<longleftrightarrow>
     (case out of
        (Inr (Whole resp), r', px') \<Rightarrow> accounted ck px (Inr resp, r', px')
      | (Inr (Streamed sp), r', px') \<Rightarrow>
          cr_logged r' \<and> dget (sp_headers sp) REQUEST_ID_HEADER = Some (cr_request_id r') \<and>
          (appended ck (px_log px) (call_event r') (px_log px') \<or> sp_end sp = Inl UnicodeEncodeError)
      | (Inl e, r', px') \<Rightarrow> log_file (px_log px') = log_file (px_log px))"

lemma as_reply_accounted: "accounted ck px out \<Longrightarrow> accounted_reply ck px (as_reply out)"
  by (cases out) (auto simp: as_reply_def accounted_reply_def accounted_def split: sum.splits)

lemma accounted_reply_cong: "px_log px = px_log px' \<Longrightarrow> accounted_reply ck px out = accounted_reply ck px' out"
  by (cases out) (auto simp: accounted_reply_def accounted_def split: sum.splits reply.splits)

lemma escaped_accounted: "accounted_reply ck px (Inl e, r, px)"
  by (simp add: accounted_reply_def)

text \<open>What the steps before forwarding leave untouched.\<close>

definition fresh_call :: "call_record \<Rightarrow> bool" where
  "fresh_call r \<longleftrightarrow> \<not> cr_logged r \<and> cr_status r = ''error'' \<and> cr_request_id r \<noteq> []"

lemma fresh_fields [simp]:
  "fresh_call (r\<lparr>cr_model := a\<rparr>) = fresh_call r"
  "fresh_call (r\<lparr>cr_request_params := b\<rparr>) = fresh_call r"
  "fresh_call (r\<lparr>cr_local_messages := c\<rparr>) = fresh_call r"
  "fresh_call (r\<lparr>cr_stream := d\<rparr>) = fresh_call r"
  "fresh_call (r\<lparr>cr_embedding_inputs := e\<rparr>) = fresh_call r"
  "fresh_call (r\<lparr>cr_local_embedding_input := f\<rparr>) = fresh_call r"
  "fresh_call (r\<lparr>cr_request_modifications := g\<rparr>) = fresh_call r"
  "fresh_call (r\<lparr>cr_upstream_http_status := h\<rparr>) = fresh_call r"
  "fresh_call (r\<lparr>cr_upstream_request_id := i\<rparr>) = fresh_call r"
  "fresh_call (r\<lparr>cr_response_bytes := j\<rparr>) = fresh_call r"
  "fresh_call (r\<lparr>cr_http_status := k\<rparr>) = fresh_call r"
  "fresh_call (r\<lparr>cr_attribution := l\<rparr>) = fresh_call r"
  by (simp_all add: fresh_call_def)

lemma fresh_set_param [simp]: "fresh_call (set_param k v r) = fresh_call r"
  by (simp add: set_param_def)

lemma fresh_notes:
  "note_tools body r = Inr r' \<Longrightarrow> fresh_call r' = fresh_call r"
  "note_chat body r = Inr r' \<Longrightarrow> fresh_call r' = fresh_call r"
  "note_format body r = Inr r' \<Longrightarrow> fresh_call r' = fresh_call r"
  by (auto simp: note_tools_def note_chat_def note_format_def bindE_Inr split: if_split_asm)

lemma fresh_note_responses: "note_responses body r = Inr r' \<Longrightarrow> fresh_call r' = fresh_call r"
  by (auto simp: note_responses_def bindE_Inr Let_def split: prod.splits if_split_asm dest!: fresh_notes(3))

lemma fresh_note_body:
  assumes "note_body body r = Inr r'" "fresh_call r" shows "fresh_call r'"
proof -
  let ?r1 = "r\<lparr>cr_model := str_option (vget body ''model''), cr_request_params := request_params body\<rparr>"
  obtain r2 where t: "note_tools body ?r1 = Inr r2" and
    r2: "note_chat body r2 = Inr r' \<or> note_responses body r2 = Inr r' \<or> r' = note_embeddings body r2"
    using assms(1) by (auto simp: note_body_def Let_def bindE_Inr split: if_split_asm)
  have "fresh_call r2" using fresh_notes(1) [OF t] assms(2) by simp
  then show ?thesis using r2 fresh_notes(2) fresh_note_responses by (auto simp: note_embeddings_def)
qed

lemma fresh_new_record: "rq_id rq \<noteq> [] \<Longrightarrow> fresh_call (new_record ck rq p)"
  by (simp add: fresh_call_def new_record_def)

lemma fresh_updates:
  "fresh_call r \<Longrightarrow> fresh_call (default_operation (r\<lparr>cr_attribution := a\<rparr>))"
  "fresh_call r \<Longrightarrow> fresh_call (read_request pk rq r)"
  "fresh_call r \<Longrightarrow> fresh_call (mark_upstream_start ck r)"
  "fresh_call r \<Longrightarrow> fresh_call (mark_upstream_end ck r)"
  "fresh_call r \<Longrightarrow> fresh_call (mark_first_byte ck r)"
  by (simp_all add: fresh_call_def default_operation_def read_request_def Let_def
      mark_upstream_start_def mark_upstream_end_def mark_first_byte_def)

lemma refuse_reply:
  "fresh_call r \<Longrightarrow> \<not> log_closed (px_log px) \<Longrightarrow>
   accounted_reply ck px (as_reply (refuse pk ck st rec ans r px))"
  by (intro as_reply_accounted refuse_accounted) (simp_all add: fresh_call_def)

lemma stream_error_answer_accounted:
  assumes "fresh_call r" "\<not> log_closed (px_log px)"
  shows "accounted_reply ck px (stream_error_answer pk ck st h content payload r px)"
proof (cases "fail_call st ''upstream_error'' (upstream_message payload content) r")
  case (Inl e)
  then show ?thesis by (simp add: stream_error_answer_def escaped_accounted)
next
  case (Inr r1)
  have f: "cr_request_id r1 = cr_request_id r" "\<not> cr_logged r1" "cr_http_status r1 = Some st"
    using core_fail_call [OF Inr] assms(1) by (simp_all add: core_def fresh_call_def)
  obtain y r2 px2 where l: "log_call pk ck r1 px = (y, r2, px2)" by (metis prod.exhaust)
  note c = log_call_cases [OF l f(2) assms(2)] and e = log_call_encoded [OF l f(2) assms(2)]
  show ?thesis
  proof (cases y)
    case (Inl x)
    then show ?thesis using e(3) by (simp add: stream_error_answer_def Inr l accounted_reply_def)
  next
    case y: (Inr u)
    then show ?thesis using e(1) estimates_fields [OF c(1)] f
      by (simp add: stream_error_answer_def Inr l accounted_reply_def accounted_def)
  qed
qed

lemma stream_error_reply_accounted:
  assumes "fresh_call r" "\<not> log_closed (px_log px)"
  shows "accounted_reply ck px (stream_error_reply pk ck st h chunks fin r px)"
proof (cases "fin = Finished")
  case True
  let ?r1 = "(mark_upstream_end ck (mark_first_byte ck r))\<lparr>cr_response_bytes := length (concat chunks)\<rparr>"
  have "fresh_call (mark_upstream_end ck (mark_first_byte ck r))" using assms(1) by (intro fresh_updates)
  then have "fresh_call ?r1" by (simp add: fresh_call_def)
  note a = stream_error_answer_accounted [OF this assms(2)]
  have "accounted_reply ck px (Inl e, ?r1, px)" for e by (simp add: accounted_reply_def)
  with a show ?thesis unfolding stream_error_reply_def True Let_def by (simp split: sum.split)
next
  case False
  then show ?thesis by (cases fin) (simp_all add: stream_error_reply_def escaped_accounted)
qed

lemma stream_answer_accounted:
  assumes "fresh_call r" "\<not> log_closed (px_log px)" "px_bodies px = None"
  shows "accounted_reply ck px (stream_answer pk ck cu st h chunks fin r px)"
proof -
  obtain res r' px' where a: "stream_answer pk ck cu st h chunks fin r px = (res, r', px')"
    by (metis prod.exhaust)
  from assms(1) have r: "\<not> cr_logged r" "cr_status r = ''error''" by (simp_all add: fresh_call_def)
  from one_event_stream [OF r assms(2,3) a] show ?thesis
    unfolding a by (auto simp: accounted_reply_def)
qed

lemma forward_stream_accounted:
  assumes "fresh_call r" "\<not> log_closed (px_log px)" "px_bodies px = None"
  shows "accounted_reply ck px (forward_stream pk ck send rq body r px)"
proof (cases "stream_options body")
  case (Inl e)
  then show ?thesis by (simp add: forward_stream_def escaped_accounted)
next
  case (Inr so)
  define cu where "cu \<longleftrightarrow> truthy (vget so ''include_usage'') \<or> cr_endpoint r = ''responses''"
  define r1 where "r1 = mark_upstream_start ck (if force_stream_usage (px_settings px) \<and> \<not> cu
     then r\<lparr>cr_request_modifications := cr_request_modifications r @ [''stream_options.include_usage=true'']\<rparr>
     else r)"
  define ur where "ur = \<lparr>up_method = ''POST'', up_path = cr_upstream_path r,
     up_content = Some (json_dumps Spaced_Ascii
       (PDict (outbound_body (force_stream_usage (px_settings px)) cu so body))),
     up_headers = dset ''content-type'' ''application/json'' (upstream_headers (px_settings px) (rq_headers rq))\<rparr>"
  have r1: "fresh_call r1" using assms(1) unfolding r1_def by (intro fresh_updates) simp
  have r1e: "fresh_call (mark_upstream_end ck r1)" using r1 by (rule fresh_updates)
  have eq: "forward_stream pk ck send rq body r px =
    (case send ur of
       Send_Timeout name msg \<Rightarrow>
         as_reply (refuse pk ck 504 (''upstream_timeout'', transport_text name msg)
           (''upstream_timeout'', ''upstream timeout: '' @ name) (mark_upstream_end ck r1) px)
     | Send_Error name msg \<Rightarrow>
         as_reply (refuse pk ck 502 (''upstream_unreachable'', transport_text name msg)
           (''upstream_unreachable'', ''upstream unreachable: '' @ transport_text name msg)
           (mark_upstream_end ck r1) px)
     | Stream status h chunks fin \<Rightarrow>
         if status < 200 \<or> 300 \<le> status
         then stream_error_reply pk ck status h chunks fin
           (r1\<lparr>cr_upstream_http_status := Some status, cr_upstream_request_id := h ''x-request-id''\<rparr>) px
         else stream_answer pk ck cu status h chunks fin
           (r1\<lparr>cr_upstream_http_status := Some status, cr_upstream_request_id := h ''x-request-id''\<rparr>) px)"
    unfolding forward_stream_def Inr Let_def sum.case cu_def [symmetric] r1_def [symmetric] ur_def [symmetric]
    by (rule refl)
  show ?thesis
  proof (cases "send ur")
    case (Stream st h chunks fin)
    have "fresh_call (r1\<lparr>cr_upstream_http_status := Some st, cr_upstream_request_id := h ''x-request-id''\<rparr>)"
      using r1 by simp
    from stream_error_reply_accounted [OF this assms(2)] stream_answer_accounted [OF this assms(2,3)]
    show ?thesis unfolding eq Stream by simp
  qed (simp_all add: eq refuse_reply [OF r1e assms(2)])
qed

lemma forward_accounted:
  assumes "fresh_call r" "\<not> log_closed (px_log px)" "px_bodies px = None"
  shows "accounted_reply ck px (forward pk ck up send rq body r px)"
proof -
  have "accounted ck px (forward_simple pk ck up rq c r px)" for c
    using assms(1,2) by (intro forward_simple_accounted) (simp_all add: fresh_call_def)
  then show ?thesis
    unfolding forward_def using forward_stream_accounted [OF assms] by (simp add: as_reply_accounted)
qed

lemma with_body_accounted:
  assumes "fresh_call r" "\<not> log_closed (px_log px)" "px_bodies px = None"
  shows "accounted_reply ck px (with_body pk ck up send rq r px)"
proof (cases "parse_body (rq_body rq)")
  case (Inl e)
  then show ?thesis using assms by (auto simp: with_body_def escaped_accounted intro: refuse_reply)
next
  case (Inr body)
  show ?thesis
  proof (cases "note_body body r")
    case (Inl e)
    then show ?thesis by (simp add: with_body_def Inr escaped_accounted)
  next
    case n: (Inr r1)
    have "append_body ck ''REQUEST_BODY'' (cr_request_id r1) (PDict body) px = (Inr (), px)"
      using assms(3) by (simp add: append_body_def)
    then show ?thesis using forward_accounted [OF fresh_note_body [OF n assms(1)] assms(2,3)]
      by (simp add: with_body_def Inr n)
  qed
qed


definition sample_upstream :: "up_request \<Rightarrow> up_result" where
  "sample_upstream rq = Up_Error ''ConnectError'' ''refused''"

definition sample_send :: "up_request \<Rightarrow> stream_result" where
  "sample_send rq = Stream 200 (\<lambda>_. None) [sample_stream] Finished"


subsection \<open>Calls that escape\<close>

text \<open>a chat call whose \<open>messages\<close> is a non-zero number is not refused with a 400: the length
  of a number is a \<open>TypeError\<close> that no handler catches, so the call is answered by a server error
  and, against the promise of one event per call, leaves no trace in the log.\<close>

theorem chat_number_unlogged:
  assumes "resolve_attribution (rq_headers rq) path_token (px_registry px) (allowed_systems (px_settings px)) = Inr a"
    and "\<not> require_attribution (px_settings px)" "endpoint_kind api_path (rq_method rq) = ''chat''"
    and "parse_body (rq_body rq) = Inr body" "dget body ''messages'' = Some (PInt n)" "n \<noteq> 0"
    and "\<not> dhas body ''tools''" "\<not> dhas body ''functions''"
  shows "\<exists>r. handle_model_request pk ck up send rq path_token api_path px = (Inl TypeError, r, px)"
proof -
  let ?r = "read_request pk rq (default_operation ((new_record ck rq api_path)\<lparr>cr_attribution := a\<rparr>))"
  have ep: "cr_endpoint ?r = ''chat''"
    using assms(3) by (simp add: read_request_def default_operation_def new_record_def Let_def)
  have ep': "cr_endpoint (default_operation ((new_record ck rq api_path)\<lparr>cr_attribution := a\<rparr>)) = ''chat''"
    using assms(3) by (simp add: default_operation_def new_record_def Let_def)
  have "note_body body ?r = Inl TypeError"
    using assms(5-8) ep
    by (simp add: note_body_def note_tools_def note_chat_def por_def py_len_of_def)
  then have "with_body pk ck up send rq ?r px = (Inl TypeError, ?r, px)"
    using assms(4) by (simp add: with_body_def)
  moreover have "has_body ?r" using ep by (simp add: has_body_def)
  ultimately have "handle_model_request pk ck up send rq path_token api_path px = (Inl TypeError, ?r, px)"
    using assms(1,2) ep' by (simp add: handle_model_request_def Let_def)
  then show ?thesis ..
qed

definition number_request :: http_request where
  "number_request = \<lparr>rq_id = ''id2'', rq_method = ''POST'', rq_headers = (\<lambda>_. None),
     rq_body = ''{'' @ [CHR 0x22] @ ''messages'' @ [CHR 0x22] @ '':5}''\<rparr>"

theorem chat_number_unlogged_witness:
  "\<exists>r. handle_model_request sample_packages sample_clock sample_upstream sample_send number_request
     None ''/v1/chat/completions'' sample_proxy = (Inl TypeError, r, sample_proxy)"
proof -
  obtain a where a: "resolve_attribution (rq_headers number_request) None (px_registry sample_proxy)
      (allowed_systems (px_settings sample_proxy)) = Inr a"
    by (simp add: resolve_attribution_def static_part_def header_part_def number_request_def
        sample_proxy_def token_from_api_key_def nonempty_def HEADER_TO_FIELD_def normalize_tags_def
        client_of_def por_def vget_def str_or_none_def resolve_def active_def merged_tags_def
        drop_ambiguous_def Let_def)
  have p: "parse_body (rq_body number_request) = Inr [(''messages'', PInt 5)]" by code_simp
  have e: "endpoint_kind ''/v1/chat/completions'' (rq_method number_request) = ''chat''" by code_simp
  show ?thesis
    by (rule chat_number_unlogged [OF a _ e p, where n = 5]) (simp_all add: sample_proxy_def dhas_def)
qed

subsection \<open>The control plane\<close>

lemma enter_Inl: "enter c sid tags stamp reg = (Inl e, reg') \<Longrightarrow> reg' = reg \<and> (\<exists>m. e = TagError m)"
  using setdefault_id [of reg c sid]
  by (auto simp: enter_def Let_def setdefault_facts split: if_split_asm)

lemma log_control_cases:
  assumes "log_control ck ev resp px = (res, px')" "\<not> log_closed (px_log px)"
  shows "(res = Inr resp \<and> appended ck (px_log px) ev (px_log px') \<or>
      res = Inl UnicodeEncodeError \<and> log_file (px_log px') = log_file (px_log px)) \<and>
     px_registry px' = px_registry px"
proof -
  obtain q lg where a: "append_event (ck_stamp_log ck) (ck_accept ck) ev (px_log px) = (q, lg)" by fastforce
  from append_event_cases [OF a assms(2)] assms(1) a show ?thesis
    by (cases q) (auto simp: log_control_def)
qed



end
