(* ===== verification/Adapter_Base.thy ===== *)
theory Adapter_Base
  imports Model_Call
begin

section \<open>The memory-system adapter (\<open>adapters/base.py\<close>)\<close>

text \<open>
  The base class of the adapters: timing and events around the hooks of a memory system, and the
  settlement protocol that plants a canary and polls the read path until it comes back. The world
  outside (the memory system, the clocks, the identifiers, sleeping) is a state \<open>'w\<close> and functions
  on it, all collected in \<open>hooks\<close>. The canary of a session is one mutable object that the adapter
  and the running wait share; it lives in \<open>ad_canaries\<close>.
\<close>

subsection \<open>Statements that raise and change the state\<close>

definition retM :: "'a \<Rightarrow> 's \<Rightarrow> 'a raises \<times> 's" where
  "retM x s = (Inr x, s)"

definition raiseM :: "pyexc \<Rightarrow> 's \<Rightarrow> 'a raises \<times> 's" where
  "raiseM e s = (Inl e, s)"

definition bindM :: "('s \<Rightarrow> 'a raises \<times> 's) \<Rightarrow> ('a \<Rightarrow> 's \<Rightarrow> 'b raises \<times> 's) \<Rightarrow> 's \<Rightarrow> 'b raises \<times> 's" where
  "bindM m f s = (case m s of (Inl e, s1) \<Rightarrow> (Inl e, s1) | (Inr x, s1) \<Rightarrow> f x s1)"

definition catchM :: "('s \<Rightarrow> 'a raises \<times> 's) \<Rightarrow> (pyexc \<Rightarrow> 's \<Rightarrow> 'a raises \<times> 's) \<Rightarrow> 's \<Rightarrow> 'a raises \<times> 's" where
  "catchM m h s = (case m s of (Inl e, s1) \<Rightarrow> h e s1 | (Inr x, s1) \<Rightarrow> (Inr x, s1))"

lemma bindM_simps [simp]:
  "m s = (Inl e, s1) \<Longrightarrow> bindM m f s = (Inl e, s1)" "m s = (Inr x, s1) \<Longrightarrow> bindM m f s = f x s1"
  by (simp_all add: bindM_def)

lemma catchM_simps [simp]:
  "m s = (Inl e, s1) \<Longrightarrow> catchM m h s = h e s1" "m s = (Inr x, s1) \<Longrightarrow> catchM m h s = (Inr x, s1)"
  by (simp_all add: catchM_def)

lemma ret_raise [simp]: "retM x s = (Inr x, s)" "raiseM e s = (Inl e, s)"
  by (simp_all add: retM_def raiseM_def)

subsection \<open>Data\<close>

record hit =
  hit_id :: "string option"
  hit_text :: string
  hit_score :: pyval
  hit_metadata :: pyval
  hit_created :: "string option"

record write_partial =
  wp_added :: "int option"
  wp_updated :: "int option"
  wp_deleted :: "int option"
  wp_noop :: "int option"
  wp_ids :: "string list"
  wp_native :: pyval

record write_result =
  wr_session :: string
  wr_id :: string
  wr_submitted_at :: string
  wr_acknowledged_at :: string
  wr_ack_latency :: pyval
  wr_messages :: nat
  wr_partial :: write_partial
  wr_submitted_perf :: rat
  wr_acknowledged_perf :: rat

record read_result =
  rr_session :: string
  rr_id :: string
  rr_query :: string
  rr_started_at :: string
  rr_finished_at :: string
  rr_latency :: pyval
  rr_hits :: "hit list"
  rr_context :: string
  rr_native :: pyval

record canary =
  cn_session :: string
  cn_id :: string
  cn_token :: string
  cn_text :: string
  cn_submitted_at :: string
  cn_submitted_perf :: rat
  cn_acknowledged_at :: "string option"
  cn_acknowledged_perf :: "rat option"
  cn_ack_latency :: pyval
  cn_stored :: "bool option"
  cn_memory_ids :: "string list"
  cn_polls :: nat
  cn_previous_failed :: "rat option"
  cn_first_at :: "string option"
  cn_first_perf :: "rat option"
  cn_settled :: bool
  cn_timed_out :: bool
  cn_cleanup :: "string option"

record settle_config =
  sc_timeout :: rat
  sc_interval :: rat
  sc_cleanup :: bool

record settlement =
  st_session :: string
  st_settled :: bool
  st_timed_out :: bool
  st_timeout :: rat
  st_interval :: rat
  st_polls :: nat
  st_canary :: canary
  st_started_at :: string
  st_finished_at :: string

record 'w hooks =
  hk_reset :: "string \<Rightarrow> 'w \<Rightarrow> unit raises \<times> 'w"
  hk_write :: "string \<Rightarrow> pyval list \<Rightarrow> pyval \<Rightarrow> 'w \<Rightarrow> write_partial raises \<times> 'w"
  hk_read :: "string \<Rightarrow> string \<Rightarrow> string \<Rightarrow> 'w \<Rightarrow> (hit list \<times> pyval) raises \<times> 'w"
  hk_canary_write :: "string \<Rightarrow> string \<Rightarrow> 'w \<Rightarrow> (bool \<times> string list) raises \<times> 'w"
  hk_cleanup :: "string \<Rightarrow> canary \<Rightarrow> 'w \<Rightarrow> unit raises \<times> 'w"
  hk_perf :: "'w \<Rightarrow> rat \<times> 'w"
  hk_stamp :: "'w \<Rightarrow> string \<times> 'w"
  hk_uuid :: "'w \<Rightarrow> string \<times> 'w"
  hk_sleep :: "rat \<Rightarrow> 'w \<Rightarrow> 'w"

record 'w adapter =
  ad_name :: string
  ad_version :: string
  ad_config :: settle_config
  ad_canaries :: "canary dict"
  ad_events :: "pyval dict list"
  ad_world :: 'w

subsection \<open>Clocks, identifiers, hooks and events\<close>

definition outside :: "('w \<Rightarrow> 'a \<times> 'w) \<Rightarrow> 'w adapter \<Rightarrow> 'a raises \<times> 'w adapter" where
  "outside f ad = (case f (ad_world ad) of (x, w) \<Rightarrow> (Inr x, ad\<lparr>ad_world := w\<rparr>))"

definition hook :: "('w \<Rightarrow> 'a raises \<times> 'w) \<Rightarrow> 'w adapter \<Rightarrow> 'a raises \<times> 'w adapter" where
  "hook f ad = (case f (ad_world ad) of (x, w) \<Rightarrow> (x, ad\<lparr>ad_world := w\<rparr>))"

definition emit :: "'w hooks \<Rightarrow> string \<Rightarrow> pyval dict \<Rightarrow> 'w adapter \<Rightarrow> unit raises \<times> 'w adapter" where
  "emit H event_type flds =
     bindM (outside (hk_stamp H)) (\<lambda>stamp ad.
       (Inr (), ad\<lparr>ad_events := ad_events ad @
          [dupdate [(''event_type'', PStr event_type), (''timestamp'', PStr stamp),
                    (''system'', PStr (ad_name ad)), (''adapter_version'', PStr (ad_version ad))] flds]\<rparr>))"

definition error_fields :: "pyexc \<Rightarrow> pyval dict" where
  "error_fields e = [(''error_type'', PStr (exc_name e)), (''error_message'', PStr (py_take 2000 (exc_text e)))]"

definition failure_text :: "'w adapter \<Rightarrow> string \<Rightarrow> pyexc \<Rightarrow> string" where
  "failure_text ad what e = ad_name ad @ '' '' @ what @ '' failed: '' @ exc_name e @ '': '' @ exc_text e"

definition nonzero_ms :: "rat \<Rightarrow> rat \<Rightarrow> pyval" where
  "nonzero_ms a b = por (ms (Some a) (Some b)) (milli 0)"

subsection \<open>What the events carry\<close>

definition write_fields :: "write_result \<Rightarrow> pyval dict" where
  "write_fields r =
     [(''session_id'', PStr (wr_session r)), (''write_id'', PStr (wr_id r)),
      (''submitted_at'', PStr (wr_submitted_at r)), (''acknowledged_at'', PStr (wr_acknowledged_at r)),
      (''ack_latency_ms'', wr_ack_latency r), (''messages'', PInt (int (wr_messages r))),
      (''memories_added'', opt_int (wp_added (wr_partial r))),
      (''memories_updated'', opt_int (wp_updated (wr_partial r))),
      (''memories_deleted'', opt_int (wp_deleted (wr_partial r))),
      (''memories_noop'', opt_int (wp_noop (wr_partial r))),
      (''memory_ids'', strs (wp_ids (wr_partial r)))]"

definition read_fields :: "read_result \<Rightarrow> pyval dict" where
  "read_fields r =
     [(''session_id'', PStr (rr_session r)), (''read_id'', PStr (rr_id r)), (''query'', PStr (rr_query r)),
      (''started_at'', PStr (rr_started_at r)), (''finished_at'', PStr (rr_finished_at r)),
      (''latency_ms'', rr_latency r), (''hits'', PInt (int (length (rr_hits r)))),
      (''hit_ids'', PList (map (\<lambda>h. opt_str (hit_id h)) (rr_hits r))),
      (''hit_scores'', PList (map hit_score (rr_hits r))),
      (''context_chars'', PInt (int (py_len (rr_context r))))]"

definition lag_fields :: "canary \<Rightarrow> pyval dict" where
  "lag_fields c =
     [(''canary_id'', PStr (cn_id c)), (''canary_token'', PStr (cn_token c)),
      (''canary_stored'', case cn_stored c of None \<Rightarrow> PNone | Some b \<Rightarrow> PBool b),
      (''canary_memory_ids'', strs (cn_memory_ids c)),
      (''submitted_at'', PStr (cn_submitted_at c)), (''acknowledged_at'', opt_str (cn_acknowledged_at c)),
      (''first_retrievable_at'', opt_str (cn_first_at c)),
      (''polls'', PInt (int (cn_polls c))), (''poll_count'', PInt (int (cn_polls c))),
      (''write_ack_latency_ms'', cn_ack_latency c),
      (''ingestion_to_retrievability_lag_ms'', ms (cn_acknowledged_perf c) (cn_first_perf c)),
      (''visibility_lower_bound_ms'',
         case cn_previous_failed c of
           None \<Rightarrow> milli 0 | Some p \<Rightarrow> ms (cn_acknowledged_perf c) (Some p)),
      (''visibility_upper_bound_ms'', ms (cn_acknowledged_perf c) (cn_first_perf c)),
      (''submission_to_retrievability_ms'', ms (Some (cn_submitted_perf c)) (cn_first_perf c)),
      (''settled'', PBool (cn_settled c)), (''timed_out'', PBool (cn_timed_out c)),
      (''cleanup'', opt_str (cn_cleanup c))]"

text \<open>A number of seconds in an event; its decimal text is that of the configured value.\<close>

definition seconds :: "rat \<Rightarrow> pyval" where
  "seconds q = PFloat (Finite q (milli_text (round_half_even (q * 1000))))"

definition settlement_fields :: "settlement \<Rightarrow> pyval dict" where
  "settlement_fields r =
     dupdate
       [(''session_id'', PStr (st_session r)), (''settled'', PBool (st_settled r)),
        (''timed_out'', PBool (st_timed_out r)), (''settlement_timeout_s'', seconds (st_timeout r)),
        (''poll_interval_s'', seconds (st_interval r)), (''started_at'', PStr (st_started_at r)),
        (''finished_at'', PStr (st_finished_at r))]
       (lag_fields (st_canary r))"

subsection \<open>reset, write, search\<close>

definition reset :: "'w hooks \<Rightarrow> string \<Rightarrow> 'w adapter \<Rightarrow> unit raises \<times> 'w adapter" where
  "reset H sid =
     bindM (outside (hk_perf H)) (\<lambda>t0.
     bindM (emit H ''RESET_START'' [(''session_id'', PStr sid)]) (\<lambda>_.
     bindM (catchM (hook (hk_reset H sid)) (\<lambda>e.
              bindM (emit H ''ERROR'' ([(''session_id'', PStr sid), (''phase'', PStr ''reset'')] @ error_fields e))
                (\<lambda>_. raiseM e))) (\<lambda>_.
     bindM (\<lambda>ad. (Inr (), ad\<lparr>ad_canaries := dpop sid (ad_canaries ad)\<rparr>)) (\<lambda>_.
     bindM (outside (hk_perf H)) (\<lambda>t1.
       emit H ''RESET_END'' [(''session_id'', PStr sid), (''latency_ms'', ms (Some t0) (Some t1))])))))"

definition write_memory ::
  "'w hooks \<Rightarrow> string \<Rightarrow> pyval list \<Rightarrow> pyval \<Rightarrow> 'w adapter \<Rightarrow> write_result raises \<times> 'w adapter" where
  "write_memory H sid messages metadata =
     bindM (outside (hk_uuid H)) (\<lambda>wid.
     bindM (outside (hk_stamp H)) (\<lambda>submitted.
     bindM (outside (hk_perf H)) (\<lambda>t0.
     bindM (emit H ''WRITE_SUBMIT'' [(''session_id'', PStr sid), (''write_id'', PStr wid),
              (''messages'', PInt (int (length messages))), (''submitted_at'', PStr submitted)]) (\<lambda>_.
     bindM (catchM (hook (hk_write H sid messages metadata)) (\<lambda>e.
              bindM (outside (hk_perf H)) (\<lambda>t1.
              bindM (emit H ''ERROR'' ([(''session_id'', PStr sid), (''write_id'', PStr wid),
                       (''phase'', PStr ''write'')] @ error_fields e @ [(''latency_ms'', ms (Some t0) (Some t1))]))
                (\<lambda>_ ad. (Inl (AdapterError (failure_text ad ''write'' e)), ad))))) (\<lambda>partial.
     bindM (outside (hk_perf H)) (\<lambda>t1.
     bindM (outside (hk_stamp H)) (\<lambda>acked.
       let r = \<lparr>wr_session = sid, wr_id = wid, wr_submitted_at = submitted, wr_acknowledged_at = acked,
                wr_ack_latency = nonzero_ms t0 t1, wr_messages = length messages, wr_partial = partial,
                wr_submitted_perf = t0, wr_acknowledged_perf = t1\<rparr> in
       bindM (emit H ''WRITE_ACK'' (write_fields r)) (\<lambda>_. retM r))))))))"

definition assemble_context :: "hit list \<Rightarrow> string" where
  "assemble_context hits = py_join [CHR 0x0A] (map hit_text hits)"

definition search ::
  "'w hooks \<Rightarrow> string \<Rightarrow> string \<Rightarrow> string \<Rightarrow> 'w adapter \<Rightarrow> read_result raises \<times> 'w adapter" where
  "search H sid query operation =
     bindM (outside (hk_uuid H)) (\<lambda>rid.
     bindM (outside (hk_stamp H)) (\<lambda>started.
     bindM (outside (hk_perf H)) (\<lambda>t0.
     bindM (emit H ''READ_START'' [(''session_id'', PStr sid), (''read_id'', PStr rid),
              (''operation'', PStr operation), (''query_chars'', PInt (int (py_len query)))]) (\<lambda>_.
     bindM (catchM (hook (hk_read H sid query operation)) (\<lambda>e.
              bindM (outside (hk_perf H)) (\<lambda>t1.
              bindM (emit H ''ERROR'' ([(''session_id'', PStr sid), (''read_id'', PStr rid),
                       (''phase'', PStr operation)] @ error_fields e @ [(''latency_ms'', ms (Some t0) (Some t1))]))
                (\<lambda>_ ad. (Inl (AdapterError (failure_text ad ''read'' e)), ad))))) (\<lambda>(hits, native).
     bindM (outside (hk_perf H)) (\<lambda>t1.
     bindM (outside (hk_stamp H)) (\<lambda>finished.
       let r = \<lparr>rr_session = sid, rr_id = rid, rr_query = query, rr_started_at = started,
                rr_finished_at = finished, rr_latency = nonzero_ms t0 t1, rr_hits = hits,
                rr_context = assemble_context hits, rr_native = native\<rparr> in
       bindM (emit H ''READ_END'' ((''operation'', PStr operation) # read_fields r)) (\<lambda>_. retM r))))))))"

definition read :: "'w hooks \<Rightarrow> string \<Rightarrow> string \<Rightarrow> 'w adapter \<Rightarrow> string raises \<times> 'w adapter" where
  "read H sid query = bindM (search H sid query ''read'') (\<lambda>r. retM (rr_context r))"

subsection \<open>Canaries\<close>

definition canary_text :: "string \<Rightarrow> string" where
  "canary_text token = ''The verification code for this session is '' @ token @ ''.''"

definition new_canary :: "string \<Rightarrow> string \<Rightarrow> string \<Rightarrow> string \<Rightarrow> rat \<Rightarrow> canary" where
  "new_canary sid cid token stamp t =
     \<lparr>cn_session = sid, cn_id = cid, cn_token = token, cn_text = canary_text token,
      cn_submitted_at = stamp, cn_submitted_perf = t, cn_acknowledged_at = None,
      cn_acknowledged_perf = None, cn_ack_latency = PNone, cn_stored = None, cn_memory_ids = [],
      cn_polls = 0, cn_previous_failed = None, cn_first_at = None, cn_first_perf = None,
      cn_settled = False, cn_timed_out = False, cn_cleanup = None\<rparr>"

definition set_canary :: "string \<Rightarrow> canary \<Rightarrow> 'w adapter \<Rightarrow> unit raises \<times> 'w adapter" where
  "set_canary sid c ad = (Inr (), ad\<lparr>ad_canaries := dset sid c (ad_canaries ad)\<rparr>)"

definition plant_canary :: "'w hooks \<Rightarrow> string \<Rightarrow> 'w adapter \<Rightarrow> canary raises \<times> 'w adapter" where
  "plant_canary H sid =
     bindM (outside (hk_uuid H)) (\<lambda>u.
     bindM (outside (hk_uuid H)) (\<lambda>cid.
     bindM (outside (hk_stamp H)) (\<lambda>stamp.
     bindM (outside (hk_perf H)) (\<lambda>t0.
       let c = new_canary sid cid (''memharness-canary-'' @ u) stamp t0 in
     bindM (emit H ''CANARY_SUBMIT'' [(''session_id'', PStr sid), (''canary_id'', PStr cid),
              (''canary_token'', PStr (cn_token c)), (''submitted_at'', PStr stamp)]) (\<lambda>_.
     bindM (catchM (hook (hk_canary_write H sid (cn_text c))) (\<lambda>e.
              bindM (emit H ''ERROR'' ([(''session_id'', PStr sid), (''canary_id'', PStr cid),
                       (''phase'', PStr ''canary_write'')] @ error_fields e))
                (\<lambda>_ ad. (Inl (AdapterError (failure_text ad ''canary write'' e)), ad)))) (\<lambda>(stored, ids).
     bindM (outside (hk_perf H)) (\<lambda>t1.
     bindM (outside (hk_stamp H)) (\<lambda>acked.
       let c1 = c\<lparr>cn_acknowledged_perf := Some t1, cn_acknowledged_at := Some acked,
                  cn_ack_latency := ms (Some t0) (Some t1), cn_stored := Some stored, cn_memory_ids := ids\<rparr> in
     bindM (set_canary sid c1) (\<lambda>_.
     bindM (emit H ''CANARY_ACK'' [(''session_id'', PStr sid), (''canary_id'', PStr cid),
              (''acknowledged_at'', PStr acked), (''ack_latency_ms'', cn_ack_latency c1),
              (''canary_stored'', PBool stored), (''canary_memory_ids'', strs ids)]) (\<lambda>_.
       retM c1))))))))))"

definition no_canary_msg :: "string \<Rightarrow> string" where
  "no_canary_msg sid = ''no canary planted for session '' @ repr_str sid @ ''; call plant_canary() first''"

definition poll_fields :: "string \<Rightarrow> canary \<Rightarrow> bool \<Rightarrow> string \<Rightarrow> rat \<Rightarrow> rat \<Rightarrow> pyval dict" where
  "poll_fields sid c visible rid t0 t1 =
     [(''session_id'', PStr sid), (''canary_id'', PStr (cn_id c)), (''poll'', PInt (int (cn_polls c))),
      (''poll_count'', PInt (int (cn_polls c))), (''visible'', PBool visible), (''read_id'', PStr rid),
      (''latency_ms'', ms (Some t0) (Some t1)),
      (''observation_boundary_ms'', ms (cn_acknowledged_perf c) (Some t1))]"

definition is_settled :: "'w hooks \<Rightarrow> string \<Rightarrow> 'w adapter \<Rightarrow> bool raises \<times> 'w adapter" where
  "is_settled H sid ad =
     (case dget (ad_canaries ad) sid of
        None \<Rightarrow> (Inl (SettlementError (no_canary_msg sid)), ad)
      | Some c \<Rightarrow>
          if cn_settled c then (Inr True, ad)
          else
            let c1 = c\<lparr>cn_polls := cn_polls c + 1\<rparr> in
            bindM (set_canary sid c1) (\<lambda>_.
            bindM (outside (hk_perf H)) (\<lambda>t0.
            bindM (search H sid (cn_text c1) ''settle'') (\<lambda>r.
              let visible = contains (cn_token c1) (rr_context r) in
            bindM (outside (hk_perf H)) (\<lambda>t1.
            bindM (emit H ''SETTLEMENT_POLL'' (poll_fields sid c1 visible (rr_id r) t0 t1)) (\<lambda>_.
              if visible then
                bindM (outside (hk_stamp H)) (\<lambda>stamp.
                bindM (set_canary sid (c1\<lparr>cn_settled := True, cn_first_perf := Some t1, cn_first_at := Some stamp\<rparr>)) (\<lambda>_.
                  retM True))
              else bindM (set_canary sid (c1\<lparr>cn_previous_failed := Some t1\<rparr>)) (\<lambda>_. retM False)))))) ad)"

subsection \<open>wait_settled\<close>

text \<open>The polling loop may run for ever when the clock stands still, so it has fuel; \<open>None\<close> is
  fuel exhausted.\<close>

fun poll_loop ::
  "nat \<Rightarrow> 'w hooks \<Rightarrow> string \<Rightarrow> rat \<Rightarrow> rat \<Rightarrow> 'w adapter \<Rightarrow> (bool raises \<times> 'w adapter) option" where
  "poll_loop 0 H sid deadline interval ad = None"
| "poll_loop (Suc n) H sid deadline interval ad =
     (case is_settled H sid ad of
        (Inl e, ad1) \<Rightarrow> Some (Inl e, ad1)
      | (Inr True, ad1) \<Rightarrow> Some (Inr True, ad1)
      | (Inr False, ad1) \<Rightarrow>
          (case hk_perf H (ad_world ad1) of (t, w) \<Rightarrow>
             if deadline \<le> t then Some (Inr False, ad1\<lparr>ad_world := w\<rparr>)
             else poll_loop n H sid deadline interval (ad1\<lparr>ad_world := hk_sleep H interval w\<rparr>)))"

definition pending :: "'w adapter \<Rightarrow> string \<Rightarrow> canary option" where
  "pending ad sid = (case dget (ad_canaries ad) sid of
     None \<Rightarrow> None | Some c \<Rightarrow> if cn_settled c then None else Some c)"

definition deadline_of :: "'w hooks \<Rightarrow> canary \<Rightarrow> rat \<Rightarrow> 'w adapter \<Rightarrow> rat raises \<times> 'w adapter" where
  "deadline_of H c timeout =
     (case cn_acknowledged_perf c of
        Some a \<Rightarrow> if a \<noteq> 0 then retM (a + timeout) else bindM (outside (hk_perf H)) (\<lambda>t. retM (t + timeout))
      | None \<Rightarrow> bindM (outside (hk_perf H)) (\<lambda>t. retM (t + timeout)))"

definition clean_up :: "'w hooks \<Rightarrow> string \<Rightarrow> canary \<Rightarrow> 'w adapter \<Rightarrow> string raises \<times> 'w adapter" where
  "clean_up H sid c ad =
     (if sc_cleanup (ad_config ad) then
        catchM (bindM (hook (hk_cleanup H sid c)) (\<lambda>_. retM ''deleted''))
          (\<lambda>e. retM (py_take 500 (''failed: '' @ exc_name e @ '': '' @ exc_text e))) ad
      else (Inr ''skipped'', ad))"

definition conclude ::
  "'w hooks \<Rightarrow> string \<Rightarrow> rat \<Rightarrow> rat \<Rightarrow> string \<Rightarrow> canary \<Rightarrow> bool \<Rightarrow> 'w adapter \<Rightarrow> settlement raises \<times> 'w adapter"
where
  "conclude H sid timeout interval started c settled =
     (let c1 = c\<lparr>cn_timed_out := \<not> settled\<rparr> in
      bindM (set_canary sid c1) (\<lambda>_.
      bindM (clean_up H sid c1) (\<lambda>cleanup.
        let c2 = c1\<lparr>cn_cleanup := Some cleanup\<rparr> in
      bindM (set_canary sid c2) (\<lambda>_.
      bindM (outside (hk_stamp H)) (\<lambda>finished.
        let r = \<lparr>st_session = sid, st_settled = settled, st_timed_out = \<not> settled, st_timeout = timeout,
                 st_interval = interval, st_polls = cn_polls c2, st_canary = c2,
                 st_started_at = started, st_finished_at = finished\<rparr> in
      bindM (emit H (if settled then ''WRITE_SETTLED'' else ''SETTLEMENT_TIMEOUT'') (settlement_fields r))
        (\<lambda>_. retM r))))))"

definition wait_polling ::
  "nat \<Rightarrow> 'w hooks \<Rightarrow> string \<Rightarrow> rat \<Rightarrow> rat \<Rightarrow> string \<Rightarrow> canary \<Rightarrow> 'w adapter
    \<Rightarrow> (settlement raises \<times> 'w adapter) option" where
  "wait_polling fuel H sid timeout interval started c ad =
     (case deadline_of H c timeout ad of
        (Inl e, ad1) \<Rightarrow> Some (Inl e, ad1)
      | (Inr deadline, ad1) \<Rightarrow>
          (case poll_loop fuel H sid deadline interval ad1 of
             None \<Rightarrow> None
           | Some (Inl e, ad2) \<Rightarrow> Some (Inl e, ad2)
           | Some (Inr settled, ad2) \<Rightarrow>
               let c1 = (case dget (ad_canaries ad2) sid of None \<Rightarrow> c | Some c1 \<Rightarrow> c1)
               in Some (conclude H sid timeout interval started c1 settled ad2)))"

definition pending_or_planted :: "'w hooks \<Rightarrow> string \<Rightarrow> 'w adapter \<Rightarrow> canary raises \<times> 'w adapter" where
  "pending_or_planted H sid ad =
     (case pending ad sid of Some c \<Rightarrow> (Inr c, ad) | None \<Rightarrow> plant_canary H sid ad)"

definition wait_settled ::
  "nat \<Rightarrow> 'w hooks \<Rightarrow> string \<Rightarrow> rat option \<Rightarrow> rat option \<Rightarrow> 'w adapter
    \<Rightarrow> (settlement raises \<times> 'w adapter) option" where
  "wait_settled fuel H sid timeout_s poll_interval_s ad =
     (let timeout = (case timeout_s of None \<Rightarrow> sc_timeout (ad_config ad) | Some t \<Rightarrow> t);
          interval = (case poll_interval_s of None \<Rightarrow> sc_interval (ad_config ad) | Some t \<Rightarrow> t);
          (started, w0) = hk_stamp H (ad_world ad)
      in case pending_or_planted H sid (ad\<lparr>ad_world := w0\<rparr>) of
           (Inl e, ad1) \<Rightarrow> Some (Inl e, ad1)
         | (Inr c, ad1) \<Rightarrow> wait_polling fuel H sid timeout interval started c ad1)"

definition reset_all :: "'w adapter \<Rightarrow> unit raises \<times> 'w adapter" where
  "reset_all ad = (Inl (NotImplementedError (ad_name ad @ '' does not implement reset_all'')), ad)"

end
