(* ===== verification/Settlement.thy ===== *)
theory Settlement
  imports Adapter_Base
begin

section \<open>What the settlement protocol guarantees\<close>

text \<open>
  Facts on \<open>adapters/base.py\<close>: the events of a search and of a poll, soundness of a positive
  answer, the bounds on visibility, the shape of a wait and its termination. The clock enters
  through \<open>clock_ok\<close>: there is a time on the outside world that never goes back, a clock reading
  lies between the times before and after it, and sleeping takes at least as long as asked.
\<close>

definition clock_ok :: "'w hooks \<Rightarrow> ('w \<Rightarrow> rat) \<Rightarrow> bool" where
  "clock_ok H T \<longleftrightarrow>
     (\<forall>w t w'. hk_perf H w = (t, w') \<longrightarrow> T w \<le> t \<and> t \<le> T w') \<and>
     (\<forall>w x w'. hk_stamp H w = (x, w') \<longrightarrow> T w \<le> T w') \<and>
     (\<forall>w x w'. hk_uuid H w = (x, w') \<longrightarrow> T w \<le> T w') \<and>
     (\<forall>sid q op w x w'. hk_read H sid q op w = (x, w') \<longrightarrow> T w \<le> T w') \<and>
     (\<forall>sid q w x w'. hk_canary_write H sid q w = (x, w') \<longrightarrow> T w \<le> T w') \<and>
     (\<forall>sid w x w'. hk_reset H sid w = (x, w') \<longrightarrow> T w \<le> T w') \<and>
     (\<forall>sid m md w x w'. hk_write H sid m md w = (x, w') \<longrightarrow> T w \<le> T w') \<and>
     (\<forall>sid c w x w'. hk_cleanup H sid c w = (x, w') \<longrightarrow> T w \<le> T w') \<and>
     (\<forall>d w. T w + d \<le> T (hk_sleep H d w))"

lemma clock_okD:
  assumes "clock_ok H T"
  shows "hk_perf H w = (t, w') \<Longrightarrow> T w \<le> t" "hk_perf H w = (t, w') \<Longrightarrow> t \<le> T w'"
    "hk_stamp H w = (x, w') \<Longrightarrow> T w \<le> T w'" "hk_uuid H w = (x, w') \<Longrightarrow> T w \<le> T w'"
    "hk_read H sid q op w = (y, w') \<Longrightarrow> T w \<le> T w'"
    "hk_canary_write H sid q w = (z, w') \<Longrightarrow> T w \<le> T w'"
    "hk_reset H sid w = (u, w') \<Longrightarrow> T w \<le> T w'"
    "hk_write H sid m md w = (v, w') \<Longrightarrow> T w \<le> T w'"
    "hk_cleanup H sid c w = (u, w') \<Longrightarrow> T w \<le> T w'"
    "T w + d \<le> T (hk_sleep H d w)"
  using assms unfolding clock_ok_def by (blast | simp)+

definition kind :: "pyval dict \<Rightarrow> pyval" where
  "kind ev = vget ev ''event_type''"

lemma emit_run:
  assumes "hk_stamp H (ad_world ad) = (x, w)"
  shows "emit H k flds ad = (Inr (), ad\<lparr>ad_world := w, ad_events := ad_events ad @
     [dupdate [(''event_type'', PStr k), (''timestamp'', PStr x), (''system'', PStr (ad_name ad)),
               (''adapter_version'', PStr (ad_version ad))] flds]\<rparr>)"
  using assms by (simp add: emit_def outside_def bindM_def)

lemma outside_run: "f (ad_world ad) = (x, w) \<Longrightarrow> outside f ad = (Inr x, ad\<lparr>ad_world := w\<rparr>)"
  by (simp add: outside_def)

lemma hook_run: "f (ad_world ad) = (x, w) \<Longrightarrow> hook f ad = (x, ad\<lparr>ad_world := w\<rparr>)"
  by (simp add: hook_def)

lemma kind_event [simp]: "kind ((''event_type'', v) # r) = v"
  by (simp add: kind_def vget_def)

lemmas run_simps = emit_run outside_run hook_run bindM_def catchM_def retM_def raiseM_def

subsection \<open>Statements that leave the canaries alone\<close>

text \<open>The adapter after some statements: the same canaries and configuration, more events, a
  world whose time has not gone back; \<open>quiet K\<close> says so of a statement that emits only events of
  kinds in \<open>K\<close>.\<close>

definition follows :: "('w \<Rightarrow> rat) \<Rightarrow> 'w hooks \<Rightarrow> 'w adapter \<Rightarrow> pyval dict list \<Rightarrow> 'w adapter \<Rightarrow> bool" where
  "follows T H ad evs ad' \<longleftrightarrow>
     ad_name ad' = ad_name ad \<and> ad_version ad' = ad_version ad \<and> ad_config ad' = ad_config ad \<and>
     ad_canaries ad' = ad_canaries ad \<and> ad_events ad' = ad_events ad @ evs \<and>
     (clock_ok H T \<longrightarrow> T (ad_world ad) \<le> T (ad_world ad'))"

definition quiet :: "('w \<Rightarrow> rat) \<Rightarrow> 'w hooks \<Rightarrow> string set \<Rightarrow> ('w adapter \<Rightarrow> 'a raises \<times> 'w adapter) \<Rightarrow> bool" where
  "quiet T H K m \<longleftrightarrow> (\<forall>ad r ad'. m ad = (r, ad') \<longrightarrow>
     (\<exists>evs. follows T H ad evs ad' \<and> kind ` set evs \<subseteq> PStr ` K))"

lemma follows_refl [simp]: "follows T H ad [] ad"
  by (simp add: follows_def)

lemma follows_trans: "follows T H a xs b \<Longrightarrow> follows T H b ys c \<Longrightarrow> follows T H a (xs @ ys) c"
  by (auto simp: follows_def)

lemma quiet_bind [intro]:
  assumes "quiet T H K m" "\<And>x. quiet T H K (f x)"
  shows "quiet T H K (bindM m f)"
  unfolding quiet_def
proof (intro allI impI)
  fix ad r ad' assume run: "bindM m f ad = (r, ad')"
  obtain q b where m: "m ad = (q, b)" by fastforce
  from assms(1) m obtain xs where xs: "follows T H ad xs b" "kind ` set xs \<subseteq> PStr ` K"
    unfolding quiet_def by blast
  show "\<exists>evs. follows T H ad evs ad' \<and> kind ` set evs \<subseteq> PStr ` K"
  proof (cases q)
    case (Inl e)
    with run m xs show ?thesis by auto
  next
    case (Inr x)
    with run m have "f x b = (r, ad')" by simp
    with assms(2) [of x] obtain ys where "follows T H b ys ad'" "kind ` set ys \<subseteq> PStr ` K"
      unfolding quiet_def by blast
    with xs show ?thesis by (intro exI [of _ "xs @ ys"]) (auto intro: follows_trans)
  qed
qed

lemma quiet_catch [intro]:
  assumes "quiet T H K m" "\<And>e. quiet T H K (f e)"
  shows "quiet T H K (catchM m f)"
proof -
  have "catchM m f = (\<lambda>s. case m s of (Inl e, s1) \<Rightarrow> f e s1 | (Inr x, s1) \<Rightarrow> (Inr x, s1))"
    by (simp add: catchM_def fun_eq_iff)
  show ?thesis unfolding quiet_def
  proof (intro allI impI)
    fix ad r ad' assume run: "catchM m f ad = (r, ad')"
    obtain q b where m: "m ad = (q, b)" by fastforce
    from assms(1) m obtain xs where xs: "follows T H ad xs b" "kind ` set xs \<subseteq> PStr ` K"
      unfolding quiet_def by blast
    show "\<exists>evs. follows T H ad evs ad' \<and> kind ` set evs \<subseteq> PStr ` K"
    proof (cases q)
      case (Inr x)
      with run m xs show ?thesis by auto
    next
      case (Inl e)
      with run m have "f e b = (r, ad')" by simp
      with assms(2) [of e] obtain ys where "follows T H b ys ad'" "kind ` set ys \<subseteq> PStr ` K"
        unfolding quiet_def by blast
      with xs show ?thesis by (intro exI [of _ "xs @ ys"]) (auto intro: follows_trans)
    qed
  qed
qed

lemma quiet_return [intro]:
  "quiet T H K (retM x)" "quiet T H K (raiseM e)" "quiet T H K (\<lambda>ad. (g ad, ad))"
  by (auto simp: quiet_def retM_def raiseM_def intro: exI [of _ "[]"])

lemma quiet_outside [intro]:
  "quiet T H K (outside (hk_perf H))" "quiet T H K (outside (hk_stamp H))" "quiet T H K (outside (hk_uuid H))"
  by (auto simp: quiet_def outside_def follows_def split: prod.splits
      dest: clock_okD(1-4) order_trans intro: order_trans [OF clock_okD(1) clock_okD(2)])

lemma quiet_hook [intro]:
  "quiet T H K (hook (hk_reset H sid))" "quiet T H K (hook (hk_write H sid batch md))"
  "quiet T H K (hook (hk_read H sid q op))" "quiet T H K (hook (hk_canary_write H sid q))"
  "quiet T H K (hook (hk_cleanup H sid c))"
  by (auto simp: quiet_def hook_def follows_def split: prod.splits dest: clock_okD(5-9))

lemma quiet_emit [intro]:
  assumes "k \<in> K" "''event_type'' \<notin> fst ` set flds"
  shows "quiet T H K (emit H k flds)"
  unfolding quiet_def
proof (intro allI impI)
  fix ad r ad' assume run: "emit H k flds ad = (r, ad')"
  obtain x w where st: "hk_stamp H (ad_world ad) = (x, w)" by fastforce
  let ?ev = "dupdate [(''event_type'', PStr k), (''timestamp'', PStr x), (''system'', PStr (ad_name ad)),
               (''adapter_version'', PStr (ad_version ad))] flds"
  have "kind ?ev = PStr k" using assms(2) by (simp add: kind_def vget_def dget_dupdate_notin)
  moreover have "follows T H ad [?ev] ad'"
    using run st by (auto simp: emit_run [OF st] follows_def dest: clock_okD(3) [OF _ st])
  ultimately show "\<exists>evs. follows T H ad evs ad' \<and> kind ` set evs \<subseteq> PStr ` K"
    using assms(1) by (intro exI [of _ "[?ev]"]) auto
qed

subsection \<open>search\<close>

definition read_by :: "('w \<Rightarrow> rat) \<Rightarrow> 'w hooks \<Rightarrow> string \<Rightarrow> string \<Rightarrow> string \<Rightarrow> 'w adapter \<Rightarrow> 'w adapter
    \<Rightarrow> (hit list \<times> pyval) raises \<Rightarrow> bool" where
  "read_by T H sid q op ad ad' x \<longleftrightarrow>
     (\<exists>w1 w2. hk_read H sid q op w1 = (x, w2) \<and>
        (clock_ok H T \<longrightarrow> T (ad_world ad) \<le> T w1 \<and> T w2 \<le> T (ad_world ad')))"

lemma search_run:
  assumes "search H sid q op ad = (r, ad')"
  shows "\<exists>x evs. read_by T H sid q op ad ad' x \<and> follows T H ad evs ad' \<and>
     (case x of
        Inl e \<Rightarrow> r = Inl (AdapterError (failure_text ad ''read'' e)) \<and>
          map kind evs = [PStr ''READ_START'', PStr ''ERROR'']
      | Inr p \<Rightarrow> (\<exists>rr. r = Inr rr \<and> rr_context rr = assemble_context (fst p) \<and>
          map kind evs = [PStr ''READ_START'', PStr ''READ_END'']))"
proof -
  obtain rid wa where a: "hk_uuid H (ad_world ad) = (rid, wa)" by fastforce
  obtain st wb where b: "hk_stamp H wa = (st, wb)" by fastforce
  obtain t0 wc where c: "hk_perf H wb = (t0, wc)" by fastforce
  obtain s1 wd where d: "hk_stamp H wc = (s1, wd)" by fastforce
  obtain x we where e: "hk_read H sid q op wd = (x, we)" by fastforce
  obtain t1 wf where f: "hk_perf H we = (t1, wf)" by fastforce
  obtain s2 wg where g: "hk_stamp H wf = (s2, wg)" by fastforce
  obtain s3 wh where h: "hk_stamp H wg = (s3, wh)" by fastforce
  note steps = a b c d e f g h
  have mono: "T (ad_world ad) \<le> T wd \<and> T wd \<le> T we \<and> T we \<le> T wg \<and> T we \<le> T wh" if "clock_ok H T"
  proof -
    note k = clock_okD [OF that]
    show ?thesis using k(4) [OF a] k(3) [OF b] k(1) [OF c] k(2) [OF c] k(3) [OF d] k(5) [OF e]
      k(1) [OF f] k(2) [OF f] k(3) [OF g] k(3) [OF h] by linarith
  qed
  have rb: "read_by T H sid q op ad ad' x" if "ad_world ad' = wg \<or> ad_world ad' = wh"
    unfolding read_by_def
    by (rule exI [of _ wd], rule exI [of _ we]) (use that e mono in \<open>auto\<close>)
  let ?evs = "drop (length (ad_events ad)) (ad_events ad')"
  show ?thesis
  proof (cases x)
    case (Inl ex)
    have run: "search H sid q op ad = (r, ad')" by (rule assms)
    then have "ad_world ad' = wg \<and> r = Inl (AdapterError (failure_text ad ''read'' ex)) \<and>
        ad_events ad' = ad_events ad @ ?evs \<and> map kind ?evs = [PStr ''READ_START'', PStr ''ERROR''] \<and>
        ad_name ad' = ad_name ad \<and> ad_version ad' = ad_version ad \<and> ad_config ad' = ad_config ad \<and>
        ad_canaries ad' = ad_canaries ad"
      by (auto simp: search_def run_simps steps Inl error_fields_def failure_text_def)
    then show ?thesis using rb mono Inl
      by (intro exI [of _ x] exI [of _ ?evs]) (auto simp: follows_def)
  next
    case (Inr p)
    have run: "search H sid q op ad = (r, ad')" by (rule assms)
    then have "ad_world ad' = wh \<and> (\<exists>rr. r = Inr rr \<and> rr_context rr = assemble_context (fst p)) \<and>
        ad_events ad' = ad_events ad @ ?evs \<and> map kind ?evs = [PStr ''READ_START'', PStr ''READ_END''] \<and>
        ad_name ad' = ad_name ad \<and> ad_version ad' = ad_version ad \<and> ad_config ad' = ad_config ad \<and>
        ad_canaries ad' = ad_canaries ad"
      by (auto simp: search_def run_simps steps Inr Let_def read_fields_def split: prod.splits)
    then show ?thesis using rb mono Inr
      by (intro exI [of _ x] exI [of _ ?evs]) (auto simp: follows_def)
  qed
qed

subsection \<open>is_settled\<close>

definition after_poll :: "canary \<Rightarrow> bool \<Rightarrow> rat \<Rightarrow> string \<Rightarrow> canary" where
  "after_poll c visible t stamp =
     (if visible then c\<lparr>cn_polls := cn_polls c + 1, cn_settled := True, cn_first_perf := Some t, cn_first_at := Some stamp\<rparr>
      else c\<lparr>cn_polls := cn_polls c + 1, cn_previous_failed := Some t\<rparr>)"

definition same_but_canaries :: "'w adapter \<Rightarrow> pyval dict list \<Rightarrow> 'w adapter \<Rightarrow> bool" where
  "same_but_canaries ad evs ad' \<longleftrightarrow>
     ad_name ad' = ad_name ad \<and> ad_version ad' = ad_version ad \<and> ad_config ad' = ad_config ad \<and>
     ad_events ad' = ad_events ad @ evs"

lemma poll_run:
  assumes run: "is_settled H sid ad = (r, ad')" and c: "dget (ad_canaries ad) sid = Some c"
    and unsettled: "\<not> cn_settled c"
  shows "\<exists>x evs ada adb. read_by T H sid (cn_text c) ''settle'' ada adb x \<and> same_but_canaries ad evs ad' \<and>
     (clock_ok H T \<longrightarrow> T (ad_world ad) \<le> T (ad_world ada) \<and> T (ad_world adb) \<le> T (ad_world ad')) \<and>
     (case x of
        Inl e \<Rightarrow> (\<exists>m. r = Inl (AdapterError m)) \<and>
          ad_canaries ad' = dset sid (c\<lparr>cn_polls := cn_polls c + 1\<rparr>) (ad_canaries ad) \<and>
          map kind evs = [PStr ''READ_START'', PStr ''ERROR'']
      | Inr p \<Rightarrow> r = Inr (contains (cn_token c) (assemble_context (fst p))) \<and>
          (\<exists>t stamp. (clock_ok H T \<longrightarrow> T (ad_world ad) \<le> t \<and> t \<le> T (ad_world ad')) \<and>
             ad_canaries ad' = dset sid (after_poll c (contains (cn_token c) (assemble_context (fst p))) t stamp)
                 (ad_canaries ad)) \<and>
          map kind evs = [PStr ''READ_START'', PStr ''READ_END'', PStr ''SETTLEMENT_POLL''])"
proof -
  define c1 where "c1 = c\<lparr>cn_polls := cn_polls c + 1\<rparr>"
  define ad1 where "ad1 = ad\<lparr>ad_canaries := dset sid c1 (ad_canaries ad)\<rparr>"
  obtain t0 w0 where p0: "hk_perf H (ad_world ad) = (t0, w0)" by fastforce
  define ad2 where "ad2 = ad1\<lparr>ad_world := w0\<rparr>"
  obtain sr ad3 where s: "search H sid (cn_text c) ''settle'' ad2 = (sr, ad3)" by fastforce
  have s1: "search H sid (cn_text c) ''settle''
      (ad\<lparr>ad_canaries := dset sid (c\<lparr>cn_polls := Suc (cn_polls c)\<rparr>) (ad_canaries ad), ad_world := w0\<rparr>) = (sr, ad3)"
    using s by (simp add: ad2_def ad1_def c1_def)
  obtain x evs where rb: "read_by T H sid (cn_text c) ''settle'' ad2 ad3 x" and fo: "follows T H ad2 evs ad3"
    and xr: "case x of
        Inl e \<Rightarrow> sr = Inl (AdapterError (failure_text ad2 ''read'' e)) \<and>
          map kind evs = [PStr ''READ_START'', PStr ''ERROR'']
      | Inr p \<Rightarrow> (\<exists>rr. sr = Inr rr \<and> rr_context rr = assemble_context (fst p) \<and>
          map kind evs = [PStr ''READ_START'', PStr ''READ_END''])"
    using search_run [OF s] by blast
  have w0: "T (ad_world ad) \<le> T w0" if "clock_ok H T"
    using clock_okD(1) [OF that p0] clock_okD(2) [OF that p0] by simp
  have kept: "ad_name ad3 = ad_name ad" "ad_version ad3 = ad_version ad" "ad_config ad3 = ad_config ad"
    "ad_canaries ad3 = dset sid c1 (ad_canaries ad)" "ad_events ad3 = ad_events ad @ evs"
    "clock_ok H T \<Longrightarrow> T w0 \<le> T (ad_world ad3)"
    using fo by (simp_all add: follows_def ad2_def ad1_def)
  show ?thesis
  proof (cases x)
    case (Inl e)
    then have sr: "sr = Inl (AdapterError (failure_text ad2 ''read'' e))"
      and ev: "map kind evs = [PStr ''READ_START'', PStr ''ERROR'']" using xr by simp_all
    have fin: "r = sr_of e \<and> ad' = ad3" if "sr_of = (\<lambda>e. Inl (AdapterError (failure_text ad2 ''read'' e)))" for sr_of
      using run s1 sr unsettled p0 that by (simp add: is_settled_def c Let_def set_canary_def run_simps)
    show ?thesis
      by (rule exI [of _ x], rule exI [of _ evs], rule exI [of _ ad2], rule exI [of _ ad3])
        (use rb fin [OF refl] ev Inl w0 kept in \<open>simp add: same_but_canaries_def ad2_def c1_def\<close>)
  next
    case (Inr p)
    then obtain rr where sr: "sr = Inr rr" and ctx: "rr_context rr = assemble_context (fst p)"
      and ev: "map kind evs = [PStr ''READ_START'', PStr ''READ_END'']" using xr by auto
    obtain t1 w1 where p1: "hk_perf H (ad_world ad3) = (t1, w1)" by fastforce
    obtain st w2 where p2: "hk_stamp H w1 = (st, w2)" by fastforce
    obtain stamp w3 where p3: "hk_stamp H w2 = (stamp, w3)" by fastforce
    define v where "v = contains (cn_token c) (assemble_context (fst p))"
    have order: "T (ad_world ad) \<le> t1 \<and> T (ad_world ad3) \<le> T w2 \<and> T (ad_world ad3) \<le> T w3 \<and> t1 \<le> T w2 \<and> t1 \<le> T w3" if "clock_ok H T"
      using clock_okD(1) [OF that p1] clock_okD(2) [OF that p1] clock_okD(3) [OF that p2]
        clock_okD(3) [OF that p3] w0 [OF that] kept(6) [OF that] by simp
    let ?new = "drop (length (ad_events ad)) (ad_events ad')"
    have fin: "r = Inr v \<and> ad_world ad' = (if v then w3 else w2) \<and> same_but_canaries ad ?new ad' \<and>
        map kind ?new = map kind evs @ [PStr ''SETTLEMENT_POLL''] \<and>
        ad_canaries ad' = dset sid (after_poll c v t1 stamp) (ad_canaries ad)"
      using run s1 sr unsettled p0 p1 p2 p3 ctx kept(1-5)
      by (cases v) (simp_all add: is_settled_def c Let_def set_canary_def run_simps v_def c1_def
          same_but_canaries_def after_poll_def poll_fields_def, auto)
    show ?thesis
      by (rule exI [of _ x], rule exI [of _ ?new], rule exI [of _ ad2], rule exI [of _ ad3])
        (use rb fin ev Inr w0 kept order in \<open>auto simp: ad2_def v_def [symmetric]\<close>)
  qed
qed

subsection \<open>The other operations\<close>

lemma quiet_write: "quiet T H {''WRITE_SUBMIT'', ''WRITE_ACK'', ''ERROR''} (write_memory H sid msgs md)"
  unfolding write_memory_def Let_def
  by (intro quiet_bind quiet_catch quiet_outside quiet_emit quiet_hook quiet_return)
    (auto simp: write_fields_def error_fields_def)

lemma quiet_search: "quiet T H {''READ_START'', ''READ_END'', ''ERROR''} (search H sid q op)"
  unfolding search_def Let_def case_prod_beta'
  by (intro quiet_bind quiet_catch quiet_outside quiet_emit quiet_hook quiet_return)
    (auto simp: read_fields_def error_fields_def)

text \<open>A reset pops the canary of its session when the hook succeeds.\<close>

lemma reset_run:
  assumes "reset H sid ad = (r, ad')"
  shows "(r = Inr () \<and> ad_canaries ad' = dpop sid (ad_canaries ad) \<or>
          (\<exists>e. r = Inl e) \<and> ad_canaries ad' = ad_canaries ad) \<and>
     ad_config ad' = ad_config ad \<and> (clock_ok H T \<longrightarrow> T (ad_world ad) \<le> T (ad_world ad'))"
proof -
  obtain t0 wa where a: "hk_perf H (ad_world ad) = (t0, wa)" by fastforce
  obtain s1 wb where b: "hk_stamp H wa = (s1, wb)" by fastforce
  obtain x wc where c: "hk_reset H sid wb = (x, wc)" by fastforce
  obtain s2 wd where d: "hk_stamp H wc = (s2, wd)" by fastforce
  obtain t1 we where e: "hk_perf H wc = (t1, we)" by fastforce
  obtain s3 wf where f: "hk_stamp H we = (s3, wf)" by fastforce
  note steps = a b c d e f
  have mono: "T (ad_world ad) \<le> T wc \<and> T wc \<le> T wd \<and> T wc \<le> T wf" if "clock_ok H T"
  proof -
    note k = clock_okD [OF that]
    show ?thesis using k(1) [OF a] k(2) [OF a] k(3) [OF b] k(7) [OF c] k(3) [OF d]
      k(1) [OF e] k(2) [OF e] k(3) [OF f] by linarith
  qed
  show ?thesis
  proof (cases x)
    case (Inl ex)
    show ?thesis using assms mono
      by (auto simp: reset_def run_simps steps Inl)
  next
    case (Inr u)
    show ?thesis using assms mono
      by (auto simp: reset_def run_simps steps Inr)
  qed
qed

lemma plant_run:
  assumes "plant_canary H sid ad = (r, ad')"
  shows "\<exists>evs. same_but_canaries ad evs ad' \<and> (clock_ok H T \<longrightarrow> T (ad_world ad) \<le> T (ad_world ad')) \<and>
    (case r of
       Inl e \<Rightarrow> (\<exists>m. e = AdapterError m) \<and> ad_canaries ad' = ad_canaries ad \<and>
         map kind evs = [PStr ''CANARY_SUBMIT'', PStr ''ERROR'']
     | Inr c \<Rightarrow> ad_canaries ad' = dset sid c (ad_canaries ad) \<and>
         map kind evs = [PStr ''CANARY_SUBMIT'', PStr ''CANARY_ACK''] \<and>
         cn_polls c = 0 \<and> \<not> cn_settled c \<and> \<not> cn_timed_out c \<and> cn_previous_failed c = None \<and> cn_first_perf c = None \<and>
         (\<exists>a. cn_acknowledged_perf c = Some a \<and>
           (clock_ok H T \<longrightarrow> T (ad_world ad) \<le> cn_submitted_perf c \<and> cn_submitted_perf c \<le> a \<and> a \<le> T (ad_world ad'))))"
proof -
  obtain u wa where a: "hk_uuid H (ad_world ad) = (u, wa)" by fastforce
  obtain cid wb where b: "hk_uuid H wa = (cid, wb)" by fastforce
  obtain st wc where c: "hk_stamp H wb = (st, wc)" by fastforce
  obtain t0 wd where d: "hk_perf H wc = (t0, wd)" by fastforce
  obtain s1 we where e: "hk_stamp H wd = (s1, we)" by fastforce
  obtain x wf where f: "hk_canary_write H sid (canary_text (''memharness-canary-'' @ u)) we = (x, wf)" by fastforce
  obtain s2 wg where g: "hk_stamp H wf = (s2, wg)" by fastforce
  obtain t1 wh where h: "hk_perf H wf = (t1, wh)" by fastforce
  obtain s3 wi where i: "hk_stamp H wh = (s3, wi)" by fastforce
  obtain s4 wj where j: "hk_stamp H wi = (s4, wj)" by fastforce
  note steps = a b c d e f [simplified] g h i j
  have mono: "T (ad_world ad) \<le> t0 \<and> t0 \<le> T wf \<and> T wf \<le> T wg \<and> T wf \<le> t1 \<and> t1 \<le> T wj" if "clock_ok H T"
  proof -
    note k = clock_okD [OF that]
    show ?thesis using k(4) [OF a] k(4) [OF b] k(3) [OF c] k(1) [OF d] k(2) [OF d] k(3) [OF e]
      k(6) [OF f] k(3) [OF g] k(1) [OF h] k(2) [OF h] k(3) [OF i] k(3) [OF j] by linarith
  qed
  let ?evs = "drop (length (ad_events ad)) (ad_events ad')"
  show ?thesis
  proof (cases x)
    case (Inl ex)
    show ?thesis using assms mono
      by (intro exI [of _ ?evs])
        (auto simp: plant_canary_def run_simps steps Inl Let_def new_canary_def error_fields_def
          same_but_canaries_def)
  next
    case (Inr p)
    obtain stored ids where p: "p = (stored, ids)" by fastforce
    show ?thesis using assms mono
      by (intro exI [of _ ?evs])
        (auto simp: plant_canary_def run_simps steps Inr p Let_def new_canary_def set_canary_def
          same_but_canaries_def)
  qed
qed

subsection \<open>The polling loop\<close>

definition polls_in :: "pyval dict list \<Rightarrow> nat" where
  "polls_in evs = length (filter (\<lambda>e. kind e = PStr ''SETTLEMENT_POLL'') evs)"

definition same_canary :: "canary \<Rightarrow> canary \<Rightarrow> bool" where
  "same_canary c c' \<longleftrightarrow> cn_session c' = cn_session c \<and> cn_id c' = cn_id c \<and> cn_token c' = cn_token c \<and>
     cn_text c' = cn_text c \<and> cn_submitted_perf c' = cn_submitted_perf c \<and>
     cn_acknowledged_perf c' = cn_acknowledged_perf c \<and> cn_ack_latency c' = cn_ack_latency c \<and>
     cn_stored c' = cn_stored c \<and> cn_memory_ids c' = cn_memory_ids c"

definition poll_kinds :: "pyval set" where
  "poll_kinds = {PStr ''READ_START'', PStr ''READ_END'', PStr ''ERROR'', PStr ''SETTLEMENT_POLL''}"

lemma polls_in_simps [simp]: "polls_in [] = 0" "polls_in (a @ b) = polls_in a + polls_in b"
  by (simp_all add: polls_in_def)

lemma polls_in_kinds: "polls_in evs = length (filter (\<lambda>k. k = PStr ''SETTLEMENT_POLL'') (map kind evs))"
  by (simp add: polls_in_def filter_map o_def)

lemma same_canary_refl [simp]: "same_canary c c"
  by (simp add: same_canary_def)

lemma same_canary_trans: "same_canary a b \<Longrightarrow> same_canary b c \<Longrightarrow> same_canary a c"
  by (simp add: same_canary_def)

lemma same_after_poll [simp]: "same_canary c (after_poll c v t s)" "cn_settled (after_poll c v t s) = (v \<or> cn_settled c)"
  "cn_polls (after_poll c v t s) = cn_polls c + 1"
  by (simp_all add: same_canary_def after_poll_def)

lemma same_but_trans:
  "same_but_canaries a xs b \<Longrightarrow> same_but_canaries b ys c \<Longrightarrow> same_but_canaries a (xs @ ys) c"
  by (simp add: same_but_canaries_def)

lemma same_but_world [simp]:
  "same_but_canaries ad evs (ad'\<lparr>ad_world := w\<rparr>) = same_but_canaries ad evs ad'"
  "same_but_canaries (ad\<lparr>ad_world := w\<rparr>) evs ad' = same_but_canaries ad evs ad'"
  by (simp_all add: same_but_canaries_def)

text \<open>One poll, in the form the loop needs.\<close>

lemma poll_step:
  assumes run: "is_settled H sid ad = (Inr b, ad')" and c: "dget (ad_canaries ad) sid = Some c"
    and unsettled: "\<not> cn_settled c"
  obtains evs t stamp where "same_but_canaries ad evs ad'" "polls_in evs = 1" "kind ` set evs \<subseteq> poll_kinds"
    "ad_canaries ad' = dset sid (after_poll c b t stamp) (ad_canaries ad)"
    "clock_ok H T \<Longrightarrow> T (ad_world ad) \<le> t \<and> t \<le> T (ad_world ad')"
proof -
  obtain x :: "(hit list \<times> pyval) raises" and evs where ev: "same_but_canaries ad evs ad'"
    and cs: "case x of
        Inl e \<Rightarrow> (\<exists>m. Inr b = Inl (AdapterError m)) \<and>
          ad_canaries ad' = dset sid (c\<lparr>cn_polls := cn_polls c + 1\<rparr>) (ad_canaries ad) \<and>
          map kind evs = [PStr ''READ_START'', PStr ''ERROR'']
      | Inr p \<Rightarrow> Inr b = ( Inr (contains (cn_token c) (assemble_context (fst p))) :: bool raises) \<and>
          (\<exists>t stamp. (clock_ok H T \<longrightarrow> T (ad_world ad) \<le> t \<and> t \<le> T (ad_world ad')) \<and>
             ad_canaries ad' = dset sid (after_poll c (contains (cn_token c) (assemble_context (fst p))) t stamp)
                 (ad_canaries ad)) \<and>
          map kind evs = [PStr ''READ_START'', PStr ''READ_END'', PStr ''SETTLEMENT_POLL'']"
    using poll_run [OF run c unsettled, of T] by blast
  then obtain p where x: "x = Inr p" by (cases x) auto
  from cs have k: "map kind evs = [PStr ''READ_START'', PStr ''READ_END'', PStr ''SETTLEMENT_POLL'']"
    and b: "b = contains (cn_token c) (assemble_context (fst p))"
    and ex: "\<exists>t stamp. (clock_ok H T \<longrightarrow> T (ad_world ad) \<le> t \<and> t \<le> T (ad_world ad')) \<and>
       ad_canaries ad' = dset sid (after_poll c b t stamp) (ad_canaries ad)"
    by (simp_all add: x)
  from ex obtain t stamp where t: "clock_ok H T \<Longrightarrow> T (ad_world ad) \<le> t \<and> t \<le> T (ad_world ad')"
    "ad_canaries ad' = dset sid (after_poll c b t stamp) (ad_canaries ad)" by blast
  have "kind ` set evs = set (map kind evs)" by simp
  then have "kind ` set evs \<subseteq> poll_kinds" unfolding k by (simp add: poll_kinds_def)
  with that [OF ev _ this t(2) t(1)] k show ?thesis by (simp add: polls_in_kinds)
qed

lemma poll_error:
  assumes run: "is_settled H sid ad = (Inl e, ad')" and c: "dget (ad_canaries ad) sid = Some c"
    and unsettled: "\<not> cn_settled c"
  shows "(\<exists>m. e = AdapterError m) \<and> ad_canaries ad' = dset sid (c\<lparr>cn_polls := cn_polls c + 1\<rparr>) (ad_canaries ad) \<and>
    (clock_ok H T \<longrightarrow> T (ad_world ad) \<le> T (ad_world ad'))"
proof -
  obtain x evs ada adb where
     rb: "read_by T H sid (cn_text c) ''settle'' ada adb x" and
     tm: "clock_ok H T \<longrightarrow> T (ad_world ad) \<le> T (ad_world ada) \<and> T (ad_world adb) \<le> T (ad_world ad')"
    and cs: "case x of
        Inl e' \<Rightarrow> (\<exists>m. Inl e = (Inl (AdapterError m) :: bool raises)) \<and>
          ad_canaries ad' = dset sid (c\<lparr>cn_polls := cn_polls c + 1\<rparr>) (ad_canaries ad) \<and>
          map kind evs = [PStr ''READ_START'', PStr ''ERROR'']
      | Inr p \<Rightarrow> Inl e = (Inr (contains (cn_token c) (assemble_context (fst p))) :: bool raises) \<and>
          (\<exists>t stamp. (clock_ok H T \<longrightarrow> T (ad_world ad) \<le> t \<and> t \<le> T (ad_world ad')) \<and>
             ad_canaries ad' = dset sid (after_poll c (contains (cn_token c) (assemble_context (fst p))) t stamp)
                 (ad_canaries ad)) \<and>
          map kind evs = [PStr ''READ_START'', PStr ''READ_END'', PStr ''SETTLEMENT_POLL'']"
    using poll_run [OF run c unsettled, of T] by blast
  from cs obtain e' where x: "x = Inl e'" by (cases x) auto
  from rb obtain w1 w2 where "hk_read H sid (cn_text c) ''settle'' w1 = (x, w2)"
    "clock_ok H T \<longrightarrow> T (ad_world ada) \<le> T w1 \<and> T w2 \<le> T (ad_world adb)" unfolding read_by_def by blast
  then have "clock_ok H T \<longrightarrow> T (ad_world ad) \<le> T (ad_world ad')"
    using tm clock_okD(5) by (metis order_trans)
  with cs show ?thesis by (simp add: x)
qed

lemma poll_loop_run:
  assumes "poll_loop n H sid deadline interval ad = Some (Inr b, ad')"
    "dget (ad_canaries ad) sid = Some c" "\<not> cn_settled c"
  shows "\<exists>c' evs. same_but_canaries ad evs ad' \<and> kind ` set evs \<subseteq> poll_kinds \<and> polls_in evs > 0 \<and>
     ad_canaries ad' = dset sid c' (ad_canaries ad) \<and> same_canary c c' \<and> cn_settled c' = b \<and>
     cn_polls c' = cn_polls c + polls_in evs \<and>
     (clock_ok H T \<longrightarrow> \<not> b \<longrightarrow> deadline \<le> T (ad_world ad'))"
  using assms
proof (induction n arbitrary: ad c)
  case (Suc n)
  obtain q ad1 where poll: "is_settled H sid ad = (q, ad1)" by fastforce
  from Suc.prems(1) poll obtain v where q: "q = Inr v" by (cases q) auto
  obtain evs t stamp where p: "same_but_canaries ad evs ad1" "polls_in evs = 1" "kind ` set evs \<subseteq> poll_kinds"
    "ad_canaries ad1 = dset sid (after_poll c v t stamp) (ad_canaries ad)"
    using poll_step [OF poll [unfolded q] Suc.prems(2,3)] by metis
  obtain t1 w where hp: "hk_perf H (ad_world ad1) = (t1, w)" by fastforce
  show ?case
  proof (cases "v \<or> deadline \<le> t1")
    case True
    then have fin: "b = v" "ad' = ad1 \<or> ad' = ad1\<lparr>ad_world := w\<rparr>" "\<not> v \<Longrightarrow> ad_world ad' = w"
      using Suc.prems(1) poll q hp by (auto split: bool.splits)
    have "deadline \<le> T (ad_world ad')" if "clock_ok H T" "\<not> b"
      using True fin that clock_okD(2) [OF that(1) hp] by auto
    moreover have "ad_canaries ad' = ad_canaries ad1" using fin by auto
    moreover have "same_but_canaries ad evs ad'" using fin p(1) by auto
    ultimately show ?thesis using p fin Suc.prems(3)
      by (intro exI [of _ "after_poll c v t stamp"] exI [of _ evs]) simp
  next
    case False
    then have rec: "poll_loop n H sid deadline interval (ad1\<lparr>ad_world := hk_sleep H interval w\<rparr>) = Some (Inr b, ad')"
      using Suc.prems(1) poll q hp by simp
    obtain c' evs' where ih: "same_but_canaries (ad1\<lparr>ad_world := hk_sleep H interval w\<rparr>) evs' ad'"
      "kind ` set evs' \<subseteq> poll_kinds"
      "ad_canaries ad' = dset sid c' (ad_canaries ad1)" "same_canary (after_poll c v t stamp) c'" "cn_settled c' = b"
      "cn_polls c' = cn_polls (after_poll c v t stamp) + polls_in evs'"
      "clock_ok H T \<longrightarrow> \<not> b \<longrightarrow> deadline \<le> T (ad_world ad')"
      using Suc.IH [OF rec, of "after_poll c v t stamp"] p(4) False Suc.prems(3) by auto
    have "same_but_canaries ad (evs @ evs') ad'" using same_but_trans [OF p(1)] ih(1) by simp
    moreover have "same_canary c c'" using same_canary_trans [OF _ ih(4)] by simp
    ultimately show ?thesis using p ih
      by (intro exI [of _ c'] exI [of _ "evs @ evs'"]) (simp add: image_Un)
  qed
qed simp

subsection \<open>wait_settled\<close>

lemma kind_settlement [simp]:
  "kind (dupdate ((''event_type'', v) # base) (settlement_fields r)) = v"
proof -
  have "''event_type'' \<notin> fst ` set (settlement_fields r)"
    by (simp add: settlement_fields_def lag_fields_def)
  then show ?thesis by (simp add: kind_def vget_def dget_dupdate_notin)
qed

lemma clean_up_run:
  obtains cl w where "clean_up H sid c ad = (Inr cl, ad\<lparr>ad_world := w\<rparr>)"
    "clock_ok H T \<Longrightarrow> T (ad_world ad) \<le> T w"
proof -
  obtain x w where h: "hk_cleanup H sid c (ad_world ad) = (x, w)" by fastforce
  show ?thesis
  proof (cases "sc_cleanup (ad_config ad)")
    case True
    have "\<exists>cl. clean_up H sid c ad = (Inr cl, ad\<lparr>ad_world := w\<rparr>)"
      by (cases x) (simp_all add: clean_up_def True run_simps h)
    then show ?thesis using that clock_okD(9) [OF _ h] by blast
  next
    case False
    have "clean_up H sid c ad = (Inr ''skipped'', ad\<lparr>ad_world := ad_world ad\<rparr>)"
      by (simp add: clean_up_def False)
    then show ?thesis using that by blast
  qed
qed

lemma conclude_run:
  assumes "conclude H sid tmo iv st c b ad = (r, ad')"
  obtains res evs cl where "r = Inr res" "same_but_canaries ad evs ad'"
    "map kind evs = [PStr (if b then ''WRITE_SETTLED'' else ''SETTLEMENT_TIMEOUT'')]"
    "ad_canaries ad' = dset sid (c\<lparr>cn_timed_out := \<not> b, cn_cleanup := Some cl\<rparr>) (ad_canaries ad)"
    "st_canary res = c\<lparr>cn_timed_out := \<not> b, cn_cleanup := Some cl\<rparr>" "st_settled res = b"
    "st_timed_out res = (\<not> b)" "st_polls res = cn_polls c" "st_timeout res = tmo"
    "clock_ok H T \<Longrightarrow> T (ad_world ad) \<le> T (ad_world ad')"
proof -
  obtain cl w where cu: "clean_up H sid (c\<lparr>cn_timed_out := \<not> b\<rparr>) (ad\<lparr>ad_canaries := dset sid (c\<lparr>cn_timed_out := \<not> b\<rparr>) (ad_canaries ad)\<rparr>) =
      (Inr cl, ad\<lparr>ad_canaries := dset sid (c\<lparr>cn_timed_out := \<not> b\<rparr>) (ad_canaries ad), ad_world := w\<rparr>)"
    and t1: "clock_ok H T \<Longrightarrow> T (ad_world ad) \<le> T w"
    by (rule clean_up_run [of H sid "c\<lparr>cn_timed_out := \<not> b\<rparr>"
          "ad\<lparr>ad_canaries := dset sid (c\<lparr>cn_timed_out := \<not> b\<rparr>) (ad_canaries ad)\<rparr>" T]) auto
  obtain fin w1 where s1: "hk_stamp H w = (fin, w1)" by fastforce
  obtain x w2 where s2: "hk_stamp H w1 = (x, w2)" by fastforce
  have time: "clock_ok H T \<Longrightarrow> T (ad_world ad) \<le> T w2"
    using t1 clock_okD(3) [OF _ s1, of T] clock_okD(3) [OF _ s2, of T] by fastforce
  let ?evs = "drop (length (ad_events ad)) (ad_events ad')"
  let ?c2 = "c\<lparr>cn_timed_out := \<not> b, cn_cleanup := Some cl\<rparr>"
  let ?res = "\<lparr>st_session = sid, st_settled = b, st_timed_out = \<not> b, st_timeout = tmo,
      st_interval = iv, st_polls = cn_polls ?c2, st_canary = ?c2, st_started_at = st, st_finished_at = fin\<rparr>"
  have "r = Inr ?res \<and> same_but_canaries ad ?evs ad' \<and> ad_world ad' = w2 \<and>
      map kind ?evs = [PStr (if b then ''WRITE_SETTLED'' else ''SETTLEMENT_TIMEOUT'')] \<and>
      ad_canaries ad' = dset sid ?c2 (ad_canaries ad)"
    using assms cu s1 s2
    by (cases b) (simp_all add: conclude_def Let_def set_canary_def run_simps same_but_canaries_def, auto)
  then show ?thesis using that [of ?res ?evs cl] time by simp
qed

definition canary_inv :: "('w \<Rightarrow> rat) \<Rightarrow> 'w \<Rightarrow> canary \<Rightarrow> bool" where
  "canary_inv T w c \<longleftrightarrow>
     (\<exists>a. cn_acknowledged_perf c = Some a \<and> cn_submitted_perf c \<le> a \<and> a \<le> T w \<and>
        (\<forall>p. cn_previous_failed c = Some p \<longrightarrow> a \<le> p \<and> p \<le> T w) \<and>
        (\<forall>f. cn_first_perf c = Some f \<longrightarrow> a \<le> f \<and> f \<le> T w \<and>
           (\<forall>p. cn_previous_failed c = Some p \<longrightarrow> p \<le> f))) \<and>
     (cn_settled c \<longleftrightarrow> cn_first_perf c \<noteq> None)"

definition canaries_inv :: "('w \<Rightarrow> rat) \<Rightarrow> 'w adapter \<Rightarrow> bool" where
  "canaries_inv T ad \<longleftrightarrow> (\<forall>sid c. dget (ad_canaries ad) sid = Some c \<longrightarrow> canary_inv T (ad_world ad) c)"

lemma canary_acknowledged:
  assumes "canaries_inv T ad" "dget (ad_canaries ad) sid = Some c"
  obtains a where "cn_acknowledged_perf c = Some a" "a \<le> T (ad_world ad)"
  using assms unfolding canaries_inv_def canary_inv_def by blast

lemma canary_inv_later: "canary_inv T w c \<Longrightarrow> T w \<le> T w' \<Longrightarrow> canary_inv T w' c"
  by (auto simp: canary_inv_def)

lemma canaries_inv_later:
  "canaries_inv T ad \<Longrightarrow> ad_canaries ad' = ad_canaries ad \<Longrightarrow> T (ad_world ad) \<le> T (ad_world ad')
    \<Longrightarrow> canaries_inv T ad'"
  unfolding canaries_inv_def using canary_inv_later by metis

lemma canaries_inv_set:
  assumes "canaries_inv T ad" "ad_canaries ad' = dset sid c (ad_canaries ad)"
    "T (ad_world ad) \<le> T (ad_world ad')" "canary_inv T (ad_world ad') c"
  shows "canaries_inv T ad'"
  using assms canary_inv_later unfolding canaries_inv_def by (metis dget_dset option.inject)

lemma canary_inv_after_poll:
  assumes "canary_inv T w c" "\<not> cn_settled c" "T w \<le> t" "t \<le> T w'"
  shows "canary_inv T w' (after_poll c v t stamp)"
proof -
  from assms(1) obtain a where a: "cn_acknowledged_perf c = Some a" "cn_submitted_perf c \<le> a" "a \<le> T w"
    "\<forall>p. cn_previous_failed c = Some p \<longrightarrow> a \<le> p \<and> p \<le> T w" unfolding canary_inv_def by blast
  from assms(1,2) have n: "cn_first_perf c = None" by (auto simp: canary_inv_def)
  show ?thesis
  proof (cases v)
    case True
    with a n assms(2-4) show ?thesis
      by (auto simp: canary_inv_def after_poll_def intro: order_trans)
  next
    case False
    with a n assms(2-4) show ?thesis
      by (auto simp: canary_inv_def after_poll_def intro: order_trans)
  qed
qed

lemma deadline_run:
  assumes "deadline_of H c tmo ad = (r, ad')"
  obtains d w where "r = Inr d" "ad' = ad\<lparr>ad_world := w\<rparr>" "clock_ok H T \<Longrightarrow> T (ad_world ad) \<le> T w"
    "cn_acknowledged_perf c = Some a \<Longrightarrow> clock_ok H T \<Longrightarrow> a \<le> T (ad_world ad) \<Longrightarrow> a + tmo \<le> d \<and> d \<le> T w + tmo"
proof -
  obtain t w where h: "hk_perf H (ad_world ad) = (t, w)" by fastforce
  note k = clock_okD(1) [OF _ h, of T] clock_okD(2) [OF _ h, of T]
  show ?thesis
  proof (cases "\<exists>x. cn_acknowledged_perf c = Some x \<and> x \<noteq> 0")
    case True
    then obtain x where x: "cn_acknowledged_perf c = Some x" "r = Inr (x + tmo)"
      "ad' = ad\<lparr>ad_world := ad_world ad\<rparr>"
      using assms by (auto simp: deadline_of_def)
    show ?thesis by (rule that [OF x(2,3)]) (auto simp: x)
  next
    case False
    then have "r = Inr (t + tmo) \<and> ad' = ad\<lparr>ad_world := w\<rparr>"
      using assms h by (auto simp: deadline_of_def run_simps split: option.splits if_splits)
    then show ?thesis using that [of "t + tmo" w] k by force
  qed
qed

text \<open>The loop from any state of the canary: an error leaves the canary polled, and every state
  keeps the invariant.\<close>

lemma poll_loop_inv:
  assumes "poll_loop n H sid deadline interval ad = Some (q, ad')"
    "dget (ad_canaries ad) sid = Some c" "\<not> cn_settled c" "canaries_inv T ad" "clock_ok H T" "0 \<le> interval"
  shows "canaries_inv T ad' \<and> T (ad_world ad) \<le> T (ad_world ad')"
  using assms
proof (induction n arbitrary: ad c)
  case (Suc n)
  note inv = Suc.prems(4) and clk = Suc.prems(5)
  have c: "canary_inv T (ad_world ad) c" using inv Suc.prems(2) by (auto simp: canaries_inv_def)
  obtain p ad1 where poll: "is_settled H sid ad = (p, ad1)" by fastforce
  show ?case
  proof (cases p)
    case (Inl e)
    have e: "ad_canaries ad1 = dset sid (c\<lparr>cn_polls := cn_polls c + 1\<rparr>) (ad_canaries ad)"
      "T (ad_world ad) \<le> T (ad_world ad1)"
      using poll_error [OF poll [unfolded Inl] Suc.prems(2,3), of T] clk by auto
    have "canary_inv T (ad_world ad1) (c\<lparr>cn_polls := cn_polls c + 1\<rparr>)"
      using canary_inv_later [OF c e(2)] by (simp add: canary_inv_def)
    with canaries_inv_set [OF inv e] e have "canaries_inv T ad1" by simp
    with Suc.prems(1) poll Inl e show ?thesis by simp
  next
    case (Inr v)
    obtain t stamp where p: "ad_canaries ad1 = dset sid (after_poll c v t stamp) (ad_canaries ad)"
      "T (ad_world ad) \<le> t" "t \<le> T (ad_world ad1)"
      using poll_step [OF poll [unfolded Inr] Suc.prems(2,3), of T] clk by metis
    have i1: "canaries_inv T ad1"
      using canaries_inv_set [OF inv p(1)] canary_inv_after_poll [OF c Suc.prems(3) p(2,3)] p(2,3) by simp
    obtain t1 w where hp: "hk_perf H (ad_world ad1) = (t1, w)" by fastforce
    have tw: "T (ad_world ad1) \<le> T w" "T w \<le> T (hk_sleep H interval w)"
      using clock_okD(1) [OF clk hp] clock_okD(2) [OF clk hp] clock_okD(10) [OF clk, of w interval] Suc.prems(6)
      by linarith+
    have i2: "canaries_inv T (ad1\<lparr>ad_world := w\<rparr>)" "canaries_inv T (ad1\<lparr>ad_world := hk_sleep H interval w\<rparr>)"
      using i1 tw by (auto intro!: canaries_inv_later [OF i1])
    show ?thesis
    proof (cases "v \<or> deadline \<le> t1")
      case True
      then have "ad' = ad1 \<or> ad' = ad1\<lparr>ad_world := w\<rparr>"
        using Suc.prems(1) poll Inr hp by (auto split: bool.splits)
      with i1 i2 tw p show ?thesis by auto
    next
      case False
      then have "poll_loop n H sid deadline interval (ad1\<lparr>ad_world := hk_sleep H interval w\<rparr>) = Some (q, ad')"
        using Suc.prems(1) poll Inr hp by simp
      from Suc.IH [OF this, of "after_poll c v t stamp"] p(1) False Suc.prems(3) i2 clk Suc.prems(6)
      have "canaries_inv T ad' \<and> T (hk_sleep H interval w) \<le> T (ad_world ad')" by simp
      with tw p show ?thesis by linarith
    qed
  qed
qed simp

lemma poll_again:
  assumes poll: "is_settled H sid ad = (Inr False, ad1)" and clk: "clock_ok H T"
  obtains c where "dget (ad_canaries ad) sid = Some c" "\<not> cn_settled c" "T (ad_world ad) \<le> T (ad_world ad1)"
proof -
  obtain c where c: "dget (ad_canaries ad) sid = Some c" "\<not> cn_settled c"
    using poll by (auto simp: is_settled_def split: option.splits if_splits)
  show ?thesis using poll_step [OF poll c, of T thesis] clk that [OF c] order_trans by metis
qed

lemma poll_loop_enough:
  assumes clk: "clock_ok H T" and pos: "0 < interval"
    and enough: "deadline \<le> T (ad_world ad) + of_nat n * interval"
  shows "poll_loop (Suc n) H sid deadline interval ad \<noteq> None"
  using enough
proof (induction n arbitrary: ad)
  case (0 ad)
  obtain p ad1 where poll: "is_settled H sid ad = (p, ad1)" by fastforce
  show ?case
  proof (cases "p = Inr False")
    case True
    obtain t1 w where hp: "hk_perf H (ad_world ad1) = (t1, w)" by fastforce
    have "T (ad_world ad) \<le> T (ad_world ad1)" using poll_again [OF poll [unfolded True] clk] by blast
    then have "deadline \<le> t1" using 0 clock_okD(1) [OF clk hp] by simp
    then show ?thesis using poll True hp by simp
  next
    case False
    then show ?thesis using poll by (auto split: sum.splits bool.splits)
  qed
next
  case (Suc n ad)
  obtain p ad1 where poll: "is_settled H sid ad = (p, ad1)" by fastforce
  show ?case
  proof (cases "p = Inr False")
    case True
    obtain t1 w where hp: "hk_perf H (ad_world ad1) = (t1, w)" by fastforce
    have "T (ad_world ad) \<le> T (ad_world ad1)" using poll_again [OF poll [unfolded True] clk] by blast
    then have "T (ad_world ad) + interval \<le> T (hk_sleep H interval w)"
      using clock_okD(1) [OF clk hp] clock_okD(2) [OF clk hp] clock_okD(10) [OF clk, of w interval] by linarith
    then have "deadline \<le> T (hk_sleep H interval w) + of_nat n * interval"
      using Suc.prems by (simp add: algebra_simps)
    then have "poll_loop (Suc n) H sid deadline interval (ad1\<lparr>ad_world := hk_sleep H interval w\<rparr>) \<noteq> None"
      by (intro Suc.IH) simp
    then show ?thesis using poll True hp by (subst poll_loop.simps) simp
  next
    case False
    then show ?thesis using poll by (subst poll_loop.simps) (auto split: sum.splits bool.splits)
  qed
qed

lemma plant_inv:
  assumes "canaries_inv T ad" "clock_ok H T" shows "canaries_inv T (snd (plant_canary H sid ad))"
proof -
  obtain r ad' where r: "plant_canary H sid ad = (r, ad')" by fastforce
  show ?thesis
  proof (cases r)
    case (Inl e)
    then show ?thesis using plant_run [OF r, of T] assms canaries_inv_later [OF assms(1), of ad'] by (auto simp: r)
  next
    case (Inr c)
    then have k: "ad_canaries ad' = dset sid c (ad_canaries ad)" "T (ad_world ad) \<le> T (ad_world ad')"
      "canary_inv T (ad_world ad') c"
      using plant_run [OF r, of T] assms(2) by (auto simp: canary_inv_def)
    then show ?thesis using canaries_inv_set [OF assms(1) k] by (simp add: r)
  qed
qed

subsection \<open>A whole wait\<close>

definition timeout_of :: "'w adapter \<Rightarrow> rat option \<Rightarrow> rat" where
  "timeout_of ad t = (case t of None \<Rightarrow> sc_timeout (ad_config ad) | Some x \<Rightarrow> x)"

definition interval_of :: "'w adapter \<Rightarrow> rat option \<Rightarrow> rat" where
  "interval_of ad t = (case t of None \<Rightarrow> sc_interval (ad_config ad) | Some x \<Rightarrow> x)"

text \<open>The canary a wait polls: the pending one, or a new one.\<close>

lemma wait_canary:
  assumes beg: "pending_or_planted H sid ad = (Inr c, ad1)"
  shows "\<not> cn_settled c \<and> (\<exists>evs. same_but_canaries ad evs ad1 \<and>
      map kind evs = (if pending ad sid = None then [PStr ''CANARY_SUBMIT'', PStr ''CANARY_ACK''] else [])) \<and>
      ad_canaries ad1 = dset sid c (ad_canaries ad) \<and> (pending ad sid = None \<or> pending ad sid = Some c) \<and>
      (pending ad sid = None \<longrightarrow> cn_polls c = 0) \<and>
      (canaries_inv T ad \<longrightarrow> clock_ok H T \<longrightarrow> canaries_inv T ad1 \<and> T (ad_world ad) \<le> T (ad_world ad1))"
proof (cases "pending ad sid")
  case None
  then have pl: "plant_canary H sid ad = (Inr c, ad1)" using beg by (simp add: pending_or_planted_def)
  obtain evs where "same_but_canaries ad evs ad1"
    "clock_ok H T \<longrightarrow> T (ad_world ad) \<le> T (ad_world ad1)" "ad_canaries ad1 = dset sid c (ad_canaries ad)"
    "map kind evs = [PStr ''CANARY_SUBMIT'', PStr ''CANARY_ACK'']"
    "\<not> cn_settled c" "cn_polls c = 0" using plant_run [OF pl, of T] by auto
  moreover have "canaries_inv T ad1" if "canaries_inv T ad" "clock_ok H T"
    using plant_inv [OF that, of sid] by (simp add: pl)
  ultimately show ?thesis using None by auto
next
  case (Some c')
  then have e: "c' = c" "ad1 = ad" using beg by (auto simp: pending_or_planted_def)
  have dg: "dget (ad_canaries ad) sid = Some c" "\<not> cn_settled c"
    using Some e by (auto simp: pending_def split: option.splits if_splits)
  have "same_but_canaries ad [] ad1" by (simp add: e same_but_canaries_def)
  with dg Some e show ?thesis by (simp add: update_triv)
qed

lemma wait_start:
  assumes "wait_settled fuel H sid t i ad = Some (Inr res, ad')"
  obtains c ad1 evs d w b ad3 c3 st where
    "same_but_canaries ad evs ad1"
    "map kind evs = (if pending ad sid = None then [PStr ''CANARY_SUBMIT'', PStr ''CANARY_ACK''] else [])"
    "ad_canaries ad1 = dset sid c (ad_canaries ad)"
    "pending ad sid = None \<or> pending ad sid = Some c"
    "\<not> cn_settled c" "pending ad sid = None \<longrightarrow> cn_polls c = 0"
    "deadline_of H c (timeout_of ad t) ad1 = (Inr d, ad1\<lparr>ad_world := w\<rparr>)"
    "poll_loop fuel H sid d (interval_of ad i) (ad1\<lparr>ad_world := w\<rparr>) = Some (Inr b, ad3)"
    "dget (ad_canaries ad3) sid = Some c3"
    "conclude H sid (timeout_of ad t) (interval_of ad i) st c3 b ad3 = (Inr res, ad')"
    "canaries_inv T ad \<Longrightarrow> clock_ok H T \<Longrightarrow>
       canaries_inv T ad1 \<and> T (ad_world ad) \<le> T (ad_world ad1) \<and> T (ad_world ad1) \<le> T w"
proof -
  obtain st w0 where s: "hk_stamp H (ad_world ad) = (st, w0)" by fastforce
  let ?ad0 = "ad\<lparr>ad_world := w0\<rparr>"
  have pend: "pending ?ad0 sid = pending ad sid" by (simp add: pending_def)
  obtain q ad1 where beg: "pending_or_planted H sid ?ad0 = (q, ad1)" by fastforce
  have run: "(case q of Inl e \<Rightarrow> Some (Inl e, ad1)
       | Inr c \<Rightarrow> wait_polling fuel H sid (timeout_of ad t) (interval_of ad i) st c ad1) = Some (Inr res, ad')"
    using assms by (simp add: wait_settled_def s beg timeout_of_def interval_of_def split: sum.splits)
  then obtain c where q: "q = Inr c" by (cases q) auto
  obtain dl ad2 where dl: "deadline_of H c (timeout_of ad t) ad1 = (dl, ad2)" by fastforce
  obtain d w where d: "dl = Inr d" "ad2 = ad1\<lparr>ad_world := w\<rparr>" "clock_ok H T \<Longrightarrow> T (ad_world ad1) \<le> T w"
    using deadline_run [OF dl, of T] by metis
  obtain pr ad3 where loop: "poll_loop fuel H sid d (interval_of ad i) (ad1\<lparr>ad_world := w\<rparr>) = Some (pr, ad3)"
    using run q dl d by (auto simp: wait_polling_def split: option.splits)
  obtain b where pr: "pr = Inr b" using run q dl d loop by (cases pr) (auto simp: wait_polling_def)
  have fin: "conclude H sid (timeout_of ad t) (interval_of ad i) st
      (case dget (ad_canaries ad3) sid of None \<Rightarrow> c | Some c3 \<Rightarrow> c3) b ad3 = (Inr res, ad')"
    using run q dl d loop pr by (simp add: Let_def wait_polling_def)
  note begun = wait_canary [OF beg [unfolded q], of T, unfolded pend]
  have time: "canaries_inv T ad1 \<and> T (ad_world ad) \<le> T (ad_world ad1)" if k: "canaries_inv T ad" "clock_ok H T"
  proof -
    have a: "T (ad_world ad) \<le> T w0" by (rule clock_okD(3) [OF k(2) s])
    moreover have "canaries_inv T ?ad0" by (rule canaries_inv_later [OF k(1)]) (simp_all add: a)
    ultimately show ?thesis using begun k(2) by auto
  qed
  have ex: "\<exists>evs. same_but_canaries ad evs ad1 \<and>
      map kind evs = (if pending ad sid = None then [PStr ''CANARY_SUBMIT'', PStr ''CANARY_ACK''] else [])"
    and st2: "ad_canaries ad1 = dset sid c (ad_canaries ad)" "pending ad sid = None \<or> pending ad sid = Some c"
      "\<not> cn_settled c" "pending ad sid = None \<longrightarrow> cn_polls c = 0"
    using begun by simp_all
  from ex obtain evs where st: "same_but_canaries ad evs ad1"
      "map kind evs = (if pending ad sid = None then [PStr ''CANARY_SUBMIT'', PStr ''CANARY_ACK''] else [])"
    by (elim exE conjE)
  have "dget (ad_canaries (ad1\<lparr>ad_world := w\<rparr>)) sid = Some c" using st2 by simp
  then obtain c3 where c3: "dget (ad_canaries ad3) sid = Some c3"
    using poll_loop_run [OF loop [unfolded pr] _ st2(3)] by (metis dget_dset)
  have d2: "deadline_of H c (timeout_of ad t) ad1 = (Inr d, ad1\<lparr>ad_world := w\<rparr>)" using dl d by simp
  have fin2: "conclude H sid (timeout_of ad t) (interval_of ad i) st c3 b ad3 = (Inr res, ad')"
    using fin c3 by simp
  have time2: "canaries_inv T ad1 \<and> T (ad_world ad) \<le> T (ad_world ad1) \<and> T (ad_world ad1) \<le> T w"
    if "canaries_inv T ad" "clock_ok H T" using time [OF that] d(3) [OF that(2)] by simp
  show ?thesis by (rule that [OF st st2(1-4) d2 loop [unfolded pr] c3 fin2]) (rule time2; assumption)+
qed

lemma wait_shape:
  assumes "wait_settled fuel H sid t i ad = Some (Inr res, ad')"
  shows "\<exists>evs verdict. ad_events ad' = ad_events ad @ evs @ [verdict] \<and>
     kind verdict = PStr (if st_settled res then ''WRITE_SETTLED'' else ''SETTLEMENT_TIMEOUT'') \<and>
     (\<forall>e \<in> set evs. kind e \<noteq> PStr ''WRITE_SETTLED'' \<and> kind e \<noteq> PStr ''SETTLEMENT_TIMEOUT'') \<and>
     0 < polls_in evs \<and>
     st_polls res = polls_in evs + (case pending ad sid of None \<Rightarrow> 0 | Some c \<Rightarrow> cn_polls c) \<and>
     st_timed_out res = (\<not> st_settled res) \<and> cn_settled (st_canary res) = st_settled res \<and>
     cn_timed_out (st_canary res) = st_timed_out res \<and>
     ad_canaries ad' = dset sid (st_canary res) (ad_canaries ad) \<and>
     (pending ad sid \<noteq> None \<longrightarrow> (\<forall>e \<in> set evs. kind e \<noteq> PStr ''CANARY_SUBMIT'')) \<and>
     (\<forall>c. pending ad sid = Some c \<longrightarrow> same_canary c (st_canary res))"
proof -
  obtain c ad1 evs1 d w b ad3 c3 st where w: "same_but_canaries ad evs1 ad1"
    "map kind evs1 = (if pending ad sid = None then [PStr ''CANARY_SUBMIT'', PStr ''CANARY_ACK''] else [])"
    "ad_canaries ad1 = dset sid c (ad_canaries ad)"
    "pending ad sid = None \<or> pending ad sid = Some c"
    "\<not> cn_settled c" "pending ad sid = None \<longrightarrow> cn_polls c = 0"
    "poll_loop fuel H sid d (interval_of ad i) (ad1\<lparr>ad_world := w\<rparr>) = Some (Inr b, ad3)"
    "dget (ad_canaries ad3) sid = Some c3"
    "conclude H sid (timeout_of ad t) (interval_of ad i) st c3 b ad3 = (Inr res, ad')"
    by (rule wait_start [where T = "\<lambda>_. 0", OF assms]) (rule that; assumption)
  have "dget (ad_canaries (ad1\<lparr>ad_world := w\<rparr>)) sid = Some c" using w(3) by simp
  then obtain c' evs2 where l: "same_but_canaries (ad1\<lparr>ad_world := w\<rparr>) evs2 ad3" "kind ` set evs2 \<subseteq> poll_kinds"
    "polls_in evs2 > 0" "ad_canaries ad3 = dset sid c' (ad_canaries ad1)" "cn_settled c' = b"
    "cn_polls c' = cn_polls c + polls_in evs2" "same_canary c c'"
    using poll_loop_run [OF w(7) _ w(5), of "\<lambda>_. 0"] by auto
  obtain res2 evs3 cl where r2: "(Inr res :: settlement raises) = Inr res2" and f0: "same_but_canaries ad3 evs3 ad'"
    "map kind evs3 = [PStr (if b then ''WRITE_SETTLED'' else ''SETTLEMENT_TIMEOUT'')]"
    "ad_canaries ad' = dset sid (c3\<lparr>cn_timed_out := \<not> b, cn_cleanup := Some cl\<rparr>) (ad_canaries ad3)"
    "st_canary res2 = c3\<lparr>cn_timed_out := \<not> b, cn_cleanup := Some cl\<rparr>" "st_settled res2 = b"
    "st_timed_out res2 = (\<not> b)" "st_polls res2 = cn_polls c3"
    by (rule conclude_run [where T = "\<lambda>_. 0", OF w(9)]) (rule that; assumption)
  have "res2 = res" using r2 by simp
  note f = f0 [unfolded this]
  have c3: "c3 = c'" using w(8) l(4) by simp
  obtain v where v: "evs3 = [v]" using f(2) by (cases evs3) auto
  have p1: "polls_in evs1 = 0" using w(2) by (simp add: polls_in_kinds)
  have "kind e \<in> set (map kind evs1) \<union> poll_kinds" if "e \<in> set (evs1 @ evs2)" for e
    using that l(2) by auto
  then have quiet: "\<forall>e \<in> set (evs1 @ evs2). kind e \<noteq> PStr ''WRITE_SETTLED'' \<and> kind e \<noteq> PStr ''SETTLEMENT_TIMEOUT''"
    unfolding w(2) by (fastforce simp: poll_kinds_def split: if_splits)
  have "same_but_canaries ad ((evs1 @ evs2) @ [v]) ad'"
    using same_but_trans [OF same_but_trans [OF w(1)] f(1)] l(1) v by simp
  moreover have "kind v = PStr (if b then ''WRITE_SETTLED'' else ''SETTLEMENT_TIMEOUT'')" using f(2) v by simp
  moreover have "ad_canaries ad' = dset sid (st_canary res) (ad_canaries ad)"
    using f(3,4) l(4) w(3) by simp
  moreover have "polls_in (evs1 @ evs2) = polls_in evs2" using p1 by simp
  moreover have "cn_polls c = (case pending ad sid of None \<Rightarrow> 0 | Some c \<Rightarrow> cn_polls c)"
    using w(4,6) by auto
  moreover have "\<forall>e \<in> set (evs1 @ evs2). kind e \<noteq> PStr ''CANARY_SUBMIT''" if "pending ad sid \<noteq> None"
    using w(2) l(2) that by (fastforce simp: poll_kinds_def)
  moreover have "same_canary c (st_canary res)" using f(4) c3 l(7) by (simp add: same_canary_def)
  then have "\<forall>c. pending ad sid = Some c \<longrightarrow> same_canary c (st_canary res)" using w(4) by auto
  ultimately show ?thesis using quiet l(3,5,6) f(4-7) c3
    by (intro exI [of _ "evs1 @ evs2"] exI [of _ v]) (simp add: same_but_canaries_def)
qed

subsection \<open>The public operations, and what every sequence of them keeps\<close>

datatype op =
    OpReset string
  | OpWrite string "pyval list" pyval
  | OpSearch string string string
  | OpPlant string
  | OpPoll string
  | OpWait nat string "rat option" "rat option"

inductive adapter_step :: "'w hooks \<Rightarrow> 'w adapter \<Rightarrow> op \<Rightarrow> 'w adapter \<Rightarrow> bool" for H where
  "snd (reset H sid ad) = ad' \<Longrightarrow> adapter_step H ad (OpReset sid) ad'"
| "snd (write_memory H sid msgs md ad) = ad' \<Longrightarrow> adapter_step H ad (OpWrite sid msgs md) ad'"
| "snd (search H sid q k ad) = ad' \<Longrightarrow> adapter_step H ad (OpSearch sid q k) ad'"
| "snd (plant_canary H sid ad) = ad' \<Longrightarrow> adapter_step H ad (OpPlant sid) ad'"
| "snd (is_settled H sid ad) = ad' \<Longrightarrow> adapter_step H ad (OpPoll sid) ad'"
| "wait_settled fuel H sid t i ad = Some (r, ad') \<Longrightarrow> 0 \<le> interval_of ad i \<Longrightarrow>
     adapter_step H ad (OpWait fuel sid t i) ad'"

inductive_cases adapter_stepE: "adapter_step H ad k ad'"

inductive adapter_run :: "'w hooks \<Rightarrow> 'w adapter \<Rightarrow> op list \<Rightarrow> 'w adapter \<Rightarrow> bool" for H where
  run_none: "adapter_run H ad [] ad"
| run_some: "adapter_run H ad ks ad1 \<Longrightarrow> adapter_step H ad1 k ad2 \<Longrightarrow> adapter_run H ad (ks @ [k]) ad2"

lemma quiet_inv:
  "quiet T H K m \<Longrightarrow> canaries_inv T ad \<Longrightarrow> clock_ok H T \<Longrightarrow> canaries_inv T (snd (m ad))"
  unfolding quiet_def follows_def using canaries_inv_later by (metis prod.collapse)

lemma reset_inv:
  assumes "canaries_inv T ad" "clock_ok H T" shows "canaries_inv T (snd (reset H sid ad))"
proof -
  obtain r ad' where r: "reset H sid ad = (r, ad')" by fastforce
  have k: "ad_canaries ad' = dpop sid (ad_canaries ad) \<or> ad_canaries ad' = ad_canaries ad"
    "T (ad_world ad) \<le> T (ad_world ad')"
    using reset_run [OF r, of T] assms(2) by auto
  then show ?thesis using assms(1) canary_inv_later [where T = T and w = "ad_world ad" and w' = "ad_world ad'", OF _ k(2)]
    by (auto simp: r canaries_inv_def split: if_splits)
qed

lemma poll_inv:
  assumes inv: "canaries_inv T ad" and clk: "clock_ok H T" shows "canaries_inv T (snd (is_settled H sid ad))"
proof -
  obtain r ad' where r: "is_settled H sid ad = (r, ad')" by fastforce
  show ?thesis
  proof (cases "\<exists>c. dget (ad_canaries ad) sid = Some c \<and> \<not> cn_settled c")
    case False
    then show ?thesis using inv by (auto simp: is_settled_def split: option.splits)
  next
    case True
    then obtain c where c: "dget (ad_canaries ad) sid = Some c" "\<not> cn_settled c" by blast
    have ci: "canary_inv T (ad_world ad) c" using inv c by (auto simp: canaries_inv_def)
    show ?thesis
    proof (cases r)
      case (Inl e)
      have e: "ad_canaries ad' = dset sid (c\<lparr>cn_polls := cn_polls c + 1\<rparr>) (ad_canaries ad)"
        "T (ad_world ad) \<le> T (ad_world ad')"
        using poll_error [OF r [unfolded Inl] c, of T] clk by auto
      have "canary_inv T (ad_world ad') (c\<lparr>cn_polls := cn_polls c + 1\<rparr>)"
        using canary_inv_later [OF ci e(2)] by (simp add: canary_inv_def)
      then show ?thesis using canaries_inv_set [OF inv e] by (simp add: r)
    next
      case (Inr v)
      obtain t stamp where p: "ad_canaries ad' = dset sid (after_poll c v t stamp) (ad_canaries ad)"
        "T (ad_world ad) \<le> t" "t \<le> T (ad_world ad')"
        using poll_step [OF r [unfolded Inr] c, of T] clk by metis
      then show ?thesis
        using canaries_inv_set [OF inv p(1)] canary_inv_after_poll [OF ci c(2) p(2,3)] p(2,3) by (simp add: r)
    qed
  qed
qed

lemma conclude_inv:
  assumes "canaries_inv T ad" "clock_ok H T" "dget (ad_canaries ad) sid = Some c"
  shows "canaries_inv T (snd (conclude H sid tmo iv st c b ad))"
proof -
  obtain r ad' where r: "conclude H sid tmo iv st c b ad = (r, ad')" by fastforce
  obtain cl where k: "ad_canaries ad' = dset sid (c\<lparr>cn_timed_out := \<not> b, cn_cleanup := Some cl\<rparr>) (ad_canaries ad)"
    "T (ad_world ad) \<le> T (ad_world ad')"
    using conclude_run [OF r, of T] assms(2) by metis
  have "canary_inv T (ad_world ad) c" using assms(1,3) by (auto simp: canaries_inv_def)
  then have "canary_inv T (ad_world ad') (c\<lparr>cn_timed_out := \<not> b, cn_cleanup := Some cl\<rparr>)"
    using canary_inv_later [where T = T and w = "ad_world ad" and w' = "ad_world ad'", OF _ k(2)] by (auto simp: canary_inv_def)
  with canaries_inv_set [OF assms(1) k] show ?thesis by (simp add: r)
qed

lemma wait_inv:
  assumes wait: "wait_settled fuel H sid t i ad = Some (r, ad')" and inv: "canaries_inv T ad"
    and clk: "clock_ok H T" and iv: "0 \<le> interval_of ad i"
  shows "canaries_inv T ad'"
proof -
  obtain st w0 where s: "hk_stamp H (ad_world ad) = (st, w0)" by fastforce
  let ?ad0 = "ad\<lparr>ad_world := w0\<rparr>"
  have i0: "canaries_inv T ?ad0" using clock_okD(3) [OF clk s] by (auto intro: canaries_inv_later [OF inv])
  obtain q ad1 where beg: "pending_or_planted H sid ?ad0 = (q, ad1)"
    by fastforce
  have run: "(case q of Inl e \<Rightarrow> Some (Inl e, ad1)
       | Inr c \<Rightarrow> wait_polling fuel H sid (timeout_of ad t) (interval_of ad i) st c ad1) = Some (r, ad')"
    using wait by (simp add: wait_settled_def s beg timeout_of_def interval_of_def split: sum.splits)
  show ?thesis
  proof (cases q)
    case (Inl e)
    then have "ad1 = ad'" "plant_canary H sid ?ad0 = (q, ad1)" using run beg by (auto simp: pending_or_planted_def split: option.splits)
    then show ?thesis using plant_inv [OF i0 clk, of sid] by simp
  next
    case (Inr c)
    note start = wait_canary [OF beg [unfolded Inr], of T]
    obtain dl ad2 where dl: "deadline_of H c (timeout_of ad t) ad1 = (dl, ad2)" by fastforce
    obtain d w where d: "dl = Inr d" "ad2 = ad1\<lparr>ad_world := w\<rparr>" "T (ad_world ad1) \<le> T w"
      using deadline_run [OF dl, of T] clk by metis
    have i2: "canaries_inv T ad2" using start i0 clk d by (auto intro: canaries_inv_later [of T ad1])
    have c2: "dget (ad_canaries ad2) sid = Some c" "\<not> cn_settled c" using start d by simp_all
    obtain pr ad3 where loop: "poll_loop fuel H sid d (interval_of ad i) ad2 = Some (pr, ad3)"
      using run Inr dl d by (auto simp: wait_polling_def split: option.splits)
    have i3: "canaries_inv T ad3" using poll_loop_inv [OF loop c2 i2 clk iv] by simp
    show ?thesis
    proof (cases pr)
      case (Inl e)
      then have "ad3 = ad'" using run Inr dl d loop by (simp add: wait_polling_def)
      with i3 show ?thesis by simp
    next
      case (Inr b)
      obtain c3 where c3: "dget (ad_canaries ad3) sid = Some c3"
        using poll_loop_run [OF loop [unfolded Inr] c2] by (metis dget_dset)
      then have "conclude H sid (timeout_of ad t) (interval_of ad i) st c3 b ad3 = (r, ad')"
        using run \<open>q = Inr c\<close> dl d loop Inr by (simp add: Let_def wait_polling_def)
      then show ?thesis using conclude_inv [OF i3 clk c3] by (metis snd_conv)
    qed
  qed
qed

lemma step_inv:
  assumes "adapter_step H ad k ad'" "canaries_inv T ad" "clock_ok H T"
  shows "canaries_inv T ad'"
  using assms(1)
proof (cases rule: adapter_step.cases)
  case (1 sid) then show ?thesis using reset_inv [OF assms(2,3), of sid] by simp
next
  case (2 sid msgs md)
  then show ?thesis using quiet_inv [OF quiet_write assms(2,3), of sid msgs md] by simp
next
  case (3 sid q k)
  then show ?thesis using quiet_inv [OF quiet_search assms(2,3), of sid q k] by simp
next
  case (4 sid) then show ?thesis using plant_inv [OF assms(2,3), of sid] by simp
next
  case (5 sid) then show ?thesis using poll_inv [OF assms(2,3), of sid] by simp
next
  case (6 fuel sid t i r)
  then show ?thesis using wait_inv assms(2,3) by blast
qed

lemma adapter_run_inv:
  assumes "adapter_run H ad ks ad'" "canaries_inv T ad" "clock_ok H T"
  shows "canaries_inv T ad'"
  using assms by (induction rule: adapter_run.induct) (auto intro: step_inv)

section \<open>Properties\<close>

text \<open>A memory system to evaluate on: its world is its clock, a read finds what it is asked for once
  the clock has reached 20.\<close>

definition demo_hooks :: "rat hooks" where
  "demo_hooks =
     \<lparr>hk_reset = \<lambda>sid w. (Inr (), w), hk_write = \<lambda>sid msgs md w.
        (Inr \<lparr>wp_added = None, wp_updated = None, wp_deleted = None, wp_noop = None, wp_ids = [], wp_native = PNone\<rparr>, w),
      hk_read = \<lambda>sid q op w. (Inr (if 20 \<le> w
          then [\<lparr>hit_id = None, hit_text = q, hit_score = PNone, hit_metadata = PNone, hit_created = None\<rparr>] else [],
          PNone), w),
      hk_canary_write = \<lambda>sid q w. (Inr (True, [''m1'']), w), hk_cleanup = \<lambda>sid c w. (Inr (), w),
      hk_perf = \<lambda>w. (w, w + 1), hk_stamp = \<lambda>w. (''t'', w), hk_uuid = \<lambda>w. (''u'', w), hk_sleep = \<lambda>d w. w + d\<rparr>"

definition demo_adapter :: "rat \<Rightarrow> rat adapter" where
  "demo_adapter w =
     \<lparr>ad_name = ''demo'', ad_version = ''1'', ad_config = \<lparr>sc_timeout = 30, sc_interval = 1, sc_cleanup = True\<rparr>,
      ad_canaries = [], ad_events = [], ad_world = w\<rparr>"

lemma demo_clock: "clock_ok demo_hooks id"
  by (auto simp: clock_ok_def demo_hooks_def)

lemma demo_inv: "canaries_inv id (demo_adapter w)"
  by (simp add: canaries_inv_def demo_adapter_def)

lemma demo_hooks_simps:
  "hk_read demo_hooks sid q op w = (Inr (if 20 \<le> w
     then [\<lparr>hit_id = None, hit_text = q, hit_score = PNone, hit_metadata = PNone, hit_created = None\<rparr>] else [],
     PNone), w)"
  "hk_canary_write demo_hooks sid q w = (Inr (True, [''m1'']), w)" "hk_cleanup demo_hooks sid c w = (Inr (), w)"
  "hk_perf demo_hooks w = (w, w + 1)" "hk_stamp demo_hooks w = (''t'', w)" "hk_uuid demo_hooks w = (''u'', w)"
  "hk_sleep demo_hooks d w = w + d"
  by (simp_all add: demo_hooks_def)

lemma canary_text_token: "contains token (canary_text token)"
  unfolding contains_def canary_text_def by (metis sublist_appendI)

lemma assemble_one: "assemble_context [h] = hit_text h" "assemble_context [] = []"
  by (simp_all add: assemble_context_def)

lemma contains_Nil: "contains p [] \<longleftrightarrow> p = []"
  by (simp add: contains_def)

lemmas demo_eval = wait_settled_def wait_polling_def pending_or_planted_def deadline_of_def plant_canary_def
  is_settled_def search_def conclude_def clean_up_def pending_def new_canary_def outside_def hook_def
  bindM_def catchM_def demo_hooks_simps demo_adapter_def set_canary_def Let_def emit_def assemble_one
  contains_Nil

lemma demo_settles:
  "\<exists>res ad'. wait_settled 1 demo_hooks ''s'' None None (demo_adapter 20) = Some (Inr res, ad') \<and> st_settled res"
  using canary_text_token [of "''memharness-canary-u''"]
  by (simp add: demo_eval del: dupdate.simps)

lemma demo_settled_canary:
  "\<exists>res ad'. wait_settled 1 demo_hooks ''s'' None None (demo_adapter 20) = Some (Inr res, ad') \<and>
     ad_canaries ad' = [(''s'', st_canary res)] \<and> cn_settled (st_canary res)"
  using canary_text_token [of "''memharness-canary-u''"]
  by (simp add: demo_eval del: dupdate.simps)

lemma demo_times_out_twice:
  "\<exists>res ad' res' ad''. wait_settled 1 demo_hooks ''s'' (Some 0) None (demo_adapter 1) = Some (Inr res, ad') \<and>
     \<not> st_settled res \<and> wait_settled 1 demo_hooks ''s'' (Some 0) None ad' = Some (Inr res', ad'')"
  by (simp add: demo_eval del: dupdate.simps)

lemma demo_times_out:
  "\<exists>res ad'. wait_settled 1 demo_hooks ''s'' (Some 0) None (demo_adapter 1) = Some (Inr res, ad') \<and> \<not> st_settled res"
  by (simp add: demo_eval del: dupdate.simps)

text \<open>C17: A poll of an unsettled canary answers True exactly when the normal read path of the memory
  system, asked for the text of the canary, returned hits whose assembled context contains its
  token; the canary is then marked settled, and only then.\<close>

theorem settled_sound:
  assumes "is_settled H sid ad = (Inr b, ad')" "dget (ad_canaries ad) sid = Some c" "\<not> cn_settled c"
  shows "\<exists>hits native w w' c'. hk_read H sid (cn_text c) ''settle'' w = (Inr (hits, native), w') \<and>
     b = contains (cn_token c) (assemble_context hits) \<and>
     dget (ad_canaries ad') sid = Some c' \<and> cn_settled c' = b \<and> cn_polls c' = cn_polls c + 1"
proof -
  obtain x :: "(hit list \<times> pyval) raises" and ada adb evs where
    rb: "read_by (\<lambda>_. 0) H sid (cn_text c) ''settle'' ada adb x"
    and cs: "case x of
        Inl e \<Rightarrow> (\<exists>m. Inr b = (Inl (AdapterError m) :: bool raises)) \<and>
          ad_canaries ad' = dset sid (c\<lparr>cn_polls := cn_polls c + 1\<rparr>) (ad_canaries ad) \<and>
          map kind evs = [PStr ''READ_START'', PStr ''ERROR'']
      | Inr p \<Rightarrow> Inr b = (Inr (contains (cn_token c) (assemble_context (fst p))) :: bool raises) \<and>
          (\<exists>t stamp. (clock_ok H (\<lambda>_. 0) \<longrightarrow> 0 \<le> t \<and> t \<le> 0) \<and>
             ad_canaries ad' = dset sid (after_poll c (contains (cn_token c) (assemble_context (fst p))) t stamp)
                 (ad_canaries ad)) \<and>
          map kind evs = [PStr ''READ_START'', PStr ''READ_END'', PStr ''SETTLEMENT_POLL'']"
    using poll_run [OF assms, of "\<lambda>_. 0"] by blast
  then obtain p where x: "x = Inr p" by (cases x) auto
  from rb obtain w w' where "hk_read H sid (cn_text c) ''settle'' w = (Inr (fst p, snd p), w')"
    unfolding read_by_def x by auto
  moreover from cs obtain t stamp where "b = contains (cn_token c) (assemble_context (fst p))"
    "ad_canaries ad' = dset sid (after_poll c b t stamp) (ad_canaries ad)" unfolding x by auto
  ultimately show ?thesis using assms(3)
    by (intro exI [of _ "fst p"] exI [of _ "snd p"] exI [of _ w] exI [of _ w']
        exI [of _ "after_poll c b t stamp"]) simp
qed

text \<open>C18: A wait that returns ends with exactly one verdict: its last event is WRITE_SETTLED when the
  result is settled and SETTLEMENT_TIMEOUT otherwise, no earlier event of the wait is a verdict, it
  polled at least once, the reported number of polls counts the polls of this canary, and the
  canary in the result is the one the adapter keeps.\<close>

theorem wait_verdict:
  assumes "wait_settled fuel H sid t i ad = Some (Inr res, ad')"
  shows "\<exists>evs verdict. ad_events ad' = ad_events ad @ evs @ [verdict] \<and>
     kind verdict = PStr (if st_settled res then ''WRITE_SETTLED'' else ''SETTLEMENT_TIMEOUT'') \<and>
     (\<forall>e \<in> set evs. kind e \<noteq> PStr ''WRITE_SETTLED'' \<and> kind e \<noteq> PStr ''SETTLEMENT_TIMEOUT'') \<and>
     0 < polls_in evs \<and>
     st_polls res = polls_in evs + (case pending ad sid of None \<Rightarrow> 0 | Some c \<Rightarrow> cn_polls c) \<and>
     st_timed_out res = (\<not> st_settled res) \<and> cn_settled (st_canary res) = st_settled res \<and>
     cn_timed_out (st_canary res) = st_timed_out res \<and>
     ad_canaries ad' = dset sid (st_canary res) (ad_canaries ad)"
  using wait_shape [OF assms] by blast

theorem wait_verdict_witness:
  "\<exists>res ad' evs. wait_settled 1 demo_hooks ''s'' None None (demo_adapter 20) = Some (Inr res, ad') \<and> st_settled res \<and>
     st_polls res = polls_in evs \<and> ad_canaries ad' = [(''s'', st_canary res)]"
proof -
  obtain res ad' where "wait_settled 1 demo_hooks ''s'' None None (demo_adapter 20) = Some (Inr res, ad')"
    "st_settled res" using demo_settles by blast
  with wait_verdict [OF this(1)] show ?thesis by (auto simp: demo_adapter_def pending_def)
qed

theorem settled_sound_witness:
  "\<exists>b ad' hits native w w'.
     is_settled demo_hooks ''s'' ((demo_adapter 30)\<lparr>ad_canaries := [(''s'', new_canary ''s'' ''c'' ''tok'' ''t'' 1)]\<rparr>) = (Inr b, ad') \<and>
     hk_read demo_hooks ''s'' (canary_text ''tok'') ''settle'' w = (Inr (hits, native), w') \<and>
     b = contains ''tok'' (assemble_context hits)"
proof -
  let ?ad = "(demo_adapter 30)\<lparr>ad_canaries := [(''s'', new_canary ''s'' ''c'' ''tok'' ''t'' 1)]\<rparr>"
  have "\<exists>b ad'. is_settled demo_hooks ''s'' ?ad = (Inr b, ad')"
    by (simp add: demo_eval del: dupdate.simps) auto
  then obtain b ad' where run: "is_settled demo_hooks ''s'' ?ad = (Inr b, ad')" by blast
  have "dget (ad_canaries ?ad) ''s'' = Some (new_canary ''s'' ''c'' ''tok'' ''t'' 1)" by simp
  from settled_sound [OF run this] run show ?thesis by (auto simp: new_canary_def)
qed

text \<open>C19: A wait does not give up early: when it reports a timeout, the time after it is at least the
  acknowledgement of the canary plus the timeout (for a clock that does not go back).\<close>

theorem wait_deadline:
  assumes "wait_settled fuel H sid t i ad = Some (Inr res, ad')" "\<not> st_settled res"
    "clock_ok H T" "canaries_inv T ad"
  shows "\<exists>a. cn_acknowledged_perf (st_canary res) = Some a \<and> a + timeout_of ad t \<le> T (ad_world ad')"
proof -
  obtain c ad1 d w b ad3 c3 st where w: "ad_canaries ad1 = dset sid c (ad_canaries ad)" "\<not> cn_settled c"
    "deadline_of H c (timeout_of ad t) ad1 = (Inr d, ad1\<lparr>ad_world := w\<rparr>)"
    "poll_loop fuel H sid d (interval_of ad i) (ad1\<lparr>ad_world := w\<rparr>) = Some (Inr b, ad3)"
    "dget (ad_canaries ad3) sid = Some c3"
    "conclude H sid (timeout_of ad t) (interval_of ad i) st c3 b ad3 = (Inr res, ad')"
    and inv: "canaries_inv T ad \<Longrightarrow> clock_ok H T \<Longrightarrow>
       canaries_inv T ad1 \<and> T (ad_world ad) \<le> T (ad_world ad1) \<and> T (ad_world ad1) \<le> T w"
    by (rule wait_start [where T = T, OF assms(1)]) (rule that; assumption)
  have "dget (ad_canaries ad1) sid = Some c" using w(1) by simp
  then obtain a where a: "cn_acknowledged_perf c = Some a" "a \<le> T (ad_world ad1)"
    using inv [OF assms(4,3)] canary_acknowledged by metis
  have d: "a + timeout_of ad t \<le> d"
    by (rule deadline_run [where T = T and a = a, OF w(3)]) (use a assms(3) in simp)
  have "dget (ad_canaries (ad1\<lparr>ad_world := w\<rparr>)) sid = Some c" using w(1) by simp
  then obtain c' where l: "ad_canaries ad3 = dset sid c' (ad_canaries ad1)" "same_canary c c'"
    "\<not> b \<longrightarrow> d \<le> T (ad_world ad3)"
    using poll_loop_run [OF w(4) _ w(2), of T] assms(3) by auto
  obtain res2 cl where r2: "(Inr res :: settlement raises) = Inr res2"
    and f: "st_canary res2 = c3\<lparr>cn_timed_out := \<not> b, cn_cleanup := Some cl\<rparr>" "st_settled res2 = b"
    and time: "clock_ok H T \<Longrightarrow> T (ad_world ad3) \<le> T (ad_world ad')"
    by (rule conclude_run [where T = T, OF w(6)]) (rule that; assumption)
  have "c3 = c'" using w(5) l(1) by simp
  then have "cn_acknowledged_perf (st_canary res) = Some a" using f r2 a l(2) by (simp add: same_canary_def)
  moreover have "\<not> b" using f(2) r2 assms(2) by simp
  ultimately show ?thesis using d l(3) time assms(3) by fastforce
qed

theorem wait_deadline_witness:
  "\<exists>res ad' a. wait_settled 1 demo_hooks ''s'' (Some 0) None (demo_adapter 1) = Some (Inr res, ad') \<and>
     \<not> st_settled res \<and> cn_acknowledged_perf (st_canary res) = Some a \<and> a \<le> ad_world ad'"
proof -
  obtain res ad' where run: "wait_settled 1 demo_hooks ''s'' (Some 0) None (demo_adapter 1) = Some (Inr res, ad')"
    "\<not> st_settled res" using demo_times_out by blast
  show ?thesis using run wait_deadline [OF run demo_clock demo_inv] by (auto simp: timeout_of_def)
qed

lemma wait_returns:
  assumes "clock_ok H T" "canaries_inv T ad" "0 < interval_of ad i" "timeout_of ad t \<le> of_nat n * interval_of ad i"
  shows "wait_settled (Suc n) H sid t i ad \<noteq> None"
proof -
  obtain st w0 where s: "hk_stamp H (ad_world ad) = (st, w0)" by fastforce
  let ?ad0 = "ad\<lparr>ad_world := w0\<rparr>"
  have i0: "canaries_inv T ?ad0" using clock_okD(3) [OF assms(1) s] by (auto intro: canaries_inv_later [OF assms(2)])
  obtain q ad1 where beg: "pending_or_planted H sid ?ad0 = (q, ad1)" by fastforce
  have unfold: "wait_settled (Suc n) H sid t i ad = (case q of Inl e \<Rightarrow> Some (Inl e, ad1)
       | Inr c \<Rightarrow> wait_polling (Suc n) H sid (timeout_of ad t) (interval_of ad i) st c ad1)"
    by (simp add: wait_settled_def s beg timeout_of_def interval_of_def split: sum.splits)
  show ?thesis
  proof (cases q)
    case (Inl e)
    then show ?thesis by (simp add: unfold)
  next
    case (Inr c)
    note start = wait_canary [OF beg [unfolded Inr], of T]
    have "canaries_inv T ad1" "dget (ad_canaries ad1) sid = Some c" using start i0 assms(1) by auto
    then obtain a where a: "cn_acknowledged_perf c = Some a" "a \<le> T (ad_world ad1)"
      by (rule canary_acknowledged)
    obtain dl ad2 where dl: "deadline_of H c (timeout_of ad t) ad1 = (dl, ad2)" by fastforce
    obtain d w where d: "dl = Inr d" "ad2 = ad1\<lparr>ad_world := w\<rparr>" "d \<le> T w + timeout_of ad t"
      using deadline_run [OF dl, of T a] a assms(1) by metis
    have "poll_loop (Suc n) H sid d (interval_of ad i) ad2 \<noteq> None"
      using d assms(4) by (intro poll_loop_enough [OF assms(1,3)]) simp
    then show ?thesis using dl d
      by (auto simp: unfold Inr wait_polling_def Let_def simp del: poll_loop.simps split: sum.splits prod.splits)
  qed
qed

text \<open>No operation changes the configuration.\<close>

definition keeps_config :: "('w adapter \<Rightarrow> 'a raises \<times> 'w adapter) \<Rightarrow> bool" where
  "keeps_config m \<longleftrightarrow> (\<forall>ad. ad_config (snd (m ad)) = ad_config ad)"

lemma keeps_bind [intro]: "keeps_config m \<Longrightarrow> (\<And>x. keeps_config (f x)) \<Longrightarrow> keeps_config (bindM m f)"
  unfolding keeps_config_def bindM_def by (auto split: prod.splits sum.splits) (metis snd_conv)+

lemma keeps_catch [intro]: "keeps_config m \<Longrightarrow> (\<And>e. keeps_config (f e)) \<Longrightarrow> keeps_config (catchM m f)"
  unfolding keeps_config_def catchM_def by (auto split: prod.splits sum.splits) (metis snd_conv)+

lemma keeps_basic [intro]:
  "keeps_config (retM x)" "keeps_config (raiseM e)" "keeps_config (outside g)" "keeps_config (hook h)"
  "keeps_config (emit H k flds)" "keeps_config (set_canary sid c)" "keeps_config (\<lambda>ad. (q ad, ad))"
  by (auto simp: keeps_config_def outside_def hook_def emit_def set_canary_def bindM_def split: prod.splits)

lemma keeps_search: "keeps_config (search H sid q k)"
  unfolding search_def Let_def by (intro keeps_bind keeps_catch keeps_basic) (auto simp: split_def intro!: keeps_bind keeps_basic)

lemma keeps_plant: "keeps_config (plant_canary H sid)"
  unfolding plant_canary_def Let_def by (intro keeps_bind keeps_catch keeps_basic) (auto simp: split_def intro!: keeps_bind keeps_basic)

lemma keeps_poll: "ad_config (snd (is_settled H sid ad)) = ad_config ad"
proof (cases "dget (ad_canaries ad) sid")
  case (Some c)
  show ?thesis
  proof (cases "cn_settled c")
    case False
    let ?c1 = "c\<lparr>cn_polls := cn_polls c + 1\<rparr>"
    let ?m = "bindM (set_canary sid ?c1) (\<lambda>_. bindM (outside (hk_perf H)) (\<lambda>t0. bindM (search H sid (cn_text ?c1) ''settle'') (\<lambda>r.
              let visible = contains (cn_token ?c1) (rr_context r) in
            bindM (outside (hk_perf H)) (\<lambda>t1.
            bindM (emit H ''SETTLEMENT_POLL'' (poll_fields sid ?c1 visible (rr_id r) t0 t1)) (\<lambda>_.
              if visible then
                bindM (outside (hk_stamp H)) (\<lambda>stamp.
                bindM (set_canary sid (?c1\<lparr>cn_settled := True, cn_first_perf := Some t1, cn_first_at := Some stamp\<rparr>)) (\<lambda>_.
                  retM True))
              else bindM (set_canary sid (?c1\<lparr>cn_previous_failed := Some t1\<rparr>)) (\<lambda>_. retM False))))))"
    have "keeps_config ?m" unfolding Let_def
      by (intro keeps_bind keeps_basic keeps_search) (auto intro!: keeps_bind keeps_basic)
    moreover have "is_settled H sid ad = ?m ad"
      unfolding is_settled_def Let_def using Some False by (simp only: option.case if_False)
    ultimately show ?thesis by (simp only: keeps_config_def)
  qed (simp add: is_settled_def Some)
qed (simp add: is_settled_def)

lemma keeps_poll_loop:
  "poll_loop fuel H sid deadline interval ad = Some (r, ad') \<Longrightarrow> ad_config ad' = ad_config ad"
proof (induction fuel arbitrary: ad)
  case (Suc n)
  obtain q ad1 where p: "is_settled H sid ad = (q, ad1)" by fastforce
  have c: "ad_config ad1 = ad_config ad" using keeps_poll [of H sid ad] by (simp add: p)
  show ?case using Suc p c by (auto split: sum.splits bool.splits prod.splits if_splits)
qed simp

lemma keeps_deadline: "keeps_config (deadline_of H c timeout)"
  unfolding deadline_of_def by (auto split: option.splits intro!: keeps_bind keeps_basic)

lemma keeps_clean_up: "keeps_config (clean_up H sid c)"
proof -
  have "keeps_config (catchM (bindM (hook (hk_cleanup H sid c)) (\<lambda>_. retM ''deleted''))
      (\<lambda>e. retM (py_take 500 (''failed: '' @ exc_name e @ '': '' @ exc_text e))))"
    by (intro keeps_catch keeps_bind keeps_basic)
  then show ?thesis by (simp add: keeps_config_def clean_up_def)
qed

lemma keeps_conclude: "keeps_config (conclude H sid timeout interval started c settled)"
  unfolding conclude_def Let_def by (intro keeps_bind keeps_basic keeps_clean_up)

lemma keeps_wait:
  assumes "wait_settled fuel H sid t i ad = Some (r, ad')" shows "ad_config ad' = ad_config ad"
proof -
  obtain st w0 where s: "hk_stamp H (ad_world ad) = (st, w0)" by fastforce
  obtain q ad1 where p: "pending_or_planted H sid (ad\<lparr>ad_world := w0\<rparr>) = (q, ad1)" by fastforce
  have c1: "ad_config ad1 = ad_config ad"
    using p keeps_plant [of H sid, unfolded keeps_config_def, rule_format, of "ad\<lparr>ad_world := w0\<rparr>"]
    by (auto simp: pending_or_planted_def split: option.splits)
  show ?thesis
  proof (cases q)
    case (Inl e)
    then show ?thesis using assms s p c1 by (simp add: wait_settled_def)
  next
    case (Inr c)
    let ?to = "timeout_of ad t" and ?iv = "interval_of ad i"
    have w: "wait_polling fuel H sid ?to ?iv st c ad1 = Some (r, ad')"
      using assms s p Inr by (simp add: wait_settled_def timeout_of_def interval_of_def)
    obtain dl ad2 where d: "deadline_of H c ?to ad1 = (dl, ad2)" by fastforce
    have c2: "ad_config ad2 = ad_config ad1"
      using keeps_deadline [of H c ?to, unfolded keeps_config_def, rule_format, of ad1] d by simp
    show ?thesis
    proof (cases dl)
      case (Inl e)
      then show ?thesis using w d c1 c2 by (simp add: wait_polling_def)
    next
      case (Inr dd)
      then obtain v ad3 where l: "poll_loop fuel H sid dd ?iv ad2 = Some (v, ad3)"
        using w d by (auto simp: wait_polling_def split: option.splits)
      have c3: "ad_config ad3 = ad_config ad2" by (rule keeps_poll_loop [OF l])
      have "ad' = ad3 \<or> (\<exists>c b. conclude H sid ?to ?iv st c b ad3 = (r, ad'))"
        using w d Inr l by (auto simp: wait_polling_def Let_def split: sum.splits)
      then show ?thesis
        using keeps_conclude [unfolded keeps_config_def, rule_format, of H sid ?to ?iv st _ _ ad3] c1 c2 c3
        by (metis snd_conv)
    qed
  qed
qed

text \<open>C20: A wait always returns: when the clock does not go back and sleeping takes at least the poll
  interval, a positive interval and a timeout of at most n intervals need no more than n + 1 polls.\<close>

theorem wait_terminates:
  assumes "clock_ok H T" "canaries_inv T ad" "0 < interval_of ad i" "timeout_of ad t \<le> of_nat n * interval_of ad i"
  shows "wait_settled (Suc n) H sid t i ad \<noteq> None"
  using assms by (rule wait_returns)

theorem wait_terminates_witness:
  "wait_settled 31 demo_hooks ''s'' None None (demo_adapter 1) \<noteq> None"
  using wait_terminates [OF demo_clock demo_inv [of 1], where i = None and t = None and n = 30 and sid = "''s''"]
  by (simp add: interval_of_def timeout_of_def demo_adapter_def)

text \<open>C21: However the public operations are interleaved (resets, writes, searches, canaries planted,
  polls and waits, on any sessions, failing or not), every canary the adapter keeps has its
  visibility bounds in order: acknowledged after it was submitted, no failed poll and no success
  before the acknowledgement, the last failed poll not after the first success, and it is settled
  exactly when it has a first success.\<close>

theorem visibility_bounds:
  assumes "adapter_run H ad ks ad'" "clock_ok H T" "ad_canaries ad = []"
    and "dget (ad_canaries ad') sid = Some c"
  shows "\<exists>a. cn_acknowledged_perf c = Some a \<and> cn_submitted_perf c \<le> a \<and>
     (\<forall>p. cn_previous_failed c = Some p \<longrightarrow> a \<le> p) \<and>
     (\<forall>f. cn_first_perf c = Some f \<longrightarrow> a \<le> f \<and> (\<forall>p. cn_previous_failed c = Some p \<longrightarrow> p \<le> f)) \<and>
     (cn_settled c \<longleftrightarrow> cn_first_perf c \<noteq> None)"
proof -
  have "canaries_inv T ad'"
    by (rule adapter_run_inv [OF assms(1) _ assms(2)]) (simp add: canaries_inv_def assms(3))
  then have "canary_inv T (ad_world ad') c" using assms(4) by (simp add: canaries_inv_def)
  then show ?thesis unfolding canary_inv_def by blast
qed

theorem visibility_bounds_witness:
  "\<exists>ad' c. adapter_run demo_hooks (demo_adapter 20) [OpWait 1 ''s'' None None] ad' \<and>
     dget (ad_canaries ad') ''s'' = Some c \<and>
     (\<exists>a f. cn_acknowledged_perf c = Some a \<and> cn_first_perf c = Some f \<and> a \<le> f)"
proof -
  obtain res ad' where run: "wait_settled 1 demo_hooks ''s'' None None (demo_adapter 20) = Some (Inr res, ad')"
    "ad_canaries ad' = [(''s'', st_canary res)]" "cn_settled (st_canary res)"
    using demo_settled_canary by blast
  have "adapter_run demo_hooks (demo_adapter 20) ([] @ [OpWait 1 ''s'' None None]) ad'"
    by (rule run_some [OF run_none], rule adapter_step.intros(6) [OF run(1)])
      (simp add: interval_of_def demo_adapter_def)
  then have r: "adapter_run demo_hooks (demo_adapter 20) [OpWait 1 ''s'' None None] ad'" by simp
  have "dget (ad_canaries ad') ''s'' = Some (st_canary res)" by (simp add: run(2))
  from visibility_bounds [OF r demo_clock _ this] run(3) r this show ?thesis
    by (auto simp: demo_adapter_def)
qed

text \<open>A canary that timed out stays pending: the next wait of the session polls the same canary
  and plants no new one.\<close>

theorem timed_out_stays_pending:
  assumes "wait_settled fuel H sid t i ad = Some (Inr res, ad')" "\<not> st_settled res"
    and "wait_settled fuel' H sid t' i' ad' = Some (Inr res', ad'')"
  shows "\<exists>evs. ad_events ad'' = ad_events ad' @ evs \<and>
     (\<forall>e \<in> set evs. kind e \<noteq> PStr ''CANARY_SUBMIT'') \<and>
     cn_token (st_canary res') = cn_token (st_canary res)"
proof -
  from wait_shape [OF assms(1)] obtain evs v where c: "ad_canaries ad' = dset sid (st_canary res) (ad_canaries ad)"
    "cn_settled (st_canary res) = st_settled res" by blast
  have p: "pending ad' sid = Some (st_canary res)" using c assms(2) by (simp add: pending_def)
  from wait_shape [OF assms(3)] obtain evs v where w: "ad_events ad'' = ad_events ad' @ evs @ [v]"
    "kind v = PStr (if st_settled res' then ''WRITE_SETTLED'' else ''SETTLEMENT_TIMEOUT'')"
    "\<forall>e \<in> set evs. kind e \<noteq> PStr ''CANARY_SUBMIT''" "same_canary (st_canary res) (st_canary res')"
    unfolding p by blast
  then have "\<forall>e \<in> set (evs @ [v]). kind e \<noteq> PStr ''CANARY_SUBMIT''" by auto
  with w show ?thesis by (intro exI [of _ "evs @ [v]"]) (simp add: same_canary_def)
qed

theorem timed_out_stays_pending_witness:
  "\<exists>res ad' res' ad''. wait_settled 1 demo_hooks ''s'' (Some 0) None (demo_adapter 1) = Some (Inr res, ad') \<and>
     wait_settled 1 demo_hooks ''s'' (Some 0) None ad' = Some (Inr res', ad'') \<and>
     cn_token (st_canary res') = cn_token (st_canary res)"
proof -
  obtain res ad' res' ad'' where r: "wait_settled 1 demo_hooks ''s'' (Some 0) None (demo_adapter 1) = Some (Inr res, ad')"
    "\<not> st_settled res" "wait_settled 1 demo_hooks ''s'' (Some 0) None ad' = Some (Inr res', ad'')"
    using demo_times_out_twice by blast
  from timed_out_stays_pending [OF r] r show ?thesis by blast
qed





end
