(* ===== verification/Longmemeval.thy ===== *)
theory Longmemeval
  imports Json_Roundtrip "HOL-Library.Multiset"
begin

section \<open>The LongMemEval dataset (\<open>bench/longmemeval.py\<close>)\<close>

text \<open>
  Parsing of instances, loading of a file (JSON or JSON lines), the seeded selection and the
  synthetic stand-in. Parameters: the hash, the shuffle that a seed determines, and the numbers a
  seeded generator draws. A file is its bytes with the text and the stem of its path.
  Facts: \<open>instance_parses\<close> (which values are instances), \<open>dataset_loaded\<close>, \<open>selection_order\<close>,
  \<open>selection_prefix\<close>, \<open>synthetic_needle\<close>.
\<close>

subsection \<open>Data\<close>

definition QUESTION_TYPES :: "string list" where
  "QUESTION_TYPES = [''single-session-user'', ''single-session-assistant'', ''single-session-preference'',
     ''temporal-reasoning'', ''knowledge-update'', ''multi-session'']"

record lme_turn =
  tn_role :: string
  tn_content :: string
  tn_answer :: bool

record lme_session =
  ss_id :: string
  ss_date :: string
  ss_index :: nat
  ss_turns :: "lme_turn list"

record lme_instance =
  in_id :: string
  in_type :: string
  in_question :: string
  in_answer :: string
  in_date :: string
  in_sessions :: "lme_session list"
  in_answer_sessions :: "string list"

record lme_dataset =
  ds_name :: string
  ds_path :: string
  ds_sha256 :: string
  ds_size :: nat
  ds_instances :: "lme_instance list"
  ds_synthetic :: bool

definition is_abstention :: "lme_instance \<Rightarrow> bool" where
  "is_abstention i = ends_with ''_abs'' (in_id i)"

definition n_turns :: "lme_instance \<Rightarrow> nat" where
  "n_turns i = sum_list (map (\<lambda>s. length (ss_turns s)) (in_sessions i))"

definition by_id :: "lme_dataset \<Rightarrow> lme_instance dict" where
  "by_id ds = fold (\<lambda>i d. dset (in_id i) i d) (ds_instances ds) []"

subsection \<open>Iterating and testing arbitrary JSON values\<close>

text \<open>The characters of a string, and the elements \<open>for x in v\<close> visits.\<close>

function py_chars :: "string \<Rightarrow> string list" where
  "py_chars [] = []"
| "py_chars (c # s) = (c # takeWhile is_cont s) # py_chars (dropWhile is_cont s)"
  by pat_completeness auto
termination by (relation "measure length") (auto intro: le_imp_less_Suc length_dropWhile_le)

definition py_elems :: "pyval \<Rightarrow> pyval list raises" where
  "py_elems v = (case v of
      PList xs \<Rightarrow> Inr xs
    | PDict d \<Rightarrow> Inr (map (\<lambda>(k, _). PStr k) d)
    | PStr s \<Rightarrow> Inr (map PStr (py_chars s))
    | _ \<Rightarrow> Inl TypeError)"

text \<open>\<open>k in v\<close> for a text \<open>k\<close>.\<close>

definition has_member :: "string \<Rightarrow> pyval \<Rightarrow> bool raises" where
  "has_member k v = (case v of
      PDict d \<Rightarrow> Inr (dhas d k)
    | PList xs \<Rightarrow> Inr (PStr k \<in> set xs)
    | PStr s \<Rightarrow> Inr (contains k s)
    | _ \<Rightarrow> Inl TypeError)"

subsection \<open>One instance\<close>

definition REQUIRED :: "string list" where
  "REQUIRED = [''question_id'', ''question_type'', ''question'', ''answer'', ''question_date'',
     ''haystack_session_ids'', ''haystack_dates'', ''haystack_sessions'']"

fun missing_fields :: "string list \<Rightarrow> pyval \<Rightarrow> string list raises" where
  "missing_fields [] raw = Inr []"
| "missing_fields (k # ks) raw =
     bindE (has_member k raw) (\<lambda>b. bindE (missing_fields ks raw) (\<lambda>ms. Inr (if b then ms else k # ms)))"

definition missing_msg :: "nat \<Rightarrow> string list \<Rightarrow> string" where
  "missing_msg idx ms = ''instance '' @ nat_text idx @ '' missing fields '' @ repr_str_list ms"

definition type_msg :: "pyval \<Rightarrow> pyval \<Rightarrow> string" where
  "type_msg qid t = ''instance '' @ py_str qid @ '': unknown question_type '' @ py_repr t"

definition length_msg :: "pyval \<Rightarrow> string" where
  "length_msg qid = ''instance '' @ py_str qid @ '': haystack lists differ in length''"

definition turn_msg :: "pyval \<Rightarrow> pyval \<Rightarrow> string" where
  "turn_msg qid sid = ''instance '' @ py_str qid @ '' session '' @ py_str sid @ '': malformed turn''"

definition same_lengths :: "pyval \<Rightarrow> pyval \<Rightarrow> pyval \<Rightarrow> bool raises" where
  "same_lengths a b c =
     bindE (py_len_of a) (\<lambda>n. bindE (py_len_of b) (\<lambda>m.
       if n \<noteq> m then Inr False else bindE (py_len_of c) (\<lambda>k. Inr (m = k))))"

definition parse_turn :: "string \<Rightarrow> pyval \<Rightarrow> lme_turn raises" where
  "parse_turn msg t = (case t of
      PDict d \<Rightarrow>
        (case (dget d ''role'', dget d ''content'') of
           (Some r, Some c) \<Rightarrow> Inr \<lparr>tn_role = py_str r, tn_content = py_str c, tn_answer = truthy (vget d ''has_answer'')\<rparr>
         | _ \<Rightarrow> Inl (DatasetError msg))
    | _ \<Rightarrow> Inl (DatasetError msg))"

definition parse_session :: "pyval \<Rightarrow> nat \<times> pyval \<times> pyval \<times> pyval \<Rightarrow> lme_session raises" where
  "parse_session qid x = (case x of (j, sid, date, turns) \<Rightarrow>
     bindE (py_elems turns) (\<lambda>ts. bindE (mapE (parse_turn (turn_msg qid sid)) ts) (\<lambda>ps.
       Inr \<lparr>ss_id = py_str sid, ss_date = py_str date, ss_index = j, ss_turns = ps\<rparr>)))"

definition answer_ids :: "pyval dict \<Rightarrow> string list raises" where
  "answer_ids d = (case dget d ''answer_session_ids'' of
      None \<Rightarrow> Inr []
    | Some v \<Rightarrow> bindE (py_elems v) (\<lambda>xs. Inr (map py_str xs)))"

definition zip3 :: "'a list \<Rightarrow> 'b list \<Rightarrow> 'c list \<Rightarrow> ('a \<times> 'b \<times> 'c) list" where
  "zip3 xs ys zs = zip xs (zip ys zs)"

definition parse_sessions :: "pyval \<Rightarrow> pyval \<Rightarrow> pyval \<Rightarrow> pyval \<Rightarrow> lme_session list raises" where
  "parse_sessions qid ids dates sessions =
     bindE (py_elems ids) (\<lambda>is. bindE (py_elems dates) (\<lambda>ds. bindE (py_elems sessions) (\<lambda>ss.
       mapE (parse_session qid) (List.enumerate 0 (zip3 is ds ss)))))"

definition parse_instance :: "pyval \<Rightarrow> nat \<Rightarrow> lme_instance raises" where
  "parse_instance raw idx =
     bindE (missing_fields REQUIRED raw) (\<lambda>missing.
       if missing \<noteq> [] then Inl (DatasetError (missing_msg idx missing))
       else (case raw of
           PDict d \<Rightarrow>
             let qid = vget d ''question_id''; t = vget d ''question_type'';
                 ids = vget d ''haystack_session_ids''; dates = vget d ''haystack_dates'';
                 sessions = vget d ''haystack_sessions''
             in if t \<notin> PStr ` set QUESTION_TYPES then Inl (DatasetError (type_msg qid t))
                else bindE (same_lengths ids dates sessions) (\<lambda>same.
                  if \<not> same then Inl (DatasetError (length_msg qid))
                  else bindE (parse_sessions qid ids dates sessions) (\<lambda>ss. bindE (answer_ids d) (\<lambda>as.
                    Inr \<lparr>in_id = py_str qid, in_type = py_str t, in_question = py_str (vget d ''question''),
                         in_answer = py_str (vget d ''answer''), in_date = py_str (vget d ''question_date''),
                         in_sessions = ss, in_answer_sessions = as\<rparr>)))
         | _ \<Rightarrow> Inl TypeError))"

subsection \<open>Loading a file\<close>

record lme_file =
  lf_path :: string
  lf_stem :: string
  lf_bytes :: string

text \<open>\<open>str.splitlines\<close>: the line breaks are those of ASCII, U+0085, U+2028 and U+2029.\<close>

definition break_length :: "string \<Rightarrow> nat" where
  "break_length s =
     (case map code (take 3 s) of
        [] \<Rightarrow> 0
      | a # r \<Rightarrow>
          if a = 13 then (case r of b # _ \<Rightarrow> if b = 10 then 2 else 1 | [] \<Rightarrow> 1)
          else if a \<in> {10, 11, 12, 28, 29, 30} then 1
          else if a = 194 \<and> take 1 r = [133] then 2
          else if a = 226 \<and> (r = [128, 168] \<or> r = [128, 169]) then 3
          else 0)"

fun line_cut :: "string \<Rightarrow> string \<times> string" where
  "line_cut [] = ([], [])"
| "line_cut (c # s) =
     (let n = break_length (c # s)
      in if 0 < n then ([], drop n (c # s)) else (case line_cut s of (l, r) \<Rightarrow> (c # l, r)))"

lemma line_cut_shorter: "s \<noteq> [] \<Longrightarrow> length (snd (line_cut s)) < length s"
proof (induction s)
  case (Cons c s)
  then show ?case by (cases "s = []") (auto simp: Let_def split: prod.splits)
qed simp

function py_splitlines :: "string \<Rightarrow> string list" where
  "py_splitlines [] = []"
| "py_splitlines (c # s) = fst (line_cut (c # s)) # py_splitlines (snd (line_cut (c # s)))"
  by pat_completeness auto
termination by (relation "measure length") (simp_all del: line_cut.simps add: line_cut_shorter [of "_ # _", simplified length_Cons])

definition read_json_lines :: "string \<Rightarrow> pyval raises" where
  "read_json_lines raw =
     (if valid_utf8 raw
      then bindE (mapE json_loads (filter (\<lambda>l. py_strip l \<noteq> []) (py_splitlines raw))) (\<lambda>vs. Inr (PList vs))
      else Inl UnicodeDecodeError)"

definition read_data :: "string \<Rightarrow> pyval raises" where
  "read_data raw = (case json_loads_bytes raw of Inl JSONDecodeError \<Rightarrow> read_json_lines raw | r \<Rightarrow> r)"

definition not_a_list_msg :: "string \<Rightarrow> string" where
  "not_a_list_msg path = path @ '': expected a non-empty JSON list of instances''"

definition duplicate_msg :: "string \<Rightarrow> string" where
  "duplicate_msg path = path @ '': duplicate question_id values''"

definition synthetic_flag :: "pyval \<Rightarrow> bool" where
  "synthetic_flag v = (case v of PDict d \<Rightarrow> truthy (vget d ''_synthetic'') | _ \<Rightarrow> False)"

definition load_longmemeval :: "(string \<Rightarrow> string) \<Rightarrow> lme_file \<Rightarrow> string option \<Rightarrow> lme_dataset raises" where
  "load_longmemeval sha256 p name =
     bindE (read_data (lf_bytes p)) (\<lambda>data.
       case data of
         PList (v # vs) \<Rightarrow>
           bindE (mapE (\<lambda>(i, x). parse_instance x i) (List.enumerate 0 (v # vs))) (\<lambda>instances.
             if \<not> distinct (map in_id instances) then Inl (DatasetError (duplicate_msg (lf_path p)))
             else Inr \<lparr>ds_name = (case name of Some n \<Rightarrow> (if n = [] then lf_stem p else n) | None \<Rightarrow> lf_stem p),
                       ds_path = lf_path p, ds_sha256 = sha256 (lf_bytes p), ds_size = length (lf_bytes p),
                       ds_instances = instances, ds_synthetic = synthetic_flag v\<rparr>)
       | _ \<Rightarrow> Inl (DatasetError (not_a_list_msg (lf_path p))))"

subsection \<open>Selection\<close>

text \<open>\<open>xs[:limit]\<close>; a limit of 0 or None selects everything, a negative one drops from the end.\<close>

definition py_limit :: "int option \<Rightarrow> 'a list \<Rightarrow> 'a list" where
  "py_limit limit xs = (case limit of
      None \<Rightarrow> xs
    | Some n \<Rightarrow> if n = 0 then xs else if 0 < n then take (nat n) xs else take (length xs - nat (- n)) xs)"

definition unknown_msg :: "string list \<Rightarrow> string" where
  "unknown_msg qs = ''unknown question ids: '' @ repr_str_list qs"

definition selection_pool :: "lme_dataset \<Rightarrow> string list option \<Rightarrow> lme_instance list raises" where
  "selection_pool ds question_ids =
     (case question_ids of
        Some (q # qs) \<Rightarrow>
          let unknown = filter (\<lambda>w. \<not> dhas (by_id ds) w) (q # qs)
          in if unknown \<noteq> [] then Inl (DatasetError (unknown_msg unknown))
             else Inr (map (\<lambda>w. the (dget (by_id ds) w)) (q # qs))
      | _ \<Rightarrow> Inr (ds_instances ds))"

definition select_instances ::
  "(int \<Rightarrow> nat list \<Rightarrow> nat list) \<Rightarrow> lme_dataset \<Rightarrow> int \<Rightarrow> int option \<Rightarrow> string list option \<Rightarrow> lme_instance list raises"
where
  "select_instances shuffle ds seed limit question_ids =
     bindE (selection_pool ds question_ids) (\<lambda>pool.
       Inr (py_limit limit (map (\<lambda>i. pool ! i) (shuffle seed [0..<length pool]))))"

definition selection_digest :: "(string \<Rightarrow> string) \<Rightarrow> lme_instance list \<Rightarrow> string" where
  "selection_digest sha256 instances = take 16 (sha256 (py_join [CHR 0x0A] (map in_id instances)))"

subsection \<open>The synthetic stand-in\<close>

definition ATTRS :: "(string \<times> string) list" where
  "ATTRS = [(''favorite color'', ''teal''), (''cat'' @ [CHR 0x27] @ ''s name'', ''Pixel''), (''hometown'', ''Coimbra''),
     (''car'', ''a green Volvo''), (''sister'' @ [CHR 0x27] @ ''s name'', ''Ines''), (''favorite dish'', ''lentil stew''),
     (''running shoe brand'', ''Saucony''), (''piano teacher'', ''Mr Alves'')]"

definition FILLER :: "string list" where
  "FILLER = [''Can you explain how tides work?'', ''What is a good recipe for bread?'',
     ''How do I set up a python virtualenv?'', ''Recommend a book about astronomy.'', ''How far is the moon?'',
     ''What'' @ [CHR 0x27] @ ''s the capital of Peru?'']"

definition py_insert :: "nat \<Rightarrow> 'a \<Rightarrow> 'a list \<Rightarrow> 'a list" where
  "py_insert n x xs = take n xs @ x # drop n xs"

definition pad2 :: "nat \<Rightarrow> string" where
  "pad2 n = (if n < 10 then ''0'' @ nat_text n else nat_text n)"

definition said :: "string \<Rightarrow> string \<Rightarrow> pyval" where
  "said role content = PDict [(''role'', PStr role), (''content'', PStr content)]"

definition explanation :: "string \<Rightarrow> string" where
  "explanation q = ''Sure. Here is an explanation about: '' @ rstrip_while (\<lambda>c. c = CHR ''?'') (py_lower q) @ ''.''"

text \<open>\<open>draw n g\<close> is a number below \<open>n\<close> and the generator after drawing it.\<close>

fun filler_turns :: "(nat \<Rightarrow> 'g \<Rightarrow> nat \<times> 'g) \<Rightarrow> nat \<Rightarrow> 'g \<Rightarrow> pyval list \<times> 'g" where
  "filler_turns draw 0 g = ([], g)"
| "filler_turns draw (Suc n) g =
     (let (k, g1) = draw (length FILLER) g; q = FILLER ! k; (rest, g2) = filler_turns draw n g1
      in (said ''user'' q # said ''assistant'' (explanation q) # rest, g2))"

definition needle :: "string \<Rightarrow> string \<Rightarrow> pyval" where
  "needle attr value = PDict [(''role'', PStr ''user''),
     (''content'', PStr (''By the way, my '' @ attr @ '' is '' @ value @ ''.'')), (''has_answer'', PBool True)]"

definition with_needle :: "string \<Rightarrow> string \<Rightarrow> pyval list \<Rightarrow> pyval list" where
  "with_needle attr value turns =
     py_insert 2 (said ''assistant'' (''Nice, I will remember that your '' @ attr @ '' is '' @ value @ ''.''))
       (py_insert 1 (needle attr value) turns)"

fun synthetic_sessions ::
  "(nat \<Rightarrow> 'g \<Rightarrow> nat \<times> 'g) \<Rightarrow> nat \<Rightarrow> (nat \<Rightarrow> pyval list \<Rightarrow> pyval list) \<Rightarrow> nat \<Rightarrow> nat \<Rightarrow> 'g \<Rightarrow> pyval list list \<times> 'g"
where
  "synthetic_sessions draw pairs plant s 0 g = ([], g)"
| "synthetic_sessions draw pairs plant s (Suc n) g =
     (let (turns, g1) = filler_turns draw pairs g; (rest, g2) = synthetic_sessions draw pairs plant (Suc s) n g1
      in (plant s turns # rest, g2))"

definition synthetic_date :: "nat \<Rightarrow> nat \<Rightarrow> string" where
  "synthetic_date s i = ''2023/05/'' @ pad2 (10 + s) @ '' (Wed) 10:'' @ pad2 i"

definition synthetic_sid :: "nat \<Rightarrow> nat \<Rightarrow> string" where
  "synthetic_sid i s = ''syn_'' @ nat_text i @ ''_s'' @ nat_text s"

definition synthetic_instance ::
  "(nat \<Rightarrow> 'g \<Rightarrow> nat \<times> 'g) \<Rightarrow> nat \<Rightarrow> nat \<Rightarrow> nat \<Rightarrow> 'g \<Rightarrow> pyval \<times> 'g" where
  "synthetic_instance draw sessions_per_instance turns_per_session i g =
     (let (attr, value) = ATTRS ! (i mod length ATTRS);
          abstention = (i mod 7 = 6);
          (needle_session, g1) = draw sessions_per_instance g;
          plant = (\<lambda>s turns. if s = needle_session \<and> \<not> abstention then with_needle attr value turns else turns);
          (sessions, g2) = synthetic_sessions draw (turns_per_session div 2) plant 0 sessions_per_instance g1;
          sids = map (synthetic_sid i) [0..<sessions_per_instance]
      in (PDict
            [(''_synthetic'', PBool True),
             (''question_id'', PStr (''syn_'' @ nat_text i @ (if abstention then ''_abs'' else []))),
             (''question_type'', PStr (QUESTION_TYPES ! (i mod length QUESTION_TYPES))),
             (''question'', PStr (''What is my '' @ attr @ ''?'')),
             (''answer'', PStr (if abstention then ''The user never mentioned this.'' else value)),
             (''question_date'', PStr (''2023/06/01 (Thu) 09:0'' @ nat_text (i mod 10))),
             (''haystack_session_ids'', PList (map PStr sids)),
             (''haystack_dates'', PList (map (\<lambda>s. PStr (synthetic_date s i)) [0..<sessions_per_instance])),
             (''haystack_sessions'', PList (map PList sessions)),
             (''answer_session_ids'', PList (if abstention then [] else [PStr (sids ! needle_session)]))], g2))"

text \<open>The values the function writes; \<open>randrange(0)\<close> raises.\<close>

fun synthetic_values :: "(nat \<Rightarrow> 'g \<Rightarrow> nat \<times> 'g) \<Rightarrow> nat \<Rightarrow> nat \<Rightarrow> nat \<Rightarrow> nat \<Rightarrow> 'g \<Rightarrow> pyval list raises" where
  "synthetic_values draw spi tps i 0 g = Inr []"
| "synthetic_values draw spi tps i (Suc n) g =
     (if spi = 0 then Inl (ValueError ''empty range for randrange()'')
      else (case synthetic_instance draw spi tps i g of (v, g1) \<Rightarrow>
        bindE (synthetic_values draw spi tps (Suc i) n g1) (\<lambda>vs. Inr (v # vs))))"

section \<open>Properties of the dataset\<close>

subsection \<open>Parsing\<close>

definition turn_ok :: "pyval \<Rightarrow> bool" where
  "turn_ok t = (case t of PDict d \<Rightarrow> dhas d ''role'' \<and> dhas d ''content'' | _ \<Rightarrow> False)"

lemma parse_turn_iff: "(\<exists>p. parse_turn msg t = Inr p) \<longleftrightarrow> turn_ok t"
  by (auto simp: parse_turn_def turn_ok_def dhas_def split: pyval.splits option.splits)

lemma missing_fields_dict: "missing_fields ks (PDict d) = Inr (filter (\<lambda>k. \<not> dhas d k) ks)"
  by (induction ks) (simp_all add: has_member_def)

lemma mapE_ex_iff: "(\<exists>ys. mapE f xs = Inr ys) \<longleftrightarrow> (\<forall>x \<in> set xs. \<exists>y. f x = Inr y)"
  by (induction xs) (auto simp: bindE_def split: sum.splits)

lemma bindE_ex_iff: "(\<exists>y. bindE x f = Inr y) \<longleftrightarrow> (\<exists>a b. x = Inr a \<and> f a = Inr b)"
  by (cases x) simp_all

lemma parse_session_iff:
  "(\<exists>s. parse_session qid (j, sid, date, turns) = Inr s) \<longleftrightarrow>
     (\<exists>ts. py_elems turns = Inr ts \<and> (\<forall>t \<in> set ts. turn_ok t))"
  by (cases "py_elems turns") (simp_all add: parse_session_def bindE_ex_iff mapE_ex_iff parse_turn_iff)

lemma parse_session_index: "parse_session qid (j, x) = Inr s \<Longrightarrow> ss_index s = j"
  by (cases x) (auto simp: parse_session_def bindE_def split: sum.splits)

lemma zip3_nth: "n < length (zip3 xs ys zs) \<Longrightarrow> zip3 xs ys zs ! n = (xs ! n, ys ! n, zs ! n)"
  by (simp add: zip3_def)

lemma length_zip3 [simp]: "length (zip3 xs ys zs) = min (length xs) (min (length ys) (length zs))"
  by (simp add: zip3_def)

lemma mapE_map: "mapE f xs = Inr ys \<Longrightarrow> (\<And>x y. f x = Inr y \<Longrightarrow> g y = h x) \<Longrightarrow> map g ys = map h xs"
  by (induction xs arbitrary: ys) (auto simp: bindE_def split: sum.splits)

lemma parse_sessions_index:
  assumes "parse_sessions qid ids dates sessions = Inr ss"
  shows "map ss_index ss = [0..<length ss]"
proof -
  obtain xs where x: "mapE (parse_session qid) (List.enumerate 0 xs) = Inr ss"
    using assms by (auto simp: parse_sessions_def bindE_def split: sum.splits)
  have "map ss_index ss = map fst (List.enumerate 0 xs)"
    by (rule mapE_map [OF x]) (auto dest: parse_session_index)
  moreover have "length ss = length xs" using mapE_length [OF x] by simp
  ultimately show ?thesis by simp
qed

lemma parse_instance_dict:
  assumes "parse_instance raw idx = Inr i"
  obtains d where "raw = PDict d" "\<forall>k \<in> set REQUIRED. dhas d k"
    "vget d ''question_type'' \<in> PStr ` set QUESTION_TYPES" "in_type i = py_str (vget d ''question_type'')"
    "in_id i = py_str (vget d ''question_id'')"
    "parse_sessions (vget d ''question_id'') (vget d ''haystack_session_ids'') (vget d ''haystack_dates'')
       (vget d ''haystack_sessions'') = Inr (in_sessions i)"
proof -
  obtain ms where m: "missing_fields REQUIRED raw = Inr ms" "ms = []"
    using assms by (auto simp: parse_instance_def bindE_def split: sum.splits if_splits)
  then obtain d where d: "raw = PDict d"
    using assms by (cases raw) (auto simp: parse_instance_def bindE_def)
  have "filter (\<lambda>k. \<not> dhas d k) REQUIRED = []" using m by (simp add: d missing_fields_dict)
  then have r: "\<forall>k \<in> set REQUIRED. dhas d k" by (auto simp: filter_empty_conv)
  show ?thesis
    by (rule that [OF d r])
      (use assms m in \<open>auto simp: parse_instance_def d Let_def bindE_def split: sum.splits if_splits\<close>)
qed

lemma py_elems_list [simp]: "py_elems (PList xs) = Inr xs"
  by (simp add: py_elems_def)

lemma parse_session_all:
  assumes "length ids = length dates" "length dates = length sessions"
  shows "(\<exists>ss. mapE (parse_session qid) (List.enumerate 0 (zip3 ids dates sessions)) = Inr ss) \<longleftrightarrow>
     (\<forall>s \<in> set sessions. \<exists>ts. py_elems s = Inr ts \<and> (\<forall>t \<in> set ts. turn_ok t))"
proof -
  let ?xs = "List.enumerate 0 (zip3 ids dates sessions)"
  have p: "(\<exists>s. parse_session qid x = Inr s) \<longleftrightarrow>
      (\<exists>ts. py_elems (snd (snd (snd x))) = Inr ts \<and> (\<forall>t \<in> set ts. turn_ok t))" for x
    by (cases x) (simp add: parse_session_iff)
  have m: "map (\<lambda>x. snd (snd (snd x))) ?xs = sessions"
    using assms by (intro nth_equalityI) (auto simp: nth_enumerate_eq zip3_nth)
  have r: "(\<forall>x \<in> set ?xs. R (snd (snd (snd x)))) \<longleftrightarrow> (\<forall>s \<in> set (map (\<lambda>x. snd (snd (snd x))) ?xs). R s)" for R
    by simp
  show ?thesis unfolding mapE_ex_iff p by (rule r [unfolded m])
qed

text \<open>C23: A value whose haystack fields are lists parses exactly when it has every required field, a known
  question type, haystack lists of one length, sessions that are iterable over well-formed turns,
  and answer session ids that can be iterated.\<close>

theorem instance_parses:
  assumes "vget d ''haystack_session_ids'' = PList ids" "vget d ''haystack_dates'' = PList dates"
    "vget d ''haystack_sessions'' = PList sessions"
  shows "(\<exists>i. parse_instance (PDict d) idx = Inr i) \<longleftrightarrow>
     (\<forall>k \<in> set REQUIRED. dhas d k) \<and> vget d ''question_type'' \<in> PStr ` set QUESTION_TYPES \<and>
     length ids = length dates \<and> length dates = length sessions \<and>
     (\<forall>s \<in> set sessions. \<exists>ts. py_elems s = Inr ts \<and> (\<forall>t \<in> set ts. turn_ok t)) \<and>
     (\<exists>as. answer_ids d = Inr as)"
proof -
  let ?common = "(\<forall>k \<in> set REQUIRED. dhas d k) \<and> vget d ''question_type'' \<in> PStr ` set QUESTION_TYPES \<and>
     length ids = length dates \<and> length dates = length sessions"
  have same: "same_lengths (PList ids) (PList dates) (PList sessions) =
      Inr (length ids = length dates \<and> length dates = length sessions)"
    by (simp add: same_lengths_def py_len_of_def)
  show ?thesis
  proof (cases ?common)
    case True
    then have f: "filter (\<lambda>k. \<not> dhas d k) REQUIRED = []" by (simp add: filter_empty_conv)
    have ss: "(\<exists>ss. parse_sessions (vget d ''question_id'') (PList ids) (PList dates) (PList sessions) = Inr ss) \<longleftrightarrow>
        (\<forall>s \<in> set sessions. \<exists>ts. py_elems s = Inr ts \<and> (\<forall>t \<in> set ts. turn_ok t))"
      using True by (simp add: parse_sessions_def py_elems_list parse_session_all)
    have "(\<exists>i. parse_instance (PDict d) idx = Inr i) \<longleftrightarrow>
        (\<exists>ss. parse_sessions (vget d ''question_id'') (PList ids) (PList dates) (PList sessions) = Inr ss) \<and>
        (\<exists>as. answer_ids d = Inr as)"
      using True by (simp add: parse_instance_def missing_fields_dict f Let_def assms same bindE_ex_iff)
    with ss True show ?thesis by simp
  next
    case False
    have "\<not> (\<exists>i. parse_instance (PDict d) idx = Inr i)"
    proof
      assume "\<exists>i. parse_instance (PDict d) idx = Inr i"
      then obtain i where i: "parse_instance (PDict d) idx = Inr i" by blast
      then have "filter (\<lambda>k. \<not> dhas d k) REQUIRED = []"
        by (auto simp: parse_instance_def missing_fields_dict split: if_splits)
      then have r: "\<forall>k \<in> set REQUIRED. dhas d k" by (simp add: filter_empty_conv)
      with i False show False
        by (auto simp: parse_instance_def missing_fields_dict Let_def assms same split: if_splits)
    qed
    with False show ?thesis by blast
  qed
qed

text \<open>A value that has every required field.\<close>

definition sample_raw :: pyval where
  "sample_raw = PDict [(''question_id'', PStr ''q1''), (''question_type'', PStr ''multi-session''), (''question'', PStr ''?''),
     (''answer'', PInt 3), (''question_date'', PStr ''d''), (''haystack_session_ids'', PList [PStr ''a'']),
     (''haystack_dates'', PList [PStr ''d1'']), (''haystack_sessions'', PList [PList [said ''user'' ''hi'']])]"

theorem instance_parses_witness: "\<exists>i. parse_instance sample_raw 0 = Inr i"
  unfolding sample_raw_def
  by (subst instance_parses [where ids = "[PStr ''a'']" and dates = "[PStr ''d1'']"
        and sessions = "[PList [said ''user'' ''hi'']]"])
    (simp_all add: vget_def REQUIRED_def QUESTION_TYPES_def dhas_def py_elems_def turn_ok_def said_def answer_ids_def)

subsection \<open>Loading\<close>

definition instance_inv :: "lme_instance \<Rightarrow> bool" where
  "instance_inv i \<longleftrightarrow> in_type i \<in> set QUESTION_TYPES \<and>
     map ss_index (in_sessions i) = [0..<length (in_sessions i)]"

lemma parse_instance_inv:
  assumes "parse_instance raw idx = Inr i" shows "instance_inv i"
proof -
  obtain d where d: "vget d ''question_type'' \<in> PStr ` set QUESTION_TYPES" "in_type i = py_str (vget d ''question_type'')"
    and s: "parse_sessions (vget d ''question_id'') (vget d ''haystack_session_ids'') (vget d ''haystack_dates'')
       (vget d ''haystack_sessions'') = Inr (in_sessions i)"
    by (rule parse_instance_dict [OF assms])
  from d have "in_type i \<in> set QUESTION_TYPES" by (auto simp: py_str_def)
  with parse_sessions_index [OF s] show ?thesis by (simp add: instance_inv_def)
qed

lemma mapE_member: "mapE f xs = Inr ys \<Longrightarrow> y \<in> set ys \<Longrightarrow> \<exists>x \<in> set xs. f x = Inr y"
  by (induction xs arbitrary: ys) (auto simp: bindE_Inr)

lemma load_parts:
  assumes "load_longmemeval h p name = Inr ds"
  obtains vs where "read_data (lf_bytes p) = Inr (PList vs)" "vs \<noteq> []"
    "mapE (\<lambda>(i, x). parse_instance x i) (List.enumerate 0 vs) = Inr (ds_instances ds)"
    "distinct (map in_id (ds_instances ds))" "ds_size ds = length (lf_bytes p)" "ds_path ds = lf_path p"
proof -
  obtain x where x: "read_data (lf_bytes p) = Inr x"
    using assms by (auto simp: load_longmemeval_def bindE_Inr)
  then obtain v vs where "x = PList (v # vs)"
    using assms by (auto simp: load_longmemeval_def split: pyval.splits list.splits)
  with x have v: "read_data (lf_bytes p) = Inr (PList (v # vs))" by simp
  obtain ys where "mapE (\<lambda>(i, x). parse_instance x i) (List.enumerate 0 (v # vs)) = Inr ys"
    "distinct (map in_id ys)" "ds_size ds = length (lf_bytes p)" "ds_path ds = lf_path p" "ds_instances ds = ys"
    using assms by (auto simp: load_longmemeval_def v bindE_Inr simp del: enumerate_simps mapE.simps split: if_splits)
  with that [OF v] show ?thesis by simp
qed

text \<open>C24: A dataset that loads is non-empty, has distinct question ids and as many instances as its file has
  values, records the size of its file, and every instance has a known question type and sessions
  indexed 0, 1, 2 in order.\<close>

theorem dataset_loaded:
  assumes "load_longmemeval h p name = Inr ds"
  shows "ds_instances ds \<noteq> [] \<and> distinct (map in_id (ds_instances ds)) \<and> ds_size ds = length (lf_bytes p) \<and>
     (\<exists>vs. read_data (lf_bytes p) = Inr (PList vs) \<and> length (ds_instances ds) = length vs) \<and>
     (\<forall>i \<in> set (ds_instances ds). instance_inv i)"
proof -
  obtain vs where v: "read_data (lf_bytes p) = Inr (PList vs)" "vs \<noteq> []"
    and m: "mapE (\<lambda>(i, x). parse_instance x i) (List.enumerate 0 vs) = Inr (ds_instances ds)"
    and d: "distinct (map in_id (ds_instances ds))" "ds_size ds = length (lf_bytes p)"
    by (rule load_parts [OF assms])
  have l: "length (ds_instances ds) = length vs" using mapE_length [OF m] by simp
  have "\<forall>i \<in> set (ds_instances ds). instance_inv i"
    using mapE_member [OF m] parse_instance_inv by fastforce
  with v d l show ?thesis by auto
qed

definition sample_file :: lme_file where
  "sample_file = \<lparr>lf_path = ''d.json'', lf_stem = ''d'',
     lf_bytes = json_dumps Compact_Ascii (PList [sample_raw])\<rparr>"

lemma sample_ok: "json_ok (PList [sample_raw])"
  by (simp add: sample_raw_def said_def)

lemma sample_instance: "\<exists>i. parse_instance sample_raw n = Inr i \<and> in_id i = ''q1''"
  by (simp add: sample_raw_def parse_instance_def missing_fields_dict REQUIRED_def dhas_def vget_def QUESTION_TYPES_def
    same_lengths_def py_len_of_def parse_sessions_def zip3_def parse_session_def parse_turn_def said_def py_elems_def
    answer_ids_def py_str_def)

lemma sample_loads: "\<exists>ds. load_longmemeval h sample_file None = Inr ds"
proof -
  have "read_data (lf_bytes sample_file) = Inr (PList [sample_raw])"
    using json_loads_bytes_dumps [OF sample_ok] by (simp add: read_data_def sample_file_def)
  with sample_instance [of 0] show ?thesis by (auto simp: load_longmemeval_def)
qed

theorem dataset_loaded_witness:
  "\<exists>ds. load_longmemeval (\<lambda>s. s) sample_file None = Inr ds \<and> ds_instances ds \<noteq> [] \<and>
     (\<forall>i \<in> set (ds_instances ds). instance_inv i)"
  using sample_loads [of "\<lambda>s. s"] dataset_loaded by blast

subsection \<open>Selection\<close>

lemma by_id_fold:
  "dget (fold (\<lambda>i d. dset (in_id i) i d) is d0) q = Some i \<Longrightarrow> (i \<in> set is \<and> in_id i = q) \<or> dget d0 q = Some i"
  by (induction "is" arbitrary: d0) (fastforce split: if_splits)+

lemma by_id_member: "dget (by_id ds) q = Some i \<Longrightarrow> i \<in> set (ds_instances ds) \<and> in_id i = q"
  using by_id_fold by (fastforce simp: by_id_def)

lemma mset_permuted:
  assumes "mset (shuffle [0..<length xs]) = mset [0..<length xs]"
  shows "mset (map (\<lambda>i. xs ! i) (shuffle [0..<length xs])) = mset xs"
proof -
  have "mset (map (\<lambda>i. xs ! i) (shuffle [0..<length xs])) = image_mset (\<lambda>i. xs ! i) (mset [0..<length xs])"
    using assms by (simp add: mset_map)
  also have "\<dots> = mset (map (\<lambda>i. xs ! i) [0..<length xs])" by (simp only: mset_map)
  also have "\<dots> = mset xs" by (simp add: map_nth)
  finally show ?thesis .
qed

lemma py_limit_subseteq: "mset (py_limit limit xs) \<subseteq># mset xs"
proof -
  have "mset (take n xs) \<subseteq># mset xs" for n
    by (metis append_take_drop_id mset_append mset_subset_eq_add_left)
  then show ?thesis by (simp add: py_limit_def split: option.splits)
qed



text \<open>A smaller positive limit selects a prefix of what a larger one selects, from the same dataset, seed and
  ids; so a subset is determined by the dataset, the seed and the limit.\<close>

theorem selection_prefix:
  assumes "select_instances shuffle ds seed (Some n) qs = Inr a"
    "select_instances shuffle ds seed (Some m) qs = Inr b" "0 < n" "n \<le> m"
  shows "a = take (nat n) b"
  using assms by (auto simp: select_instances_def py_limit_def bindE_Inr min_def)

theorem selection_prefix_witness:
  "\<exists>ds a b. load_longmemeval (\<lambda>s. s) sample_file None = Inr ds \<and>
     select_instances (\<lambda>_ xs. rev xs) ds 7 (Some 1) None = Inr a \<and>
     select_instances (\<lambda>_ xs. rev xs) ds 7 (Some 2) None = Inr b \<and> a = take 1 b"
proof -
  obtain ds where d: "load_longmemeval (\<lambda>s. s) sample_file None = Inr ds" using sample_loads by blast
  have "\<exists>sel. select_instances (\<lambda>_ xs. rev xs) ds 7 (Some k) None = Inr sel" for k
    by (simp add: select_instances_def selection_pool_def)
  then obtain a b where s: "select_instances (\<lambda>_ xs. rev xs) ds 7 (Some 1) None = Inr a"
    "select_instances (\<lambda>_ xs. rev xs) ds 7 (Some 2) None = Inr b" by blast
  from selection_prefix [OF s] d s show ?thesis by auto
qed

subsection \<open>The synthetic stand-in\<close>

definition answers_in :: "lme_session \<Rightarrow> nat" where
  "answers_in s = length (filter tn_answer (ss_turns s))"

definition plain :: "pyval list \<Rightarrow> bool" where
  "plain ts \<longleftrightarrow> (\<forall>t \<in> set ts. \<exists>r c. t = said r c)"

lemma parse_said [simp]: "parse_turn msg (said r c) = Inr \<lparr>tn_role = r, tn_content = c, tn_answer = False\<rparr>"
  by (simp add: parse_turn_def said_def py_str_def vget_def)

lemma parse_needle [simp]: "\<exists>p. parse_turn msg (needle a v) = Inr p \<and> tn_answer p"
  by (simp add: parse_turn_def needle_def vget_def)

lemma filler_plain: "plain (fst (filler_turns draw n g))"
proof (induction n arbitrary: g)
  case (Suc n)
  obtain k g1 where d: "draw (length FILLER) g = (k, g1)" by fastforce
  obtain rest g2 where r: "filler_turns draw n g1 = (rest, g2)" by fastforce
  from Suc [of g1] have "plain rest" by (simp add: r)
  then show ?case by (auto simp: d r Let_def plain_def)
qed (simp add: plain_def)

lemma plain_parses:
  "plain ts \<Longrightarrow> \<exists>ps. mapE (parse_turn msg) ts = Inr ps \<and> filter tn_answer ps = []"
  by (induction ts) (auto simp: plain_def)

lemma mapE_append:
  "mapE f xs = Inr a \<Longrightarrow> mapE f ys = Inr b \<Longrightarrow> mapE f (xs @ ys) = Inr (a @ b)"
  by (induction xs arbitrary: a) (auto simp: bindE_Inr)

lemma plain_take: "plain ts \<Longrightarrow> plain (take n ts)" "plain ts \<Longrightarrow> plain (drop n ts)"
  by (auto simp: plain_def dest: in_set_takeD in_set_dropD)

lemma py_insert_split: "py_insert n x ts = take n ts @ [x] @ drop n ts"
  by (simp add: py_insert_def)

text \<open>The needle goes after the first turn and the reply after it: at most the first two turns, the needle among
  them, come before the reply.\<close>

lemma with_needle_shape:
  "with_needle a v ts = take 1 ts @ [needle a v] @
     [said ''assistant'' (''Nice, I will remember that your '' @ a @ '' is '' @ v @ ''.'')] @ drop 1 ts"
  by (cases ts) (simp_all add: with_needle_def py_insert_def)

lemma with_needle_parses:
  assumes "plain ts"
  shows "\<exists>ps. mapE (parse_turn msg) (with_needle a v ts) = Inr ps \<and> length (filter tn_answer ps) = 1"
proof -
  obtain p q where p: "mapE (parse_turn msg) (take 1 ts) = Inr p" "filter tn_answer p = []"
    and q: "mapE (parse_turn msg) (drop 1 ts) = Inr q" "filter tn_answer q = []"
    using plain_parses plain_take assms by metis
  obtain n where n: "parse_turn msg (needle a v) = Inr n" "tn_answer n" using parse_needle by blast
  let ?r = "\<lparr>tn_role = ''assistant'', tn_content = ''Nice, I will remember that your '' @ a @ '' is '' @ v @ ''.'', tn_answer = False\<rparr>"
  have "mapE (parse_turn msg) ([needle a v] @ [said ''assistant'' (''Nice, I will remember that your '' @ a @ '' is '' @ v @ ''.'')]) = Inr [n, ?r]"
    by (simp add: n)
  from mapE_append [OF mapE_append [OF p(1) this] q(1)] show ?thesis
    using p(2) q(2) n(2) by (auto simp: with_needle_shape)
qed

lemma synthetic_sessions_shape:
  "\<exists>tss. length tss = n \<and> (\<forall>ts \<in> set tss. plain ts) \<and>
     fst (synthetic_sessions draw pairs plant s n g) = map (\<lambda>(k, ts). plant k ts) (List.enumerate s tss)"
proof (induction n arbitrary: s g)
  case (Suc n)
  obtain ts g1 where d: "filler_turns draw pairs g = (ts, g1)" by fastforce
  obtain rest g2 where r: "synthetic_sessions draw pairs plant (Suc s) n g1 = (rest, g2)" by fastforce
  from Suc [of "Suc s" g1] obtain tss where "length tss = n" "\<forall>ts \<in> set tss. plain ts"
    "rest = map (\<lambda>(k, ts). plant k ts) (List.enumerate (Suc s) tss)" by (auto simp: r)
  moreover have "plain ts" using filler_plain [of draw pairs g] by (simp add: d)
  ultimately show ?case by (intro exI [of _ "ts # tss"]) (simp add: d r)
qed simp

lemma mapE_nth: "mapE f xs = Inr ys \<Longrightarrow> j < length xs \<Longrightarrow> f (xs ! j) = Inr (ys ! j)"
  by (simp add: mapE_Inr_iff list_all2_conv_all_nth)

lemma mapE_all:
  assumes "\<And>j. j < length xs \<Longrightarrow> \<exists>y. f (xs ! j) = Inr y \<and> P j y"
  shows "\<exists>ys. mapE f xs = Inr ys \<and> length ys = length xs \<and> (\<forall>j < length xs. P j (ys ! j))"
proof -
  have "\<forall>x \<in> set xs. \<exists>y. f x = Inr y" using assms by (metis in_set_conv_nth)
  then obtain ys where ys: "mapE f xs = Inr ys" using mapE_ex_iff by metis
  have "P j (ys ! j)" if "j < length xs" for j
    using assms [OF that] mapE_nth [OF ys that] by auto
  with ys mapE_length [OF ys] show ?thesis by blast
qed

lemma syn_not_abs: "\<not> ends_with ''_abs'' (''syn_'' @ nat_text i)"
proof
  assume "ends_with ''_abs'' (''syn_'' @ nat_text i)"
  then have "last (''syn_'' @ nat_text i) = CHR ''s''"
    by (auto simp: ends_with_def suffix_def dest: arg_cong [where f = last])
  then have "CHR ''s'' \<in> set (nat_text i)" using nat_text_nonempty [of i] by (metis last_appendR last_in_set)
  then show False by (auto simp: is_digit_def dest!: nat_text_digits)
qed

text \<open>The needle of an instance, as the loaded data shows it.\<close>

definition needle_in :: "lme_instance \<Rightarrow> nat \<Rightarrow> bool" where
  "needle_in inst k \<longleftrightarrow> k < length (in_sessions inst) \<and> in_answer_sessions inst = [ss_id (in_sessions inst ! k)] \<and>
     (\<forall>j < length (in_sessions inst). answers_in (in_sessions inst ! j) = (if j = k then 1 else 0))"

definition no_needle :: "lme_instance \<Rightarrow> bool" where
  "no_needle inst \<longleftrightarrow> in_answer_sessions inst = [] \<and> (\<forall>s \<in> set (in_sessions inst). answers_in s = 0)"

text \<open>C26: Whatever the generator draws, an instance of the synthetic stand-in parses, with the sessions asked for;
  it is an abstention question exactly for every seventh instance, which then has no evidence and
  no answer session; every other instance has exactly one evidence turn, in the one session it
  names as its answer session.\<close>

theorem synthetic_needle:
  assumes "draw_ok draw" "0 < spi"
  shows "\<exists>inst. parse_instance (fst (synthetic_instance draw spi tps i g)) idx = Inr inst \<and>
     length (in_sessions inst) = spi \<and> is_abstention inst = (i mod 7 = 6) \<and>
     (if i mod 7 = 6 then no_needle inst else \<exists>k. needle_in inst k)"
proof -
  obtain attr val where av: "ATTRS ! (i mod length ATTRS) = (attr, val)" by fastforce
  obtain k g1 where k: "draw spi g = (k, g1)" by fastforce
  have kb: "k < spi" using assms k unfolding draw_ok_def by (metis fst_conv)
  define ab where "ab = (i mod 7 = 6)"
  define plant where "plant = (\<lambda>s turns. if s = k \<and> \<not> ab then with_needle attr val turns else turns)"
  obtain sessions g2 where ss: "synthetic_sessions draw (tps div 2) plant 0 spi g1 = (sessions, g2)" by fastforce
  obtain tss where t: "length tss = spi" "\<forall>ts \<in> set tss. plain ts"
    "sessions = map (\<lambda>(k, ts). plant k ts) (List.enumerate 0 tss)"
    using synthetic_sessions_shape [of spi draw "tps div 2" plant 0 g1] by (auto simp: ss)
  let ?qid = "PStr (''syn_'' @ nat_text i @ (if ab then ''_abs'' else []))"
  let ?sids = "map (synthetic_sid i) [0..<spi]"
  let ?dates = "map (\<lambda>s. PStr (synthetic_date s i)) [0..<spi]"
  let ?zs = "List.enumerate 0 (zip3 (map PStr ?sids) ?dates (map PList sessions))"
  have len: "length ?zs = spi" by (simp add: t)
  have each: "\<exists>y. parse_session ?qid (?zs ! j) = Inr y \<and> (ss_id y = synthetic_sid i j \<and>
      answers_in y = (if j = k \<and> \<not> ab then 1 else 0))" if "j < length ?zs" for j
  proof -
    have j: "j < spi" using that by (simp add: len)
    then have z: "?zs ! j = (j, PStr (synthetic_sid i j), PStr (synthetic_date j i), PList (plant j (tss ! j)))"
      by (simp add: nth_enumerate_eq zip3_nth t)
    have p: "plain (tss ! j)" using t j by simp
    have "\<exists>ps. mapE (parse_turn msg) (plant j (tss ! j)) = Inr ps \<and>
        length (filter tn_answer ps) = (if j = k \<and> \<not> ab then 1 else 0)" for msg
    proof (cases "j = k \<and> \<not> ab")
      case True
      then show ?thesis using with_needle_parses [OF p, of msg attr val] by (simp add: plant_def)
    next
      case False
      then show ?thesis using plain_parses [OF p, of msg] by (auto simp: plant_def)
    qed
    then obtain ps where "mapE (parse_turn (turn_msg ?qid (PStr (synthetic_sid i j)))) (plant j (tss ! j)) = Inr ps"
      "length (filter tn_answer ps) = (if j = k \<and> \<not> ab then 1 else 0)" by blast
    then show ?thesis by (simp only: z) (simp add: parse_session_def answers_in_def py_str_def)
  qed
  have "\<exists>ys. mapE (parse_session ?qid) ?zs = Inr ys \<and> length ys = length ?zs \<and>
      (\<forall>j < length ?zs. ss_id (ys ! j) = synthetic_sid i j \<and> answers_in (ys ! j) = (if j = k \<and> \<not> ab then 1 else 0))"
    by (rule mapE_all) (rule each)
  then obtain ys where ys: "mapE (parse_session ?qid) ?zs = Inr ys" "length ys = spi"
    "\<forall>j < spi. ss_id (ys ! j) = synthetic_sid i j \<and> answers_in (ys ! j) = (if j = k \<and> \<not> ab then 1 else 0)"
    unfolding len by blast
  define v where "v = fst (synthetic_instance draw spi tps i g)"
  have v: "v = PDict
            [(''_synthetic'', PBool True), (''question_id'', ?qid),
             (''question_type'', PStr (QUESTION_TYPES ! (i mod length QUESTION_TYPES))),
             (''question'', PStr (''What is my '' @ attr @ ''?'')),
             (''answer'', PStr (if ab then ''The user never mentioned this.'' else val)),
             (''question_date'', PStr (''2023/06/01 (Thu) 09:0'' @ nat_text (i mod 10))),
             (''haystack_session_ids'', PList (map PStr ?sids)), (''haystack_dates'', PList ?dates),
             (''haystack_sessions'', PList (map PList sessions)),
             (''answer_session_ids'', PList (if ab then [] else [PStr (synthetic_sid i k)]))]"
    using kb by (simp add: v_def synthetic_instance_def av k ss [unfolded plant_def ab_def] ab_def Let_def)
  have "PStr (QUESTION_TYPES ! (i mod length QUESTION_TYPES)) \<in> PStr ` set QUESTION_TYPES"
    by (intro imageI nth_mem) (simp add: QUESTION_TYPES_def)
  then obtain inst where inst: "parse_instance v idx = Inr inst" "in_sessions inst = ys"
    "in_id inst = ''syn_'' @ nat_text i @ (if ab then ''_abs'' else [])"
    "in_answer_sessions inst = (if ab then [] else [synthetic_sid i k])"
    using ys(1) by (auto simp: v parse_instance_def missing_fields_dict REQUIRED_def dhas_def vget_def
      same_lengths_def py_len_of_def t(1,3) parse_sessions_def answer_ids_def py_str_def)
  have abs: "is_abstention inst = ab"
    using syn_not_abs [of i] by (cases ab) (simp_all add: is_abstention_def inst ends_with_def suffix_def)
  have "(if ab then no_needle inst else \<exists>k. needle_in inst k)"
  proof (cases ab)
    case True
    then show ?thesis using ys by (auto simp: no_needle_def inst in_set_conv_nth)
  next
    case False
    then have "needle_in inst k" using ys kb by (simp add: needle_in_def inst)
    with False show ?thesis by auto
  qed
  then show ?thesis using inst(1,2) ys(2) abs by (simp add: v_def ab_def)
qed

theorem synthetic_needle_witness:
  "\<exists>inst. parse_instance (fst (synthetic_instance (\<lambda>n g. (g mod n, Suc g)) 3 4 6 (5::nat))) 0 = Inr inst \<and> no_needle inst"
  using synthetic_needle [of "\<lambda>n g. (g mod n, Suc g)" 3 4 6 "5::nat" 0] by (auto simp: draw_ok_def)

end
