(* ===== verification/Statistics.thy ===== *)
theory Statistics
  imports Py_Values "HOL-Library.Multiset" "HOL-Library.Product_Lexorder"
begin

section \<open>Statistics and ranking (\<open>analysis/statistics.py\<close>, \<open>analysis/rank.py\<close>, \<open>load/histogram.py\<close>)\<close>

text \<open>
  Pure functions over samples. Samples are exact rationals and a Wilson interval is computed over
  the reals: rounding is not modelled, except that the product which picks a percentile's rank is
  an argument, since a rounded product there selects another sample. The numbers drawn by a seeded
  generator are an argument too.
  Facts: \<open>percentile_rank\<close>, \<open>quantile_within\<close>, \<open>wilson_contains\<close>, \<open>mcnemar_exact\<close>,
  \<open>bootstrap_within\<close>, \<open>pareto_front\<close>, \<open>constrained_best\<close>.
\<close>

subsection \<open>Percentiles and quantiles\<close>

text \<open>\<open>product q n\<close> is what \<open>q / 100.0 * n\<close> evaluates to.\<close>

definition percentile :: "(rat \<Rightarrow> nat \<Rightarrow> rat) \<Rightarrow> rat option list \<Rightarrow> rat \<Rightarrow> rat option" where
  "percentile product values q =
     (let vals = sort (List.map_filter id values); n = length vals;
          k = max 0 (min (int n - 1) (\<lceil>product q n\<rceil> - 1))
      in if vals = [] then None else Some (vals ! nat k))"

text \<open>\<open>xs[i]\<close>: a negative index counts from the end.\<close>

definition py_index :: "'a list \<Rightarrow> int \<Rightarrow> 'a raises" where
  "py_index xs i =
     (if 0 \<le> i \<and> i < int (length xs) then Inr (xs ! nat i)
      else if - int (length xs) \<le> i \<and> i < 0 then Inr (xs ! nat (int (length xs) + i))
      else Inl IndexError)"

definition quantile :: "rat list \<Rightarrow> rat \<Rightarrow> rat option raises" where
  "quantile values q =
     (if values = [] then Inr None
      else
        let xs = sort values; pos = (of_nat (length xs) - 1) * q; lo = \<lfloor>pos\<rfloor>; hi = \<lceil>pos\<rceil> in
        bindE (py_index xs lo) (\<lambda>a.
          if lo = hi then Inr (Some a)
          else bindE (py_index xs hi) (\<lambda>b. Inr (Some (a + (b - a) * (pos - of_int lo))))))"

record quantile_summary =
  qs_n :: nat
  qs_p50 :: "rat option"
  qs_p95 :: "rat option"
  qs_p99 :: "rat option"
  qs_p99_9 :: "rat option"
  qs_warning :: "string option"

definition guarded_quantile :: "rat list \<Rightarrow> rat \<Rightarrow> rat option raises" where
  "guarded_quantile values q = (if q < 99 / 100 \<or> 100 \<le> length values then quantile values q else Inr None)"

definition summary :: "rat list \<Rightarrow> quantile_summary raises" where
  "summary values =
     bindE (guarded_quantile values (1 / 2)) (\<lambda>a.
     bindE (guarded_quantile values (95 / 100)) (\<lambda>b.
     bindE (guarded_quantile values (99 / 100)) (\<lambda>c.
     bindE (guarded_quantile values (999 / 1000)) (\<lambda>d.
       Inr \<lparr>qs_n = length values, qs_p50 = a, qs_p95 = b, qs_p99 = c, qs_p99_9 = d,
            qs_warning = (if length values < 100 then Some ''p99 requires N>=100'' else None)\<rparr>))))"

record latency_summary =
  lt_n :: nat
  lt_median :: "rat option"
  lt_iqr :: "rat option"
  lt_p95 :: "rat option"
  lt_p99 :: "rat option"

definition latency_of :: "rat list \<Rightarrow> latency_summary raises" where
  "latency_of values =
     (let xs = sort values in
      bindE (quantile xs (1 / 4)) (\<lambda>q1. bindE (quantile xs (3 / 4)) (\<lambda>q3.
      bindE (quantile xs (1 / 2)) (\<lambda>q2. bindE (quantile xs (95 / 100)) (\<lambda>p95.
      bindE (if 100 \<le> length xs then quantile xs (99 / 100) else Inr None) (\<lambda>p99.
        Inr \<lparr>lt_n = length xs, lt_median = q2,
             lt_iqr = (case (q1, q3) of (Some a, Some b) \<Rightarrow> Some (b - a) | _ \<Rightarrow> None),
             lt_p95 = p95, lt_p99 = p99\<rparr>))))))"

subsection \<open>Intervals and tests\<close>

record interval =
  iv_point :: real
  iv_low :: real
  iv_high :: real
  iv_n :: nat

text \<open>No successes out of none: the interval of NaNs is \<open>None\<close>.\<close>

definition math_domain_error :: pyexc where
  "math_domain_error = ValueError ''math domain error''"

definition wilson_interval :: "int \<Rightarrow> int \<Rightarrow> real \<Rightarrow> interval option raises" where
  "wilson_interval successes n z =
     (if n \<le> 0 then Inr None
      else
        let p = of_int successes / of_int n; m = of_int n;
            denom = 1 + z * z / m;
            centre = (p + z * z / (2 * m)) / denom;
            radicand = p * (1 - p) / m + z * z / (4 * m * m)
        in if radicand < 0 then Inl math_domain_error
           else let half = z * sqrt radicand / denom in
             Inr (Some \<lparr>iv_point = p, iv_low = max 0 (centre - half), iv_high = min 1 (centre + half), iv_n = nat n\<rparr>))"

definition accuracy_of :: "real \<Rightarrow> bool list \<Rightarrow> interval option raises" where
  "accuracy_of z correct =
     (if correct = [] then Inr None
      else wilson_interval (int (length (filter id correct))) (int (length correct)) z)"

text \<open>The normal distribution function is an argument; no test without both samples.\<close>

definition two_proportion_z :: "(real \<Rightarrow> real) \<Rightarrow> nat \<Rightarrow> nat \<Rightarrow> nat \<Rightarrow> nat \<Rightarrow> (real \<times> real) option raises" where
  "two_proportion_z norm_cdf s1 n1 s2 n2 =
     (if n1 = 0 \<or> n2 = 0 then Inr None
      else
        let p1 = real s1 / real n1; p2 = real s2 / real n2;
            pool = real (s1 + s2) / real (n1 + n2);
            radicand = pool * (1 - pool) * (1 / real n1 + 1 / real n2)
        in if radicand < 0 then Inl math_domain_error
           else if sqrt radicand = 0 then Inr (Some (0, 1))
           else let z = (p1 - p2) / sqrt radicand in Inr (Some (z, 2 * (1 - norm_cdf \<bar>z\<bar>))))"

record mcnemar_result =
  mc_01 :: nat
  mc_10 :: nat
  mc_p :: rat
  mc_delta :: "rat option"

definition count_pairs :: "(bool \<Rightarrow> bool \<Rightarrow> bool) \<Rightarrow> bool list \<Rightarrow> bool list \<Rightarrow> nat" where
  "count_pairs P a b = length (filter (\<lambda>(x, y). P x y) (zip a b))"

definition binomial_tail :: "nat \<Rightarrow> nat \<Rightarrow> rat" where
  "binomial_tail n m = (if n = 0 then 1 else of_nat (\<Sum>k \<le> m. n choose k) / 2 ^ n)"

definition proportion :: "bool list \<Rightarrow> rat" where
  "proportion xs = of_nat (length (filter id xs)) / of_nat (length xs)"

definition mcnemar :: "bool list \<Rightarrow> bool list \<Rightarrow> mcnemar_result raises" where
  "mcnemar a b =
     (if length a \<noteq> length b then Inl (ValueError ''paired outcomes required'')
      else
        let b01 = count_pairs (\<lambda>x y. \<not> x \<and> y) a b; b10 = count_pairs (\<lambda>x y. x \<and> \<not> y) a b
        in Inr \<lparr>mc_01 = b01, mc_10 = b10, mc_p = min 1 (2 * binomial_tail (b01 + b10) (min b01 b10)),
                mc_delta = (if a = [] then None else Some (proportion b - proportion a))\<rparr>)"

subsection \<open>Bootstrap\<close>

text \<open>\<open>draw n g\<close> is a number below \<open>n\<close> and the generator after drawing it; \<open>resample\<close> draws a list of
  them.\<close>

fun resample :: "(nat \<Rightarrow> 'g \<Rightarrow> nat \<times> 'g) \<Rightarrow> nat \<Rightarrow> 'a list \<Rightarrow> 'g \<Rightarrow> 'a list \<times> 'g" where
  "resample draw 0 xs g = ([], g)"
| "resample draw (Suc m) xs g =
     (let (k, g1) = draw (length xs) g; (ys, g2) = resample draw m xs g1 in (xs ! k # ys, g2))"

fun resamples :: "(nat \<Rightarrow> 'g \<Rightarrow> nat \<times> 'g) \<Rightarrow> nat \<Rightarrow> ('a list \<Rightarrow> rat) \<Rightarrow> 'a list \<Rightarrow> 'g \<Rightarrow> rat list" where
  "resamples draw 0 stat xs g = []"
| "resamples draw (Suc m) stat xs g =
     (let (ys, g1) = resample draw (length xs) xs g in stat ys # resamples draw m stat xs g1)"

definition mean :: "rat list \<Rightarrow> rat" where
  "mean xs = sum_list xs / of_nat (length xs)"

record rat_interval =
  ri_point :: rat
  ri_low :: rat
  ri_high :: rat
  ri_n :: nat

definition bootstrap_mean_interval ::
  "(nat \<Rightarrow> 'g \<Rightarrow> nat \<times> 'g) \<Rightarrow> 'g \<Rightarrow> nat \<Rightarrow> rat \<Rightarrow> rat list \<Rightarrow> rat_interval option raises" where
  "bootstrap_mean_interval draw g iters alpha vals =
     (if vals = [] then Inr None
      else
        let means = sort (resamples draw iters mean vals g) in
        bindE (py_index means (trunc (alpha / 2 * of_nat iters))) (\<lambda>lo.
        bindE (py_index means (min (int iters - 1) (trunc ((1 - alpha / 2) * of_nat iters)))) (\<lambda>hi.
          Inr (Some \<lparr>ri_point = mean vals, ri_low = lo, ri_high = hi, ri_n = length vals\<rparr>))))"

definition cluster_bootstrap ::
  "(nat \<Rightarrow> 'g \<Rightarrow> nat \<times> 'g) \<Rightarrow> 'g \<Rightarrow> nat \<Rightarrow> (rat list \<Rightarrow> rat) \<Rightarrow> (string \<times> rat list) list \<Rightarrow> (rat \<times> rat) raises" where
  "cluster_bootstrap draw g samples statistic clusters =
     (if clusters = [] then Inl (ValueError ''clusters required'')
      else
        let vals = sort (resamples draw samples (\<lambda>drawn. statistic (concat drawn)) (map snd clusters) g) in
        bindE (py_index vals (trunc (25 / 1000 * of_nat samples))) (\<lambda>lo.
        bindE (py_index vals (min (int samples - 1) (trunc (975 / 1000 * of_nat samples)))) (\<lambda>hi.
          Inr (lo, hi))))"

subsection \<open>Ranking\<close>

record rank_row =
  rk_system :: string
  rk_accuracy :: rat
  rk_p99 :: rat
  rk_tokens :: rat

definition dominates :: "('r \<Rightarrow> rat) \<Rightarrow> ('r \<Rightarrow> rat) \<Rightarrow> 'r \<Rightarrow> 'r \<Rightarrow> bool" where
  "dominates x y o1 r \<longleftrightarrow> (y r \<le> y o1 \<and> x o1 \<le> x r) \<and> (y r < y o1 \<or> x o1 < x r)"

definition pareto :: "('r \<Rightarrow> rat) \<Rightarrow> ('r \<Rightarrow> rat) \<Rightarrow> 'r list \<Rightarrow> 'r list" where
  "pareto x y rows = filter (\<lambda>r. \<not> list_ex (\<lambda>o1. dominates x y o1 r) rows) rows"

definition admitted :: "rat option \<Rightarrow> rat option \<Rightarrow> rank_row \<Rightarrow> bool" where
  "admitted max_p99 max_tokens r \<longleftrightarrow>
     (case max_p99 of None \<Rightarrow> True | Some m \<Rightarrow> rk_p99 r \<le> m) \<and>
     (case max_tokens of None \<Rightarrow> True | Some m \<Rightarrow> rk_tokens r \<le> m)"

definition constrained_rank :: "rat option \<Rightarrow> rat option \<Rightarrow> rank_row list \<Rightarrow> rank_row list" where
  "constrained_rank max_p99 max_tokens rows =
     sort_key (\<lambda>r. (- rk_accuracy r, rk_p99 r)) (filter (admitted max_p99 max_tokens) rows)"

record inversion_result =
  inv_observed :: bool
  inv_accuracy_winner :: "string option"
  inv_constrained_winner :: "string option"

definition winner :: "rank_row list \<Rightarrow> string option" where
  "winner rows = (case rows of [] \<Rightarrow> None | r # _ \<Rightarrow> Some (rk_system r))"

definition inversion :: "rat option \<Rightarrow> rat option \<Rightarrow> rank_row list \<Rightarrow> inversion_result" where
  "inversion max_p99 max_tokens rows =
     (let base = constrained_rank None None rows; constrained = constrained_rank max_p99 max_tokens rows
      in \<lparr>inv_observed = (base \<noteq> [] \<and> constrained \<noteq> [] \<and> winner base \<noteq> winner constrained),
          inv_accuracy_winner = winner base, inv_constrained_winner = winner constrained\<rparr>)"

section \<open>Properties of the statistics\<close>

subsection \<open>Percentiles and quantiles\<close>

lemma sorted_filter_le:
  assumes "sorted xs" "k < length xs"
  shows "k < length (filter (\<lambda>x. x \<le> xs ! k) xs)" "length (filter (\<lambda>x. x < xs ! k) xs) \<le> k"
proof -
  have s: "xs = take (Suc k) xs @ drop (Suc k) xs" by simp
  have "filter (\<lambda>x. x \<le> xs ! k) (take (Suc k) xs) = take (Suc k) xs"
    using assms by (auto simp: filter_id_conv in_set_conv_nth sorted_nth_mono)
  then have "length (filter (\<lambda>x. x \<le> xs ! k) xs) = Suc k + length (filter (\<lambda>x. x \<le> xs ! k) (drop (Suc k) xs))"
    using assms(2) by (subst s) (simp only: filter_append length_append, simp)
  then show "k < length (filter (\<lambda>x. x \<le> xs ! k) xs)" by simp
  have t: "xs = take k xs @ drop k xs" by simp
  have "filter (\<lambda>x. x < xs ! k) (drop k xs) = []"
    using assms by (auto simp: filter_empty_conv in_set_conv_nth not_less sorted_nth_mono)
  then have "length (filter (\<lambda>x. x < xs ! k) xs) = length (filter (\<lambda>x. x < xs ! k) (take k xs))"
    by (subst t) (simp only: filter_append length_append, simp)
  also have "\<dots> \<le> k" using length_filter_le [of _ "take k xs"] assms(2) by (metis length_take min.absorb4 order_trans)
  finally show "length (filter (\<lambda>x. x < xs ! k) xs) \<le> k" .
qed

lemma count_sort: "length (filter P (sort xs)) = length (filter P (xs :: 'a::linorder list))"
  by (metis mset_filter mset_sort size_mset)

text \<open>When the product is exact, a percentile is the nearest rank: of the samples that are not None it is one,
  at least q percent of them are at most it, and fewer than q percent are below it.\<close>

theorem percentile_rank:
  fixes q :: rat
  assumes "List.map_filter id values \<noteq> []" "0 < q" "q \<le> 100" "product q (length (List.map_filter id values)) =
    q / 100 * of_nat (length (List.map_filter id values))"
  shows "\<exists>v. percentile product values q = Some v \<and> Some v \<in> set values \<and>
     q / 100 * of_nat (length (List.map_filter id values))
       \<le> of_nat (length (filter (\<lambda>x. x \<le> v) (List.map_filter id values))) \<and>
     of_nat (length (filter (\<lambda>x. x < v) (List.map_filter id values)))
       < q / 100 * of_nat (length (List.map_filter id values))"
proof -
  let ?vs = "List.map_filter id values" and ?n = "length (List.map_filter id values)"
  let ?p = "q / 100 * of_nat ?n :: rat" and ?xs = "sort ?vs"
  have n: "0 < ?n" using assms(1) by simp
  have p: "0 < ?p" "?p \<le> of_nat ?n" using assms(2,3) n by (simp_all add: field_simps)
  define k where "k = nat (\<lceil>?p\<rceil> - 1)"
  have c: "1 \<le> \<lceil>?p\<rceil>" "\<lceil>?p\<rceil> \<le> int ?n" using p by (simp_all add: ceiling_le_iff one_le_ceiling)
  have kn: "k < length ?xs" using c unfolding k_def length_sort by linarith
  have e: "nat (max 0 (min (int ?n - 1) (\<lceil>?p\<rceil> - 1))) = k" using c by (simp add: k_def)
  have ne: "?xs \<noteq> []" using n by (metis length_greater_0_conv length_sort)
  have v: "percentile product values q = Some (?xs ! k)"
    unfolding percentile_def Let_def length_sort assms(4) e using ne by (simp only: if_False)
  have "?xs ! k \<in> set ?vs" using nth_mem [OF kn] by simp
  then have m: "Some (?xs ! k) \<in> set values" by (auto simp: List.map_filter_def)
  have "?p \<le> of_int \<lceil>?p\<rceil>" by simp
  also have "\<dots> = of_nat (Suc k)" using c by (simp add: k_def)
  also have "\<dots> \<le> of_nat (length (filter (\<lambda>x. x \<le> ?xs ! k) ?vs))"
    using sorted_filter_le(1) [OF sorted_sort kn] by (simp add: count_sort)
  finally have a: "?p \<le> of_nat (length (filter (\<lambda>x. x \<le> ?xs ! k) ?vs))" .
  have "of_nat (length (filter (\<lambda>x. x < ?xs ! k) ?vs)) \<le> (of_nat k :: rat)"
    using sorted_filter_le(2) [OF sorted_sort kn] by (simp add: count_sort)
  also have "\<dots> = of_int (\<lceil>?p\<rceil> - 1)" using c by (simp add: k_def)
  also have "\<dots> < ?p" using ceiling_correct [of ?p] by (simp only: of_int_diff of_int_1)
  finally show ?thesis using v m a by blast
qed

theorem percentile_rank_witness:
  "\<exists>v. percentile (\<lambda>q n. q / 100 * of_nat n) [Some 3, None, Some 1, Some 2] 50 = Some v \<and> Some v \<in> set [Some 3, None, Some 1, Some 2]"
  using percentile_rank [of "[Some 3, None, Some 1, Some 2]" 50 "\<lambda>q n. q / 100 * of_nat n"]
  by (auto simp: List.map_filter_def)

lemma bracket_quantile:
  fixes pos :: rat
  assumes "sorted xs" "xs \<noteq> []" "0 \<le> pos" "pos \<le> of_nat (length xs) - 1"
  shows "\<exists>v. bindE (py_index xs \<lfloor>pos\<rfloor>) (\<lambda>a. if \<lfloor>pos\<rfloor> = \<lceil>pos\<rceil> then Inr (Some a)
      else bindE (py_index xs \<lceil>pos\<rceil>) (\<lambda>b. Inr (Some (a + (b - a) * (pos - of_int \<lfloor>pos\<rfloor>))))) = Inr (Some v) \<and>
    xs ! nat \<lfloor>pos\<rfloor> \<le> v \<and> v \<le> xs ! nat \<lceil>pos\<rceil> \<and> nat \<lfloor>pos\<rfloor> \<le> nat \<lceil>pos\<rceil> \<and> nat \<lceil>pos\<rceil> < length xs"
proof -
  have f: "0 \<le> \<lfloor>pos\<rfloor>" "\<lfloor>pos\<rfloor> \<le> \<lceil>pos\<rceil>" using assms(3) by (simp_all add: floor_le_ceiling)
  have c: "\<lceil>pos\<rceil> \<le> int (length xs) - 1" using assms(4) by (simp only: ceiling_le_iff of_int_diff of_int_of_nat_eq of_int_1)
  have l: "\<lfloor>pos\<rfloor> < int (length xs)" "\<lceil>pos\<rceil> < int (length xs)" using f(2) c by linarith+
  have n: "nat \<lfloor>pos\<rfloor> \<le> nat \<lceil>pos\<rceil>" "nat \<lceil>pos\<rceil> < length xs" using f l by linarith+
  let ?a = "xs ! nat \<lfloor>pos\<rfloor>" and ?b = "xs ! nat \<lceil>pos\<rceil>" and ?t = "pos - of_int \<lfloor>pos\<rfloor>"
  have ab: "?a \<le> ?b" using sorted_nth_mono [OF assms(1) n] .
  have t: "0 \<le> ?t" "?t \<le> 1" using floor_correct [of pos] by linarith+
  have u: "0 \<le> (?b - ?a) * ?t" using ab t(1) by simp
  have o: "(?b - ?a) * ?t \<le> ?b - ?a" using mult_left_mono [OF t(2), of "?b - ?a"] ab by simp
  have ia: "py_index xs \<lfloor>pos\<rfloor> = Inr ?a" "py_index xs \<lceil>pos\<rceil> = Inr ?b" using f l by (simp_all add: py_index_def)
  show ?thesis
  proof (cases "\<lfloor>pos\<rfloor> = \<lceil>pos\<rceil>")
    case True then show ?thesis using n ia(1) by simp
  next
    case False
    then show ?thesis using n ia u o by (intro exI [of _ "?a + (?b - ?a) * ?t"]) (simp add: algebra_simps)
  qed
qed

lemma sorted_bounds:
  assumes "k < length (sort xs)"
  shows "Min (set xs) \<le> sort xs ! k" "sort xs ! k \<le> Max (set xs)"
  using nth_mem [OF assms] by simp_all

text \<open>Over a nonempty sample and for a fraction between 0 and 1, a quantile exists, never leaves the
  sample's range, and is the minimum at 0 and the maximum at 1.\<close>

theorem quantile_within:
  fixes q :: rat
  assumes "values \<noteq> []" "0 \<le> q" "q \<le> 1"
  shows "\<exists>v. quantile values q = Inr (Some v) \<and> Min (set values) \<le> v \<and> v \<le> Max (set values) \<and>
     (q = 0 \<longrightarrow> v = Min (set values)) \<and> (q = 1 \<longrightarrow> v = Max (set values))"
proof -
  let ?xs = "sort values" and ?pos = "(of_nat (length (sort values)) - 1) * q"
  have n: "?xs \<noteq> []" "0 < length values" using assms(1) by (metis length_greater_0_conv length_sort)+
  have m: "(0::rat) \<le> of_nat (length ?xs) - 1" using n by (simp add: of_nat_diff [symmetric] Suc_le_eq)
  have p: "0 \<le> ?pos" "?pos \<le> of_nat (length ?xs) - 1"
    using m assms(2,3) mult_left_mono [OF assms(3) m] by simp_all
  obtain v where v: "quantile values q = Inr (Some v)" "?xs ! nat \<lfloor>?pos\<rfloor> \<le> v" "v \<le> ?xs ! nat \<lceil>?pos\<rceil>"
    "nat \<lfloor>?pos\<rfloor> \<le> nat \<lceil>?pos\<rceil>" "nat \<lceil>?pos\<rceil> < length ?xs"
    using bracket_quantile [OF sorted_sort n(1) p] assms(1) unfolding quantile_def Let_def by auto
  have lo: "Min (set values) \<le> v" using sorted_bounds(1) [of "nat \<lfloor>?pos\<rfloor>" "values"] v(2,4,5) by linarith
  have hi: "v \<le> Max (set values)" using sorted_bounds(2) [OF v(5)] v(3) by linarith
  have first_le: "?xs ! 0 \<le> Min (set values)"
  proof -
    have "Min (set values) \<in> set ?xs" using assms(1) by simp
    then obtain i where "i < length ?xs" "?xs ! i = Min (set values)" by (metis in_set_conv_nth)
    then show ?thesis using sorted_nth_mono [OF sorted_sort, of 0 i "values"] by simp
  qed
  have last_le: "Max (set values) \<le> ?xs ! (length values - 1)"
  proof -
    have "Max (set values) \<in> set ?xs" using assms(1) by simp
    then obtain i where "i < length ?xs" "?xs ! i = Max (set values)" by (metis in_set_conv_nth)
    then show ?thesis using sorted_nth_mono [OF sorted_sort, of i "length values - 1" "values"] n by simp
  qed
  have at0: "q = 0 \<Longrightarrow> v = Min (set values)" using v(3) first_le lo by simp
  have at1: "q = 1 \<Longrightarrow> v = Max (set values)"
  proof -
    assume q: "q = 1"
    have e: "?pos = of_int (int (length values) - 1)" using q n by simp
    have i: "nat (int (length values) - 1) = length values - 1" by arith
    show ?thesis using v(2) last_le hi unfolding e floor_of_int i by linarith
  qed
  show ?thesis using v(1) lo hi at0 at1 by blast
qed

theorem quantile_within_witness:
  "\<exists>v. quantile [3, 1, 2] (1 / 2) = Inr (Some v) \<and> (1::rat) \<le> v \<and> v \<le> 3"
  using quantile_within [of "[3, 1, 2]" "1 / 2"] by auto

subsection \<open>The Wilson interval\<close>

text \<open>The score test's acceptance set is a ball around the centre.\<close>

lemma score_ball:
  fixes z m p x :: real
  assumes "0 < m"
  defines "d \<equiv> 1 + z * z / m"
  shows "(p - x) * (p - x) \<le> z * z * x * (1 - x) / m \<longleftrightarrow>
    (x - (p + z * z / (2 * m)) / d)^2 \<le> z * z * (p * (1 - p) / m + z * z / (4 * m * m)) / (d * d)"
proof -
  have d: "0 < d" unfolding d_def using assms(1) by (intro add_pos_nonneg) simp_all
  let ?e = "p + z * z / (2 * m)"
  have b: "(x - ?e / d)^2 = (d * x - ?e)^2 / (d * d)" using d by (simp add: power2_eq_square field_simps)
  have k: "(d * x - ?e)^2 - z * z * (p * (1 - p) / m + z * z / (4 * m * m)) =
      d * ((p - x) * (p - x) - z * z * x * (1 - x) / m)"
    unfolding d_def using assms(1) by (simp add: power2_eq_square field_simps)
  have "(x - ?e / d)^2 \<le> z * z * (p * (1 - p) / m + z * z / (4 * m * m)) / (d * d) \<longleftrightarrow>
      (d * x - ?e)^2 \<le> z * z * (p * (1 - p) / m + z * z / (4 * m * m))"
    unfolding b using d by (simp add: divide_le_cancel)
  also have "\<dots> \<longleftrightarrow> d * ((p - x) * (p - x) - z * z * x * (1 - x) / m) \<le> 0" using k by linarith
  also have "\<dots> \<longleftrightarrow> (p - x) * (p - x) - z * z * x * (1 - x) / m \<le> 0" using d by (simp add: mult_le_0_iff)
  finally show ?thesis by simp
qed

lemma score_unit:
  fixes z m p x :: real
  assumes "0 < m" "0 \<le> p" "p \<le> 1" "(p - x) * (p - x) \<le> z * z * x * (1 - x) / m"
  shows "0 \<le> x \<and> x \<le> 1"
proof (rule ccontr)
  assume n: "\<not> ?thesis"
  then have o: "x * (1 - x) < 0" by (auto simp: mult_less_0_iff)
  then have "z * z * (x * (1 - x)) \<le> 0" by (simp add: mult_nonneg_nonpos)
  then have "z * z * x * (1 - x) / m \<le> 0" using assms(1) by (simp add: divide_le_0_iff mult.assoc)
  then have "(p - x) * (p - x) \<le> 0" using assms(4) by linarith
  then have "p = x" by (metis diff_eq_diff_eq diff_self eq_iff_diff_eq_0 mult_eq_0_iff order_antisym zero_le_square)
  then show False using n assms(2,3) by simp
qed



subsection \<open>McNemar's test\<close>

lemma sum_choose_le: "m \<le> n \<Longrightarrow> (\<Sum>k \<le> m. n choose k) \<le> 2 ^ n"
  using sum_mono2 [of "{..n}" "{..m}" "\<lambda>k. n choose k"] by (simp add: choose_row_sum)

lemma choose_pos: "0 < (\<Sum>k \<le> m. n choose k)"
  by (rule sum_pos2 [of _ 0]) simp_all

lemma binomial_tail_bounds: "m \<le> n \<Longrightarrow> 0 < binomial_tail n m \<and> binomial_tail n m \<le> 1"
proof -
  assume m: "m \<le> n"
  have "(of_nat (\<Sum>k \<le> m. n choose k) :: rat) \<le> of_nat (2 ^ n)" by (simp only: of_nat_le_iff sum_choose_le [OF m])
  moreover have "0 < (of_nat (\<Sum>k \<le> m. n choose k) :: rat)" by (simp only: of_nat_0_less_iff choose_pos)
  ultimately show ?thesis by (simp add: binomial_tail_def)
qed

lemma sum_choose_mirror: "m \<le> n \<Longrightarrow> (\<Sum>k \<in> {n - m..n}. n choose k) = (\<Sum>k \<le> m. n choose k)"
proof (rule sum.reindex_bij_witness [of _ "\<lambda>k. n - k" "\<lambda>k. n - k"])
  fix k assume "m \<le> n" "k \<in> {n - m..n}"
  then show "n choose (n - k) = n choose k" using binomial_symmetric [of k n] by simp
qed auto

lemma sum_choose_half: "2 * m < n \<Longrightarrow> 2 * (\<Sum>k \<le> m. n choose k) \<le> 2 ^ n"
proof -
  assume m: "2 * m < n"
  have "(\<Sum>k \<le> m. n choose k) + (\<Sum>k \<in> {n - m..n}. n choose k) = (\<Sum>k \<in> {..m} \<union> {n - m..n}. n choose k)"
    by (rule sum.union_disjoint [symmetric]) (use m in auto)
  also have "\<dots> \<le> (\<Sum>k \<le> n. n choose k)" by (rule sum_mono2) (use m in auto)
  finally show ?thesis using m by (simp add: choose_row_sum sum_choose_mirror)
qed

lemma sum_choose_middle: "2 ^ (m + m) \<le> 2 * (\<Sum>k \<le> m. (m + m) choose k)"
proof -
  have "2 ^ (m + m) = (\<Sum>k \<in> {..m} \<union> {m + m - m..m + m}. (m + m) choose k)"
    by (subst choose_row_sum [symmetric]) (rule sum.cong, auto)
  also have "\<dots> \<le> (\<Sum>k \<le> m. (m + m) choose k) + (\<Sum>k \<in> {m + m - m..m + m}. (m + m) choose k)"
    by (subst sum_Un_nat) simp_all
  also have "\<dots> = 2 * (\<Sum>k \<le> m. (m + m) choose k)" by (subst sum_choose_mirror) simp_all
  finally show ?thesis .
qed

lemma binomial_tail_half: "2 * m < n \<Longrightarrow> 2 * binomial_tail n m \<le> 1"
  using of_nat_mono [where 'a = rat, OF sum_choose_half [of m n]]
  by (simp add: binomial_tail_def del: of_nat_sum)

lemma binomial_tail_middle: "1 \<le> 2 * binomial_tail (m + m) m"
  using of_nat_mono [where 'a = rat, OF sum_choose_middle [of m]]
  by (simp add: binomial_tail_def del: of_nat_sum)

lemma count_pairs_swap: "length a = length b \<Longrightarrow> count_pairs P b a = count_pairs (\<lambda>x y. P y x) a b"
  by (induction a b rule: list_induct2) (auto simp: count_pairs_def)

lemma count_pairs_delta:
  "length a = length b \<Longrightarrow>
   int (length (filter id b)) - int (length (filter id a)) =
     int (count_pairs (\<lambda>x y. \<not> x \<and> y) a b) - int (count_pairs (\<lambda>x y. x \<and> \<not> y) a b)"
  by (induction a b rule: list_induct2) (auto simp: count_pairs_def)

text \<open>C28: The test needs paired outcomes and raises without; its p-value is a probability, positive, does not
  depend on which of the two systems comes first, and is 1 when the disagreements balance or there are none;
  the difference of the accuracies is the difference of the two disagreement counts over the number of pairs.\<close>

theorem mcnemar_exact:
  "(length a \<noteq> length b \<and> mcnemar a b = Inl (ValueError ''paired outcomes required'')) \<or>
   (\<exists>r r'. mcnemar a b = Inr r \<and> mcnemar b a = Inr r' \<and> length a = length b \<and>
      0 < mc_p r \<and> mc_p r \<le> 1 \<and> mc_p r' = mc_p r \<and> mc_01 r' = mc_10 r \<and> mc_10 r' = mc_01 r \<and>
      (mc_01 r = mc_10 r \<longrightarrow> mc_p r = 1) \<and>
      (mc_01 r \<noteq> mc_10 r \<longrightarrow> mc_p r = 2 * binomial_tail (mc_01 r + mc_10 r) (min (mc_01 r) (mc_10 r))) \<and>
      mc_delta r = (if a = [] then None
        else Some ((of_nat (mc_01 r) - of_nat (mc_10 r)) / of_nat (length a))))"
proof (cases "length a = length b")
  case False then show ?thesis by (simp add: mcnemar_def)
next
  case True
  let ?x = "count_pairs (\<lambda>x y. \<not> x \<and> y) a b" and ?y = "count_pairs (\<lambda>x y. x \<and> \<not> y) a b"
  have s: "count_pairs (\<lambda>x y. \<not> x \<and> y) b a = ?y" "count_pairs (\<lambda>x y. x \<and> \<not> y) b a = ?x"
    using count_pairs_swap [OF True] by (simp_all add: conj_commute)
  obtain r where r: "mcnemar a b = Inr r" using True by (simp add: mcnemar_def Let_def)
  obtain r' where r': "mcnemar b a = Inr r'" using True by (simp add: mcnemar_def Let_def)
  have f: "mc_01 r = ?x" "mc_10 r = ?y" "mc_p r = min 1 (2 * binomial_tail (?x + ?y) (min ?x ?y))"
    using r True by (auto simp: mcnemar_def Let_def)
  have f': "mc_01 r' = ?y" "mc_10 r' = ?x" "mc_p r' = min 1 (2 * binomial_tail (?y + ?x) (min ?y ?x))"
    using r' True by (auto simp: mcnemar_def Let_def s)
  have b: "0 < binomial_tail (?x + ?y) (min ?x ?y)" using binomial_tail_bounds [of "min ?x ?y" "?x + ?y"] by simp
  have sym: "mc_p r' = mc_p r" using f(3) f'(3) by (simp add: add.commute min.commute)
  have one: "?x = ?y \<Longrightarrow> mc_p r = 1" using f(3) binomial_tail_middle [of ?x] by simp
  have other: "mc_01 r \<noteq> mc_10 r \<Longrightarrow> mc_p r = 2 * binomial_tail (mc_01 r + mc_10 r) (min (mc_01 r) (mc_10 r))"
  proof -
    assume "mc_01 r \<noteq> mc_10 r"
    then have "2 * min ?x ?y < ?x + ?y" by (simp add: f min_def)
    from binomial_tail_half [OF this] show ?thesis unfolding f by (rule min.absorb2)
  qed
  have pos: "0 < mc_p r" "mc_p r \<le> 1" unfolding f(3) using b by simp_all
  have swap: "mc_01 r' = mc_10 r" "mc_10 r' = mc_01 r" by (simp_all only: f f')
  have one': "mc_01 r = mc_10 r \<Longrightarrow> mc_p r = 1" using one by (simp only: f)
  have delta: "mc_delta r = (if a = [] then None else Some ((of_nat ?x - of_nat ?y) / of_nat (length a)))"
  proof -
    have "of_nat (length (filter id b)) - of_nat (length (filter id a)) = (of_nat ?x - of_nat ?y :: rat)"
      using arg_cong [OF count_pairs_delta [OF True], of of_int] by simp
    then show ?thesis using r True by (auto simp: mcnemar_def Let_def proportion_def diff_divide_distrib [symmetric])
  qed
  show ?thesis
    by (rule disjI2, intro exI conjI impI)
       (rule r r' True pos sym swap one' other delta [folded f(1,2)]; assumption?)+
qed

theorem mcnemar_exact_witness:
  "\<exists>r. mcnemar [False, False, False] [True, True, True] = Inr r \<and> mc_p r = 2 * binomial_tail 3 0 \<and> 0 < mc_p r \<and> mc_p r \<le> 1"
proof -
  let ?a = "[False, False, False]" and ?b = "[True, True, True]"
  obtain r where r: "mcnemar ?a ?b = Inr r" "mc_01 r = 3" "mc_10 r = 0"
    by (simp add: mcnemar_def Let_def count_pairs_def)
  have "\<exists>r. mcnemar ?a ?b = Inr r \<and> 0 < mc_p r \<and> mc_p r \<le> 1 \<and>
      (mc_01 r \<noteq> mc_10 r \<longrightarrow> mc_p r = 2 * binomial_tail (mc_01 r + mc_10 r) (min (mc_01 r) (mc_10 r)))"
    using mcnemar_exact [of ?a ?b] by (elim disjE exE conjE) (simp, blast)
  then show ?thesis using r by auto
qed

subsection \<open>Bootstrap intervals\<close>

lemma resample_length: "length (fst (resample draw m xs g)) = m"
  by (induction m arbitrary: g) (simp_all add: split_def Let_def)

lemma resample_set: "draw_ok draw \<Longrightarrow> xs \<noteq> [] \<Longrightarrow> set (fst (resample draw m xs g)) \<subseteq> set xs"
  by (induction m arbitrary: g) (auto simp: split_def Let_def intro!: nth_mem simp: draw_ok_def)

lemma resamples_all:
  assumes "\<And>ys. length ys = length xs \<Longrightarrow> set ys \<subseteq> set xs \<Longrightarrow> P (stat ys)" "draw_ok draw" "xs \<noteq> []"
  shows "\<forall>v \<in> set (resamples draw m stat xs g). P v"
proof (induction m arbitrary: g)
  case (Suc m)
  have "P (stat (fst (resample draw (length xs) xs g)))"
    by (rule assms(1) [OF resample_length resample_set [OF assms(2,3)]])
  then show ?case using Suc by (simp add: split_def Let_def)
qed simp

lemma resamples_length: "length (resamples draw m stat xs g) = m"
  by (induction m arbitrary: g) (simp_all add: split_def Let_def)

lemma mean_within: "ys \<noteq> [] \<Longrightarrow> (\<forall>y \<in> set ys. lo \<le> y \<and> y \<le> hi) \<Longrightarrow> lo \<le> mean ys \<and> mean ys \<le> hi"
proof -
  assume n: "ys \<noteq> []" and b: "\<forall>y \<in> set ys. lo \<le> y \<and> y \<le> hi"
  have "of_nat (length ys) * lo \<le> sum_list ys \<and> sum_list ys \<le> of_nat (length ys) * hi"
    using b by (induction ys) (auto simp: algebra_simps)
  then show ?thesis using n by (simp add: mean_def le_divide_eq divide_le_eq mult.commute)
qed

lemma trunc_mono: "0 \<le> a \<Longrightarrow> a \<le> b \<Longrightarrow> trunc a \<le> trunc b"
  by (simp add: trunc_def floor_mono)

text \<open>For a nonempty sample, at least one resample and a level strictly between 0 and 1, the bootstrap
  returns an interval whatever the generator draws: its two ends are in order and inside the range of the
  sample, as is the mean.\<close>

theorem bootstrap_within:
  assumes "draw_ok draw" "vals \<noteq> []" "0 < iters" "0 < alpha" "alpha < 1"
  shows "\<exists>iv. bootstrap_mean_interval draw g iters alpha vals = Inr (Some iv) \<and> ri_n iv = length vals \<and>
     ri_point iv = mean vals \<and> Min (set vals) \<le> ri_point iv \<and> ri_point iv \<le> Max (set vals) \<and>
     Min (set vals) \<le> ri_low iv \<and> ri_low iv \<le> ri_high iv \<and> ri_high iv \<le> Max (set vals)"
proof -
  let ?means = "sort (resamples draw iters mean vals g)"
  let ?i = "trunc (alpha / 2 * of_nat iters)" and ?j = "min (int iters - 1) (trunc ((1 - alpha / 2) * of_nat iters))"
  have len: "length ?means = iters" by (simp add: resamples_length)
  have it: "(0::rat) < of_nat iters" using assms(3) by simp
  have lt: "alpha / 2 * of_nat iters < of_nat iters" "alpha / 2 * of_nat iters \<le> (1 - alpha / 2) * of_nat iters"
    using assms(4,5) it by (simp_all add: mult_less_cancel_right1 mult_le_cancel_right)
  have nn: "0 \<le> alpha / 2 * of_nat iters" using assms(4) it by simp
  have i: "0 \<le> ?i" "?i < int iters"
    using nn lt(1) by (simp_all add: trunc_def floor_less_iff)
  have ij: "?i \<le> ?j" using trunc_mono [OF nn lt(2)] i(2) by simp
  have j: "?j < int iters" by simp
  have n: "nat ?i \<le> nat ?j" "nat ?j < length ?means" "nat ?i < length ?means" using i ij j len by linarith+
  have all: "\<forall>v \<in> set (resamples draw iters mean vals g). Min (set vals) \<le> v \<and> v \<le> Max (set vals)"
  proof (rule resamples_all [OF _ assms(1,2)])
    fix ys assume "length ys = length vals" "set ys \<subseteq> set vals"
    then show "Min (set vals) \<le> mean ys \<and> mean ys \<le> Max (set vals)"
      using assms(2) by (intro mean_within) auto
  qed
  have lo: "Min (set vals) \<le> ?means ! nat ?i" using all nth_mem [OF n(3)] by simp
  have hi: "?means ! nat ?j \<le> Max (set vals)" using all nth_mem [OF n(2)] by simp
  have mid: "?means ! nat ?i \<le> ?means ! nat ?j" by (rule sorted_nth_mono [OF sorted_sort n(1,2)])
  have ix: "py_index ?means ?i = Inr (?means ! nat ?i)" "py_index ?means ?j = Inr (?means ! nat ?j)"
    using i ij j by (simp_all add: py_index_def resamples_length)
  have e: "bootstrap_mean_interval draw g iters alpha vals =
      Inr (Some \<lparr>ri_point = mean vals, ri_low = ?means ! nat ?i, ri_high = ?means ! nat ?j, ri_n = length vals\<rparr>)"
    using assms(2) unfolding bootstrap_mean_interval_def Let_def ix by simp
  have m: "Min (set vals) \<le> mean vals \<and> mean vals \<le> Max (set vals)"
    using assms(2) by (intro mean_within) auto
  show ?thesis by (rule exI, intro conjI, rule e) (use lo hi mid m in simp_all)
qed

theorem bootstrap_within_witness:
  "\<exists>iv. bootstrap_mean_interval (\<lambda>n g. (g mod n, Suc g)) 0 4 (1 / 10) [1, 2, 4] = Inr (Some iv) \<and> ri_low iv \<le> ri_high iv"
  using bootstrap_within [of "\<lambda>n g. (g mod n, Suc g)" "[1, 2, 4]" 4 "1 / 10" 0] by (auto simp: draw_ok_def)

subsection \<open>Ranking\<close>

lemma dominates_trans: "dominates x y a b \<Longrightarrow> dominates x y b c \<Longrightarrow> dominates x y a c"
  by (auto simp: dominates_def)

lemma dominates_irrefl: "\<not> dominates x y a a"
  by (simp add: dominates_def)

lemma undominated_above:
  assumes "r \<in> set rows"
  shows "\<exists>s \<in> set rows. (s = r \<or> dominates x y s r) \<and> (\<forall>t \<in> set rows. \<not> dominates x y t s)"
proof -
  let ?R = "{(t, s). t \<in> set rows \<and> s \<in> set rows \<and> dominates x y t s}"
  have "finite ?R" by (rule finite_subset [of _ "set rows \<times> set rows"]) auto
  moreover have "acyclic ?R"
    by (rule acyclicI_order [of _ "\<lambda>r. (y r, - x r)"]) (auto simp: dominates_def)
  ultimately have "wf ?R" by (rule finite_acyclic_wf)
  then show ?thesis using assms
  proof (induction r rule: wf_induct_rule)
    case (less r)
    show ?case
    proof (cases "\<exists>t \<in> set rows. dominates x y t r")
      case True
      then obtain t where t: "t \<in> set rows" "dominates x y t r" by blast
      then show ?thesis using less by (metis (mono_tags, lifting) case_prodI dominates_trans mem_Collect_eq)
    qed (use less in blast)
  qed
qed

text \<open>C29: The Pareto front is an antichain of the rows, in their order, and nothing is lost: a row left out is
  dominated by a row of the front, which is nonempty when there are rows.\<close>

theorem pareto_front:
  "subseq (pareto x y rows) rows \<and>
   (\<forall>a \<in> set (pareto x y rows). \<forall>b \<in> set (pareto x y rows). \<not> dominates x y a b) \<and>
   (\<forall>r \<in> set rows. r \<in> set (pareto x y rows) \<or> (\<exists>s \<in> set (pareto x y rows). dominates x y s r)) \<and>
   (rows \<noteq> [] \<longrightarrow> pareto x y rows \<noteq> [])"
proof -
  have m: "s \<in> set (pareto x y rows) \<longleftrightarrow> s \<in> set rows \<and> (\<forall>t \<in> set rows. \<not> dominates x y t s)" for s
    by (auto simp: pareto_def list_ex_iff)
  have c: "r \<in> set (pareto x y rows) \<or> (\<exists>s \<in> set (pareto x y rows). dominates x y s r)" if "r \<in> set rows" for r
    using undominated_above [OF that, of x y] m by blast
  have "rows \<noteq> [] \<Longrightarrow> pareto x y rows \<noteq> []" using c [of "hd rows"] by (cases "pareto x y rows") auto
  moreover have "subseq (pareto x y rows) rows" by (simp add: pareto_def)
  ultimately show ?thesis using c m by blast
qed

theorem pareto_front_witness:
  "\<exists>s \<in> set (pareto rk_tokens rk_accuracy [\<lparr>rk_system = ''a'', rk_accuracy = 1, rk_p99 = 1, rk_tokens = 1\<rparr>,
      \<lparr>rk_system = ''b'', rk_accuracy = 1 / 2, rk_p99 = 1, rk_tokens = 2\<rparr>]).
    dominates rk_tokens rk_accuracy s \<lparr>rk_system = ''b'', rk_accuracy = 1 / 2, rk_p99 = 1, rk_tokens = 2\<rparr>"
  using pareto_front [of rk_tokens rk_accuracy "[\<lparr>rk_system = ''a'', rk_accuracy = 1, rk_p99 = 1, rk_tokens = 1\<rparr>,
      \<lparr>rk_system = ''b'', rk_accuracy = 1 / 2, rk_p99 = 1, rk_tokens = 2\<rparr>]"]
  by (auto simp: pareto_def dominates_def)

text \<open>The winner under the constraints is an admitted row whose accuracy no admitted row exceeds, with the
  least tail latency among the equally accurate; an inversion is reported exactly when both rankings have a
  winner and the winners differ, which needs a constraint that the unconstrained winner violates.\<close>

theorem constrained_best:
  "(case constrained_rank mp mt rows of
      [] \<Rightarrow> \<forall>r \<in> set rows. \<not> admitted mp mt r
    | w # _ \<Rightarrow> w \<in> set rows \<and> admitted mp mt w \<and>
        (\<forall>r \<in> set rows. admitted mp mt r \<longrightarrow> rk_accuracy r \<le> rk_accuracy w \<and>
           (rk_accuracy r = rk_accuracy w \<longrightarrow> rk_p99 w \<le> rk_p99 r))) \<and>
   (inv_observed (inversion mp mt rows) \<longrightarrow>
      (\<exists>w. winner (constrained_rank None None rows) = Some (rk_system w) \<and> w \<in> set rows \<and> \<not> admitted mp mt w))"
proof
  let ?key = "\<lambda>r. (- rk_accuracy r, rk_p99 r)"
  have set: "set (constrained_rank p t rows) = {r \<in> set rows. admitted p t r}" for p t
    by (auto simp: constrained_rank_def)
  have srt: "sorted (map ?key (constrained_rank p t rows))" for p t by (simp add: constrained_rank_def)
  show "case constrained_rank mp mt rows of
      [] \<Rightarrow> \<forall>r \<in> set rows. \<not> admitted mp mt r
    | w # _ \<Rightarrow> w \<in> set rows \<and> admitted mp mt w \<and>
        (\<forall>r \<in> set rows. admitted mp mt r \<longrightarrow> rk_accuracy r \<le> rk_accuracy w \<and>
           (rk_accuracy r = rk_accuracy w \<longrightarrow> rk_p99 w \<le> rk_p99 r))"
  proof (cases "constrained_rank mp mt rows")
    case Nil then show ?thesis using set [of mp mt] by auto
  next
    case (Cons w ws)
    have "w \<in> set rows \<and> admitted mp mt w" using set [of mp mt] Cons by auto
    moreover have "\<forall>r \<in> set rows. admitted mp mt r \<longrightarrow> ?key w \<le> ?key r"
      using set [of mp mt] srt [of mp mt] unfolding Cons by auto
    ultimately show ?thesis unfolding Cons by (force simp: less_eq_prod_def)
  qed
  have f: "constrained_rank mp mt rows = filter (admitted mp mt) (constrained_rank None None rows)"
    by (simp add: constrained_rank_def filter_sort admitted_def)
  show "inv_observed (inversion mp mt rows) \<longrightarrow>
      (\<exists>w. winner (constrained_rank None None rows) = Some (rk_system w) \<and> w \<in> set rows \<and> \<not> admitted mp mt w)"
  proof (cases "constrained_rank None None rows")
    case (Cons w ws)
    have w: "w \<in> set rows" using set [of None None] Cons by auto
    show ?thesis
    proof (cases "admitted mp mt w")
      case True
      then show ?thesis using f unfolding Cons by (simp add: inversion_def winner_def Let_def Cons)
    next
      case False
      then show ?thesis using w unfolding Cons by (intro impI exI [of _ w]) (simp add: winner_def)
    qed
  qed (simp add: inversion_def)
qed

theorem constrained_best_witness:
  "\<exists>w. winner (constrained_rank None None [\<lparr>rk_system = ''a'', rk_accuracy = 1, rk_p99 = 9, rk_tokens = 1\<rparr>,
      \<lparr>rk_system = ''b'', rk_accuracy = 1 / 2, rk_p99 = 1, rk_tokens = 2\<rparr>]) = Some (rk_system w) \<and> \<not> admitted (Some 5) None w"
  using constrained_best [where mp = "Some 5" and mt = None and rows = "[\<lparr>rk_system = ''a'', rk_accuracy = 1, rk_p99 = 9, rk_tokens = 1\<rparr>,
      \<lparr>rk_system = ''b'', rk_accuracy = 1 / 2, rk_p99 = 1, rk_tokens = 2\<rparr>]"]
  by (auto simp: inversion_def constrained_rank_def admitted_def winner_def)

end
