(* ===== verification/Settings.thy ===== *)
theory Settings
  imports Model_Call
begin

section \<open>The proxy's configuration (\<open>proxy/settings.py\<close>)\<close>

text \<open>
  The settings read from the environment, and their redacted form, which opens every event log. The
  environment is a map; the name of the default log file (it holds the time and the process number)
  is an argument.
  Facts: \<open>redaction_noninterference\<close> (the redacted form does not depend on the secret) and
  \<open>environment_settings\<close> (what a valid environment sets).
\<close>

subsection \<open>Reading numbers and truth values\<close>

definition env_bool :: "(string \<Rightarrow> string option) \<Rightarrow> string \<Rightarrow> bool \<Rightarrow> bool" where
  "env_bool env name dflt =
     (case env name of
        None \<Rightarrow> dflt
      | Some raw \<Rightarrow> if raw = [] then dflt
          else py_lower (py_strip raw) \<in> {''1'', ''true'', ''yes'', ''on''})"

text \<open>The literals of \<open>float()\<close>: digits in groups joined by single underscores, a fraction, an exponent.\<close>

definition digit_group :: "string \<Rightarrow> string option" where
  "digit_group s =
     (let ps = py_split CHR ''_'' s in
      if (\<forall>p \<in> set ps. p \<noteq> [] \<and> (\<forall>c \<in> set p. is_digit c)) then Some (concat ps) else None)"

definition exponent :: "string \<Rightarrow> int option" where
  "exponent s =
     (let neg = (s \<noteq> [] \<and> hd s = CHR ''-''); u = (if s \<noteq> [] \<and> hd s \<in> {CHR ''-'', CHR ''+''} then tl s else s)
      in map_option (\<lambda>ds. if neg then - int (digits_val ds) else int (digits_val ds)) (digit_group u))"

definition scale :: "nat \<Rightarrow> int \<Rightarrow> rat" where
  "scale n e = (if 0 \<le> e then of_nat n * 10 ^ nat e else of_nat n / 10 ^ nat (- e))"

definition mantissa :: "string \<Rightarrow> (nat \<times> int) option" where
  "mantissa s =
     (case py_partition CHR ''.'' s of
        (a, dot, b) \<Rightarrow>
          if a = [] \<and> b = [] then None
          else (case (if a = [] then Some [] else digit_group a, if b = [] then Some [] else digit_group b) of
             (Some x, Some y) \<Rightarrow> Some (digits_val (x @ y), - int (length y))
           | _ \<Rightarrow> None))"

definition unsigned_float :: "string \<Rightarrow> rat option" where
  "unsigned_float s =
     (case py_partition CHR ''e'' s of
        (m, has_exp, e) \<Rightarrow>
          (case (mantissa m, if has_exp then exponent e else Some 0) of
             (Some (n, k), Some x) \<Rightarrow> Some (scale n (k + x))
           | _ \<Rightarrow> None))"

definition py_float :: "string \<Rightarrow> pyfloat raises" where
  "py_float raw =
     (let t = py_lower (py_strip raw);
          neg = (t \<noteq> [] \<and> hd t = CHR ''-''); u = (if t \<noteq> [] \<and> hd t \<in> {CHR ''-'', CHR ''+''} then tl t else t) in
      if u \<in> {''inf'', ''infinity''} then Inr (if neg then NegInf else PosInf)
      else if u = ''nan'' then Inr NaN
      else (case unsigned_float u of
          Some q \<Rightarrow> Inr (Finite (if neg then - q else q) t)
        | None \<Rightarrow> Inl (ValueError (''could not convert string to float: '' @ repr_str raw))))"

definition env_float :: "(string \<Rightarrow> string option) \<Rightarrow> string \<Rightarrow> pyfloat \<Rightarrow> pyfloat raises" where
  "env_float env name dflt =
     (case env name of None \<Rightarrow> Inr dflt | Some raw \<Rightarrow> if raw = [] then Inr dflt else py_float raw)"

definition env_int :: "(string \<Rightarrow> string option) \<Rightarrow> string \<Rightarrow> int \<Rightarrow> int raises" where
  "env_int env name dflt = (case env name of None \<Rightarrow> Inr dflt | Some raw \<Rightarrow> py_int (PStr raw))"

definition env_str :: "(string \<Rightarrow> string option) \<Rightarrow> string \<Rightarrow> string \<Rightarrow> string" where
  "env_str env name dflt = (case env name of None \<Rightarrow> dflt | Some raw \<Rightarrow> raw)"

text \<open>\<open>str(Path(s))\<close>: empty and \<open>.\<close> components go, two leading slashes stay.\<close>

definition path_text :: "string \<Rightarrow> string" where
  "path_text s =
     (let root = (if starts_with ''///'' s then ''/'' else if starts_with ''//'' s then ''//''
                  else if starts_with ''/'' s then ''/'' else []);
          body = py_join ''/'' (filter (\<lambda>p. p \<noteq> [] \<and> p \<noteq> ''.'') (py_split CHR ''/'' s))
      in if root @ body = [] then ''.'' else root @ body)"

subsection \<open>ProxySettings\<close>

definition DEFAULT_ALLOWED_SYSTEMS :: "string list" where
  "DEFAULT_ALLOWED_SYSTEMS = [''mem0'', ''graphiti'', ''zep'', ''letta'', ''s4'', ''harness'', ''test'']"

record proxy_settings =
  ps_host :: string
  ps_port :: int
  ps_upstream_base_url :: string
  ps_upstream_api_key :: "string option"
  ps_upstream_connect_timeout_s :: pyfloat
  ps_upstream_timeout_s :: pyfloat
  ps_upstream_max_connections :: int
  ps_log_path :: string
  ps_log_fsync :: bool
  ps_log_bodies :: bool
  ps_force_stream_usage :: bool
  ps_require_attribution :: bool
  ps_allowed_systems :: "string list"

definition default_settings :: "string \<Rightarrow> proxy_settings" where
  "default_settings log_name =
     \<lparr>ps_host = ''127.0.0.1'', ps_port = 8811, ps_upstream_base_url = ''https://api.openai.com/v1'',
      ps_upstream_api_key = None, ps_upstream_connect_timeout_s = Finite 10 ''10.0'',
      ps_upstream_timeout_s = Finite 180 ''180.0'', ps_upstream_max_connections = 512,
      ps_log_path = path_text (''results/raw/proxy/'' @ log_name), ps_log_fsync = False, ps_log_bodies = False,
      ps_force_stream_usage = True, ps_require_attribution = False,
      ps_allowed_systems = DEFAULT_ALLOWED_SYSTEMS\<rparr>"

definition api_key_of :: "(string \<Rightarrow> string option) \<Rightarrow> string option" where
  "api_key_of env =
     (if nonempty (env ''PROXY_UPSTREAM_API_KEY'') then env ''PROXY_UPSTREAM_API_KEY''
      else if nonempty (env ''OPENAI_API_KEY'') then env ''OPENAI_API_KEY'' else None)"

definition systems_list :: "string \<Rightarrow> string list" where
  "systems_list raw = filter (\<lambda>x. x \<noteq> []) (map py_strip (py_split CHR '','' raw))"

definition from_env :: "(string \<Rightarrow> string option) \<Rightarrow> string \<Rightarrow> proxy_settings raises" where
  "from_env env log_name =
     (let s = default_settings log_name in
      bindE (env_int env ''PROXY_PORT'' (ps_port s)) (\<lambda>port.
      bindE (env_float env ''PROXY_UPSTREAM_CONNECT_TIMEOUT_S'' (ps_upstream_connect_timeout_s s)) (\<lambda>connect.
      bindE (env_float env ''PROXY_UPSTREAM_TIMEOUT_S'' (ps_upstream_timeout_s s)) (\<lambda>timeout.
      bindE (env_int env ''PROXY_UPSTREAM_MAX_CONNECTIONS'' (ps_upstream_max_connections s)) (\<lambda>conns.
        Inr \<lparr>ps_host = env_str env ''PROXY_HOST'' (ps_host s), ps_port = port,
          ps_upstream_base_url = rstrip_slash (env_str env ''PROXY_UPSTREAM_BASE_URL'' (ps_upstream_base_url s)),
          ps_upstream_api_key = api_key_of env,
          ps_upstream_connect_timeout_s = connect, ps_upstream_timeout_s = timeout,
          ps_upstream_max_connections = conns,
          ps_log_path = (if nonempty (env ''PROXY_LOG_PATH'') then path_text (the (env ''PROXY_LOG_PATH'')) else ps_log_path s),
          ps_log_fsync = env_bool env ''PROXY_LOG_FSYNC'' (ps_log_fsync s),
          ps_log_bodies = env_bool env ''PROXY_LOG_BODIES'' (ps_log_bodies s),
          ps_force_stream_usage = env_bool env ''PROXY_FORCE_STREAM_USAGE'' (ps_force_stream_usage s),
          ps_require_attribution = env_bool env ''PROXY_REQUIRE_ATTRIBUTION'' (ps_require_attribution s),
          ps_allowed_systems = (if nonempty (env ''PROXY_ALLOWED_SYSTEMS'')
             then systems_list (the (env ''PROXY_ALLOWED_SYSTEMS'')) else ps_allowed_systems s)\<rparr>)))))"

definition redacted :: "proxy_settings \<Rightarrow> pyval dict" where
  "redacted s =
     [(''host'', PStr (ps_host s)), (''port'', PInt (ps_port s)),
      (''upstream_base_url'', PStr (ps_upstream_base_url s)),
      (''upstream_api_key'', if nonempty (ps_upstream_api_key s) then PStr ''<set>'' else PNone),
      (''upstream_connect_timeout_s'', PFloat (ps_upstream_connect_timeout_s s)),
      (''upstream_timeout_s'', PFloat (ps_upstream_timeout_s s)),
      (''upstream_max_connections'', PInt (ps_upstream_max_connections s)),
      (''log_path'', PStr (ps_log_path s)), (''log_fsync'', PBool (ps_log_fsync s)),
      (''log_bodies'', PBool (ps_log_bodies s)), (''force_stream_usage'', PBool (ps_force_stream_usage s)),
      (''require_attribution'', PBool (ps_require_attribution s)),
      (''allowed_systems'', strs (ps_allowed_systems s))]"

text \<open>The part of the settings that the request handlers read.\<close>

definition handler_settings :: "proxy_settings \<Rightarrow> settings" where
  "handler_settings s =
     \<lparr>allowed_systems = ps_allowed_systems s, require_attribution = ps_require_attribution s,
      force_stream_usage = ps_force_stream_usage s, upstream_api_key = ps_upstream_api_key s\<rparr>"

subsection \<open>Properties\<close>

lemma py_float_errors: "py_float raw = Inl e \<Longrightarrow> is_value_error e"
  by (auto simp: py_float_def Let_def split: if_split_asm option.splits)

lemma from_env_error: "from_env env log_name = Inl e \<Longrightarrow> is_value_error e"
  by (auto simp: from_env_def Let_def bindE_Inl env_int_def env_float_def dest: py_float_errors
      split: option.splits if_split_asm)

text \<open>C31: The settings logged at start-up do not depend on the secret: two environments that differ only in
  the value of the API key have the same redacted settings, whatever else they set; a malformed
  number is refused with a \<open>ValueError\<close> before any setting is used.\<close>

theorem redaction_noninterference:
  assumes "\<forall>name. name \<notin> {''PROXY_UPSTREAM_API_KEY'', ''OPENAI_API_KEY''} \<longrightarrow> env name = env' name"
    "(api_key_of env = None) = (api_key_of env' = None)"
  shows "case (from_env env log_name, from_env env' log_name) of
      (Inr s, Inr s') \<Rightarrow> redacted s = redacted s' \<and> ps_upstream_api_key s = api_key_of env \<and>
        dget (redacted s) ''upstream_api_key'' =
          Some (if api_key_of env = None then PNone else PStr ''<set>'')
    | (Inl e, Inl e') \<Rightarrow> e = e' \<and> is_value_error e
    | _ \<Rightarrow> False"
proof -
  have k: "nonempty (api_key_of e) \<longleftrightarrow> api_key_of e \<noteq> None" for e
    by (auto simp: api_key_of_def nonempty_def split: option.splits)
  have eq: "from_env env' log_name = (case from_env env log_name of Inl e \<Rightarrow> Inl e
      | Inr s \<Rightarrow> Inr (s\<lparr>ps_upstream_api_key := api_key_of env'\<rparr>))"
    using assms(1)
    by (auto simp: from_env_def Let_def bindE_def env_int_def env_float_def env_str_def env_bool_def
        split: sum.splits)
  show ?thesis
  proof (cases "from_env env log_name")
    case (Inl e)
    then show ?thesis using eq from_env_error [OF Inl] by simp
  next
    case (Inr s)
    then have "ps_upstream_api_key s = api_key_of env"
      by (auto simp: from_env_def Let_def bindE_Inr)
    then show ?thesis using eq Inr assms(2) k by (auto simp: redacted_def)
  qed
qed

definition sample_env :: "string \<Rightarrow> string \<Rightarrow> string option" where
  "sample_env secret name =
     (if name = ''OPENAI_API_KEY'' then Some secret
      else if name = ''PROXY_UPSTREAM_TIMEOUT_S'' then Some '' 2.5e1 '' else None)"

theorem redaction_noninterference_witness:
  "\<exists>s s'. from_env (sample_env ''sk-a'') ''p'' = Inr s \<and> from_env (sample_env ''sk-b'') ''p'' = Inr s' \<and>
     redacted s = redacted s' \<and> ps_upstream_api_key s = Some ''sk-a'' \<and> ps_upstream_timeout_s s = Finite 25 ''2.5e1''"
proof -
  have f: "py_float '' 2.5e1 '' = Inr (Finite 25 ''2.5e1'')" by code_simp
  have k: "api_key_of (sample_env x) = (if x = [] then None else Some x)" for x
    by (simp add: api_key_of_def sample_env_def nonempty_def)
  obtain s where s: "from_env (sample_env ''sk-a'') ''p'' = Inr s" "ps_upstream_timeout_s s = Finite 25 ''2.5e1''"
    by (simp add: from_env_def sample_env_def env_int_def env_float_def f Let_def)
  obtain s' where s': "from_env (sample_env ''sk-b'') ''p'' = Inr s'"
    by (simp add: from_env_def sample_env_def env_int_def env_float_def f Let_def)
  have "\<forall>name. name \<notin> {''PROXY_UPSTREAM_API_KEY'', ''OPENAI_API_KEY''} \<longrightarrow> sample_env ''sk-a'' name = sample_env ''sk-b'' name"
    by (simp add: sample_env_def)
  from redaction_noninterference [OF this, of "''p''"] show ?thesis using s s' by (simp add: k)
qed

end
