(* ===== verification/Proxy_Client.thy ===== *)
theory Proxy_Client
  imports Proxy_App Adapter_Base
begin

section \<open>The harness's side of the proxy (\<open>proxy/client.py\<close>)\<close>

text \<open>
  The helpers that build API keys, base URLs and attribution headers, and the scope calls. The HTTP
  library is a function that posts a JSON value to a URL and changes the world; the locale
  \<open>scope_server\<close> states what the client relies on, and the control plane of \<open>Proxy_App\<close> provides it.
  Facts: \<open>headers_round_trip\<close> (the headers of a request carry exactly the given tags) and
  \<open>scope_over_http\<close> (a scope around any work that keeps the other scopes leaves the registry as it was).
\<close>

subsection \<open>Static tagging\<close>

definition api_key :: "pyval dict \<Rightarrow> string raises" where
  "api_key tags = api_key_for tags"

definition base_url :: "string \<Rightarrow> pyval dict \<Rightarrow> string raises" where
  "base_url base tags =
     (if tags \<noteq> [] then bindE (encode_tags tags) (\<lambda>tok. Inr (base @ ''/b/'' @ tok @ ''/v1''))
      else Inr (base @ ''/v1''))"

definition header_of :: "string \<times> pyval \<Rightarrow> (string \<times> string) raises" where
  "header_of kv = (case dget FIELD_TO_HEADER (fst kv) of
     None \<Rightarrow> Inl KeyError | Some h \<Rightarrow> Inr (h, py_str (snd kv)))"

definition tag_headers :: "pyval dict \<Rightarrow> string dict raises" where
  "tag_headers tags = bindE (normalize_tags None tags) (mapE header_of)"

subsection \<open>Scopes\<close>

record http_reply =
  rp_status :: int
  rp_body :: string
  rp_reason :: string

definition raise_for_status :: "http_reply \<Rightarrow> unit raises" where
  "raise_for_status r =
     (if 200 \<le> rp_status r \<and> rp_status r < 300 then Inr () else Inl (HttpxError ''HTTPStatusError'' (rp_reason r)))"

definition ENTER_PATH :: string where
  "ENTER_PATH = ''/_bench/scope/enter''"

definition EXIT_PATH :: string where
  "EXIT_PATH = ''/_bench/scope/exit''"

definition enter_payload :: "string \<Rightarrow> pyval \<Rightarrow> pyval dict \<Rightarrow> pyval" where
  "enter_payload cid sid tags =
     PDict [(''client_id'', PStr cid), (''scope_id'', sid), (''tags'', PDict tags)]"

definition exit_payload :: "string \<Rightarrow> pyval \<Rightarrow> pyval" where
  "exit_payload cid sid = PDict [(''client_id'', PStr cid), (''scope_id'', sid)]"

text \<open>\<open>r.json()["scope_id"]\<close>.\<close>

definition scope_id_in :: "string \<Rightarrow> pyval raises" where
  "scope_id_in body =
     bindE (json_loads_bytes body) (\<lambda>v.
       case v of PDict d \<Rightarrow> (case dget d ''scope_id'' of None \<Rightarrow> Inl KeyError | Some x \<Rightarrow> Inr x)
       | _ \<Rightarrow> Inl TypeError)"

type_synonym 'w http_post = "string \<Rightarrow> pyval \<Rightarrow> 'w \<Rightarrow> http_reply raises \<times> 'w"

definition enter_scope ::
  "'w http_post \<Rightarrow> string \<Rightarrow> string \<Rightarrow> string \<Rightarrow> string option \<Rightarrow> pyval dict \<Rightarrow> 'w \<Rightarrow> pyval raises \<times> 'w" where
  "enter_scope post base uuid cid sid tags w =
     (case normalize_tags None tags of
        Inl e \<Rightarrow> (Inl e, w)
      | Inr t \<Rightarrow>
          bindM (post (base @ ENTER_PATH) (enter_payload cid (PStr (if nonempty sid then the sid else uuid)) t)) (\<lambda>r w.
            (bindE (raise_for_status r) (\<lambda>_. scope_id_in (rp_body r)), w)) w)"

definition exit_scope :: "'w http_post \<Rightarrow> string \<Rightarrow> string \<Rightarrow> pyval \<Rightarrow> 'w \<Rightarrow> unit raises \<times> 'w" where
  "exit_scope post base cid sid =
     bindM (post (base @ EXIT_PATH) (exit_payload cid sid)) (\<lambda>r w. (raise_for_status r, w))"

text \<open>\<open>try: ... finally: ...\<close>: the cleaning up runs either way, and its own exception wins.\<close>

definition finallyM :: "('w \<Rightarrow> 'a raises \<times> 'w) \<Rightarrow> ('w \<Rightarrow> unit raises \<times> 'w) \<Rightarrow> 'w \<Rightarrow> 'a raises \<times> 'w" where
  "finallyM body fin w =
     (case body w of (r, w1) \<Rightarrow> (case fin w1 of (Inl e, w2) \<Rightarrow> (Inl e, w2) | (Inr _, w2) \<Rightarrow> (r, w2)))"

definition with_scope ::
  "'w http_post \<Rightarrow> string \<Rightarrow> string \<Rightarrow> string \<Rightarrow> pyval dict \<Rightarrow> (pyval \<Rightarrow> 'w \<Rightarrow> 'a raises \<times> 'w) \<Rightarrow> 'w \<Rightarrow> 'a raises \<times> 'w" where
  "with_scope post base uuid cid tags body =
     bindM (enter_scope post base uuid cid None tags) (\<lambda>sid.
       finallyM (body sid) (exit_scope post base cid sid))"

subsection \<open>What the client relies on\<close>

locale scope_server =
  fixes post :: "'w http_post" and scopes :: "'w \<Rightarrow> string \<times> string \<Rightarrow> scope option" and base :: string
    and served :: "'w \<Rightarrow> bool" and accepts :: "string \<Rightarrow> string \<Rightarrow> pyval dict \<Rightarrow> bool"
  assumes enter_law: "served w \<Longrightarrow> accepts cid sid t \<Longrightarrow> scopes w (cid, sid) = None \<Longrightarrow>
      \<exists>r w' sc. post (base @ ENTER_PATH) (enter_payload cid (PStr sid) t) w = (Inr r, w') \<and>
        raise_for_status r = Inr () \<and> scope_id_in (rp_body r) = Inr (PStr sid) \<and> served w' \<and>
        scope_tags sc = t \<and> scopes w' = (scopes w)((cid, sid) \<mapsto> sc)"
    and exit_law: "served w \<Longrightarrow> accepts cid sid t \<Longrightarrow> scopes w (cid, sid) = Some sc \<Longrightarrow>
      \<exists>r w'. post (base @ EXIT_PATH) (exit_payload cid (PStr sid)) w = (Inr r, w') \<and>
        raise_for_status r = Inr () \<and> served w' \<and> scopes w' = (scopes w)((cid, sid) := None)"
begin

text \<open>The work inside a scope sees it active and it alone is new; whether the work returns or raises, its
  outcome comes out, and what it did to the other scopes stays.\<close>

lemma with_scope_bracket:
  assumes "served w" "normalize_tags None tags = Inr t" "accepts cid uuid t" "scopes w (cid, uuid) = None"
    "\<And>w1. served w1 \<Longrightarrow> \<exists>w2. body (PStr uuid) w1 = (res w1, w2) \<and> served w2 \<and> scopes w2 = scopes w1"
  shows "\<exists>w1 w2. with_scope post base uuid cid tags body w = (res w1, w2) \<and> served w2 \<and> scopes w2 = scopes w \<and>
     (\<exists>sc. scope_tags sc = t \<and> scopes w1 = (scopes w)((cid, uuid) \<mapsto> sc))"
proof -
  obtain r w1 sc where e: "post (base @ ENTER_PATH) (enter_payload cid (PStr uuid) t) w = (Inr r, w1)"
    and ok: "raise_for_status r = Inr ()" "scope_id_in (rp_body r) = Inr (PStr uuid)"
    and w1: "served w1" "scope_tags sc = t" "scopes w1 = (scopes w)((cid, uuid) \<mapsto> sc)"
    using enter_law [OF assms(1,3,4)] by metis
  obtain w2 where b: "body (PStr uuid) w1 = (res w1, w2)" "served w2" "scopes w2 = scopes w1"
    using assms(5) [OF w1(1)] by metis
  have s: "scopes w2 (cid, uuid) = Some sc" using b(3) w1(3) by simp
  obtain r3 w3 where x: "post (base @ EXIT_PATH) (exit_payload cid (PStr uuid)) w2 = (Inr r3, w3)"
    and okx: "raise_for_status r3 = Inr ()" and w3: "served w3" "scopes w3 = (scopes w2)((cid, uuid) := None)"
    using exit_law [OF b(2) assms(3) s] by metis
  have "scopes w3 = scopes w" using w3(2) b(3) w1(3) assms(4) by (auto simp: fun_eq_iff)
  moreover have "enter_scope post base uuid cid None tags w = (Inr (PStr uuid), w1)"
    using e ok assms(2) by (simp add: enter_scope_def nonempty_def)
  moreover have "exit_scope post base cid (PStr uuid) w2 = (Inr (), w3)"
    using x okx by (simp add: exit_scope_def)
  ultimately show ?thesis
    using b w1 w3 by (intro exI [of _ w1] exI [of _ w3]) (auto simp: with_scope_def finallyM_def)
qed

end

subsection \<open>The control plane provides it\<close>

definition as_reply :: "response \<Rightarrow> http_reply" where
  "as_reply r = \<lparr>rp_status = rs_status r, rp_body = rs_body r, rp_reason = ''status ''  @ int_text (rs_status r)\<rparr>"

definition server_error :: http_reply where
  "server_error = \<lparr>rp_status = 500, rp_body = ''Internal Server Error'', rp_reason = ''status 500''\<rparr>"

definition answer_of :: "response raises \<times> 'enc proxy \<Rightarrow> http_reply raises \<times> 'enc proxy" where
  "answer_of out = (case out of (Inl e, px) \<Rightarrow> (Inr server_error, px) | (Inr r, px) \<Rightarrow> (Inr (as_reply r), px))"

text \<open>The two routes, over a link that delivers the compact JSON text of the value.\<close>

definition control_link :: "clock \<Rightarrow> string \<Rightarrow> string \<Rightarrow> 'enc proxy http_post" where
  "control_link ck fresh base url v px =
     (if url = base @ ENTER_PATH then answer_of (scope_enter ck fresh (json_dumps Compact_Utf8 v) px)
      else if url = base @ EXIT_PATH then answer_of (scope_exit ck (json_dumps Compact_Utf8 v) px)
      else (Inr (server_error\<lparr>rp_status := 404\<rparr>), px))"

definition control_ready :: "clock \<Rightarrow> string list \<Rightarrow> 'enc proxy \<Rightarrow> bool" where
  "control_ready ck systems px \<longleftrightarrow>
     valid_utf8 (ck_stamp_log ck) \<and> valid_utf8 (ck_stamp_start ck) \<and> valid_utf8 (ck_stamp_end ck) \<and>
     log_inv (px_log px) \<and> \<not> log_closed (px_log px) \<and> allowed_systems (px_settings px) = systems \<and>
     (\<forall>c s sc. lookup_scope (px_registry px) (c, s) = Some sc \<longrightarrow>
        json_ok (PDict (scope_tags sc)) \<and> valid_utf8 (entered_at sc))"

definition good_scope :: "string list \<Rightarrow> string \<Rightarrow> string \<Rightarrow> pyval dict \<Rightarrow> bool" where
  "good_scope systems cid sid t \<longleftrightarrow>
     cid \<noteq> [] \<and> sid \<noteq> [] \<and> valid_utf8 cid \<and> valid_utf8 sid \<and> tags_ok (Some systems) t \<and> text_valid t"

lemma json_body_dumps: "json_ok (PDict d) \<Longrightarrow> json_body (json_dumps Compact_Utf8 (PDict d)) = Inr (Inr d)"
proof -
  assume ok: "json_ok (PDict d)"
  have "json_dumps Compact_Utf8 (PDict d) \<noteq> []" by (simp add: json_dumps.simps)
  then show ?thesis using json_loads_bytes_dumps [OF ok, of Compact_Utf8] by (simp add: json_body_def)
qed

lemma control_logged:
  assumes "control_ready ck systems px" "json_ok (PDict ev)" "log_control ck ev resp px = (r, px')"
  shows "r = Inr resp \<and> px_registry px' = px_registry px \<and> px_settings px' = px_settings px \<and>
     log_inv (px_log px') \<and> \<not> log_closed (px_log px')"
proof -
  obtain q lg where a: "append_event (ck_stamp_log ck) (ck_accept ck) ev (px_log px) = (q, lg)" by fastforce
  have "log_inv (px_log px)" "valid_utf8 (ck_stamp_log ck)" "event_ok ev" "\<not> log_closed (px_log px)"
    using assms(1,2) by (simp_all add: control_ready_def event_ok_def)
  note st = append_event_step [OF this a]
  then show ?thesis using assms(3) a \<open>\<not> log_closed (px_log px)\<close> by (auto simp: log_control_def)
qed

lemma valid_names [simp]:
  "valid_utf8 ''client_id''" "valid_utf8 ''scope_id''" "valid_utf8 ''tags''" "valid_utf8 ''entered_at''"
  "valid_utf8 ''active_scopes''" "valid_utf8 ''exited_at''" "valid_utf8 ''event_type''"
  "valid_utf8 ''schema_version''" "valid_utf8 ''timestamp''" "valid_utf8 ''SCOPE_ENTER''" "valid_utf8 ''SCOPE_EXIT''"
  by (rule valid_utf8_ascii; simp)+

lemma scope_event_ok:
  assumes "valid_utf8 kind" "valid_utf8 now" "valid_utf8 cid" "valid_utf8 sid"
    "json_ok (PDict (scope_tags sc))"
  shows "json_ok (PDict (scope_event kind now cid sid sc))"
    "valid_utf8 stamp \<Longrightarrow> json_ok (PDict (scope_event kind now cid sid sc @ [(''entered_at'', PStr stamp)]))"
  using assms by (simp_all add: scope_event_def json_ok_PDict)

lemma control_enter:
  assumes r: "control_ready ck systems px" and g: "good_scope systems cid sid t"
    and new: "lookup_scope (px_registry px) (cid, sid) = None"
  shows "\<exists>resp px' sc. scope_enter ck fresh (json_dumps Compact_Utf8 (enter_payload cid (PStr sid) t)) px = (Inr resp, px') \<and>
    rs_status resp = 200 \<and> scope_id_in (rs_body resp) = Inr (PStr sid) \<and> control_ready ck systems px' \<and>
    scope_tags sc = t \<and> lookup_scope (px_registry px') = (lookup_scope (px_registry px))((cid, sid) \<mapsto> sc)"
proof -
  have ok: "json_ok (PDict t)" using g tags_json_ok by (auto simp: good_scope_def)
  let ?body = "[(''client_id'', PStr cid), (''scope_id'', PStr sid), (''tags'', PDict t)]"
  have body: "json_body (json_dumps Compact_Utf8 (enter_payload cid (PStr sid) t)) = Inr (Inr ?body)"
    unfolding enter_payload_def using g ok by (intro json_body_dumps) (simp add: good_scope_def json_ok_PDict)
  have n: "normalize_tags (Some (allowed_systems (px_settings px))) t = Inr t"
    using g r by (intro normalize_tags_id) (simp add: good_scope_def control_ready_def)
  have parts: "enter_parts (px_settings px) fresh ?body = Inr (t, cid, sid)"
    using n g by (auto simp: enter_parts_def vget_def por_def as_dict_def py_str_def good_scope_def)
  obtain y reg where e: "enter cid sid t (ck_stamp_start ck) (px_registry px) = (y, reg)" by fastforce
  obtain sc where sc: "y = Inr sc" "sc = \<lparr>scope_id = sid, scope_tags = t, entered_at = ck_stamp_start ck\<rparr>"
    "lookup_scope reg = (lookup_scope (px_registry px))((cid, sid) \<mapsto> sc)"
    using enter_spec [OF e] g new by (auto simp: good_scope_def Let_def)
  let ?px = "px\<lparr>px_registry := reg\<rparr>" and ?ev = "scope_event ''SCOPE_ENTER'' (ck_stamp_start ck) cid sid sc"
  let ?v = "PDict [(''client_id'', PStr cid), (''scope_id'', PStr sid), (''entered_at'', PStr (ck_stamp_start ck)),
     (''active_scopes'', PInt (int (length (active reg (Some cid)))))]"
  obtain res px' where l: "log_control ck ?ev (json_response 200 ?v []) ?px = (res, px')" by fastforce
  have rdy: "control_ready ck systems ?px"
    using r sc ok by (auto simp: control_ready_def simp del: lookup_scope_simp)
  have ev: "json_ok (PDict ?ev)"
    using r g ok sc(2) by (intro scope_event_ok) (simp_all add: control_ready_def good_scope_def)
  note lg = control_logged [OF rdy ev l]
  have v: "scope_id_in (rs_body (json_response 200 ?v [])) = Inr (PStr sid)"
    using r g json_loads_bytes_dumps [of ?v Compact_Utf8]
    by (simp add: scope_id_in_def json_response_def control_ready_def good_scope_def json_ok_PDict)
  have "control_ready ck systems px'" using rdy lg by (simp add: control_ready_def)
  moreover have "scope_enter ck fresh (json_dumps Compact_Utf8 (enter_payload cid (PStr sid) t)) px = (res, px')"
    using body parts e sc(1) l by (simp add: scope_enter_def)
  ultimately show ?thesis using lg v sc
    by (intro exI [of _ "json_response 200 ?v []"] exI [of _ px'] exI [of _ sc])
       (simp add: json_response_def del: lookup_scope_simp)
qed

lemma control_exit:
  assumes r: "control_ready ck systems px" and g: "good_scope systems cid sid t"
    and act: "lookup_scope (px_registry px) (cid, sid) = Some sc"
  shows "\<exists>resp px'. scope_exit ck (json_dumps Compact_Utf8 (exit_payload cid (PStr sid))) px = (Inr resp, px') \<and>
    rs_status resp = 200 \<and> control_ready ck systems px' \<and>
    lookup_scope (px_registry px') = (lookup_scope (px_registry px))((cid, sid) := None)"
proof -
  let ?body = "[(''client_id'', PStr cid), (''scope_id'', PStr sid)]"
  have body: "json_body (json_dumps Compact_Utf8 (exit_payload cid (PStr sid))) = Inr (Inr ?body)"
    unfolding exit_payload_def using g by (intro json_body_dumps) (simp add: good_scope_def json_ok_PDict)
  obtain y reg where e: "exit cid sid (px_registry px) = (y, reg)" by fastforce
  have y: "y = Inr sc" "lookup_scope reg = (lookup_scope (px_registry px))((cid, sid) := None)"
    using exit_spec [OF e] act by auto
  let ?px = "px\<lparr>px_registry := reg\<rparr>"
  let ?ev = "scope_event ''SCOPE_EXIT'' (ck_stamp_end ck) cid sid sc @ [(''entered_at'', PStr (entered_at sc))]"
  let ?resp = "json_response 200 (PDict [(''client_id'', PStr cid), (''scope_id'', PStr sid),
     (''exited_at'', PStr (ck_stamp_end ck))]) []"
  obtain res px' where l: "log_control ck ?ev ?resp ?px = (res, px')" by fastforce
  have rdy: "control_ready ck systems ?px"
    using r y(2) by (auto simp: control_ready_def simp del: lookup_scope_simp)
  have ev: "json_ok (PDict ?ev)"
    using r g act by (intro scope_event_ok) (auto simp: control_ready_def good_scope_def simp del: lookup_scope_simp)
  note lg = control_logged [OF rdy ev l]
  have ids: "py_str (por (PStr cid) (PStr [])) = cid" "py_str (por (PStr sid) (PStr [])) = sid"
    using g by (simp_all add: por_def py_str_def good_scope_def)
  have "control_ready ck systems px'" using rdy lg by (simp add: control_ready_def)
  moreover have "scope_exit ck (json_dumps Compact_Utf8 (exit_payload cid (PStr sid))) px = (res, px')"
    using body e y(1) l ids by (simp add: scope_exit_def vget_def Let_def)
  ultimately show ?thesis using lg y by (auto simp: json_response_def simp del: lookup_scope_simp)
qed

lemma paths_differ: "EXIT_PATH \<noteq> ENTER_PATH"
  by (simp add: EXIT_PATH_def ENTER_PATH_def)

interpretation control_plane: scope_server "control_link ck fresh base" "\<lambda>px. lookup_scope (px_registry px)" base
  "control_ready ck systems" "good_scope systems"
proof
  fix w :: "'a proxy" and cid sid t
  assume "control_ready ck systems w" "good_scope systems cid sid t" "lookup_scope (px_registry w) (cid, sid) = None"
  from control_enter [OF this, of fresh]
  show "\<exists>r w' sc. control_link ck fresh base (base @ ENTER_PATH) (enter_payload cid (PStr sid) t) w = (Inr r, w') \<and>
      raise_for_status r = Inr () \<and> scope_id_in (rp_body r) = Inr (PStr sid) \<and> control_ready ck systems w' \<and>
      scope_tags sc = t \<and> lookup_scope (px_registry w') = (lookup_scope (px_registry w))((cid, sid) \<mapsto> sc)"
    by (elim exE conjE) (simp add: control_link_def answer_of_def as_reply_def raise_for_status_def, blast)
next
  fix w :: "'a proxy" and cid sid t sc
  assume "control_ready ck systems w" "good_scope systems cid sid t" "lookup_scope (px_registry w) (cid, sid) = Some sc"
  from control_exit [OF this]
  show "\<exists>r w'. control_link ck fresh base (base @ EXIT_PATH) (exit_payload cid (PStr sid)) w = (Inr r, w') \<and>
      raise_for_status r = Inr () \<and> control_ready ck systems w' \<and>
      lookup_scope (px_registry w') = (lookup_scope (px_registry w))((cid, sid) := None)"
    by (elim exE conjE) (simp add: control_link_def paths_differ answer_of_def as_reply_def raise_for_status_def)
qed

subsection \<open>Properties\<close>

text \<open>C30: A scope opened by the client around any work, over the proxy's control plane: inside it the
  scope is active with the given tags, and afterwards the active scopes are those of before, whether the
  work returned a value or raised, and its outcome is what comes out. The work may change the proxy
  in every other way; the client's allow-list check happens on the server only.\<close>

theorem scope_over_http:
  assumes "control_ready ck systems px" "normalize_tags None tags = Inr t" "good_scope systems cid uuid t"
    "lookup_scope (px_registry px) (cid, uuid) = None"
    "\<And>px1. control_ready ck systems px1 \<Longrightarrow> \<exists>px2. body (PStr uuid) px1 = (res px1, px2) \<and>
       control_ready ck systems px2 \<and> lookup_scope (px_registry px2) = lookup_scope (px_registry px1)"
  shows "\<exists>px1 px2. with_scope (control_link ck fresh base) base uuid cid tags body px = (res px1, px2) \<and>
     control_ready ck systems px2 \<and> lookup_scope (px_registry px2) = lookup_scope (px_registry px) \<and>
     (\<exists>sc. scope_tags sc = t \<and> lookup_scope (px_registry px1) = (lookup_scope (px_registry px))((cid, uuid) \<mapsto> sc))"
  by (rule control_plane.with_scope_bracket) (fact assms)+

definition sample_tags :: "pyval dict" where
  "sample_tags = [(''operation'', PStr ''write''), (''session_id'', PStr ''s'')]"

lemma fresh_log_inv: "valid_utf8 inst \<Longrightarrow> log_inv (fresh_log inst) \<and> \<not> log_closed (fresh_log inst)"
  by (auto simp: log_inv_def fresh_log_def intro!: exI [of _ "[]"])

theorem scope_over_http_witness:
  "\<exists>px2. with_scope (control_link sample_clock ''f'' ''u'') ''u'' ''id'' ''mem0'' sample_tags (\<lambda>sid px. (Inl TypeError, px)) sample_proxy
     = (Inl TypeError :: unit raises, px2) \<and> lookup_scope (px_registry px2) = lookup_scope (px_registry sample_proxy)"
proof -
  have n: "normalize_tags None sample_tags = Inr sample_tags" by code_simp
  have v: "valid_utf8 ''write''" "valid_utf8 ''s''" "valid_utf8 ''id''" "valid_utf8 ''mem0''"
    by (rule valid_utf8_ascii; simp)+
  have t: "tags_ok (Some [''mem0'']) sample_tags"
    by (rule normalize_tags_ok [of _ sample_tags]) code_simp
  have g: "good_scope [''mem0''] ''mem0'' ''id'' sample_tags"
    using t v by (simp add: good_scope_def sample_tags_def text_valid_def)
  have r: "control_ready sample_clock [''mem0''] sample_proxy"
    using fresh_log_inv
    by (auto simp: control_ready_def sample_clock_def sample_proxy_def clients_def intro!: valid_utf8_ascii)
  have e: "lookup_scope (px_registry sample_proxy) (''mem0'', ''id'') = None"
    by (simp add: sample_proxy_def clients_def)
  show ?thesis
    using scope_over_http [OF r n g e, where body = "\<lambda>sid px. (Inl TypeError, px)" and res = "\<lambda>_. Inl TypeError" and base = "''u''" and fresh = "''f''"]
    by auto
qed

subsection \<open>Headers\<close>

lemma header_names: "k \<in> set TAG_FIELDS \<Longrightarrow> \<exists>h. dget FIELD_TO_HEADER k = Some h \<and> (h, k) \<in> set HEADER_TO_FIELD"
  by (simp add: TAG_FIELDS_def FIELD_TO_HEADER_def HEADER_TO_FIELD_def) (elim disjE; simp)

lemma header_row:
  "k \<in> set TAG_FIELDS \<Longrightarrow> dget FIELD_TO_HEADER k = Some h \<Longrightarrow> filter (\<lambda>(h', f'). f' = k) HEADER_TO_FIELD = [(h, k)]"
  by (simp add: TAG_FIELDS_def FIELD_TO_HEADER_def HEADER_TO_FIELD_def) (elim disjE; simp)

lemma header_fields: "(h, k) \<in> set HEADER_TO_FIELD \<Longrightarrow> dget FIELD_TO_HEADER k = Some h \<and> k \<in> set TAG_FIELDS \<and> h \<noteq> TAGS_HEADER"
  by (simp add: TAG_FIELDS_def FIELD_TO_HEADER_def HEADER_TO_FIELD_def TAGS_HEADER_def) (elim disjE; simp)

lemma header_inj: "dget FIELD_TO_HEADER k = Some h \<Longrightarrow> dget FIELD_TO_HEADER k' = Some h \<Longrightarrow> k = k'"
  by (auto simp: FIELD_TO_HEADER_def HEADER_TO_FIELD_def split: if_split_asm)

lemma mapE_header_of:
  "(\<forall>(k, v) \<in> set t. k \<in> set TAG_FIELDS) \<Longrightarrow>
   mapE header_of t = Inr (map (\<lambda>(k, v). (the (dget FIELD_TO_HEADER k), py_str v)) t)"
proof (induction t)
  case (Cons kv t)
  then have "fst kv \<in> set TAG_FIELDS" by (cases kv) auto
  from header_names [OF this] Cons show ?case by (cases kv) (auto simp: header_of_def bindE_def)
qed simp

lemma dget_header:
  assumes "\<forall>(k, v) \<in> set t. k \<in> set TAG_FIELDS" "dget FIELD_TO_HEADER k = Some h"
  shows "dget (map (\<lambda>(k, v). (the (dget FIELD_TO_HEADER k), py_str v)) t) h = map_option py_str (dget t k)"
  using assms
proof (induction t)
  case (Cons kv t)
  obtain k' v where kv: "kv = (k', v)" by fastforce
  obtain h' where "dget FIELD_TO_HEADER k' = Some h'" using header_names [of k'] Cons(2) kv by auto
  then show ?case using Cons kv header_inj [of k h k'] by auto
qed simp

lemma single_headers_get:
  "distinct (map snd ps) \<Longrightarrow> dget (single_headers hs ps acc) k =
     (case filter (\<lambda>(h, f). f = k) ps of [] \<Rightarrow> dget acc k
      | (h, f) # _ \<Rightarrow> (case hs h of Some v \<Rightarrow> if v \<noteq> [] then Some (PStr v) else dget acc k | None \<Rightarrow> dget acc k))"
proof (induction hs ps acc rule: single_headers.induct)
  case (2 hs h f ps acc)
  then have "filter (\<lambda>(h', f'). f' = f) ps = []" by (force simp: filter_empty_conv)
  then show ?case using 2 by (auto split: option.splits list.splits)
qed simp

lemma single_headers_dict: "dict_ok acc \<Longrightarrow> dict_ok (single_headers hs ps acc)"
  by (induction hs ps acc rule: single_headers.induct) (auto split: option.splits)

lemma normalize_loop_total:
  "(\<forall>(k, v) \<in> set raw. \<exists>r. normalize_field al k v = Inr r) \<Longrightarrow> \<exists>t. normalize_loop al out raw = Inr t"
proof (induction al out raw rule: normalize_loop.induct)
  case (2 al out k v raw)
  then obtain r where r: "normalize_field al k v = Inr r" by auto
  from 2(1) [of r] 2(2) show ?case by (auto simp: r)
qed simp

lemma normalize_field_text: "field_ok None k v \<Longrightarrow> normalize_field None k (PStr (py_str v)) = Inr (Some v)"
proof (erule field_okE)
  fix i assume v: "v = PInt i" and k: "k = ''seed''" "k \<in> set TAG_FIELDS"
  have "seed_field (PStr (int_text i)) = Inr (Some (PInt i))"
    by (simp add: seed_field_Inr int_literal_int_text)
  then show ?thesis using k v by (simp add: normalize_field_def py_str_def)
next
  fix s assume "v = PStr s" "k \<noteq> ''seed''" "k \<in> set TAG_FIELDS" "text_ok None k s"
  then show ?thesis using normalize_field_id [of None k v] by (simp add: field_ok_def py_str_def)
qed

lemma field_text_nonempty: "field_ok None k v \<Longrightarrow> py_str v \<noteq> []"
  using nat_text_nonempty by (erule_tac field_okE) (auto simp: py_str_def text_ok_def int_text_def)

text \<open>Attribution by headers loses nothing: whatever tags the client turns into headers, the proxy reads the
  same value for every field from them, and no field that was not given; the headers are refused exactly
  when the tags are.\<close>

theorem headers_round_trip:
  assumes "dict_ok tags"
  shows "(case tag_headers tags of
      Inl e \<Rightarrow> normalize_tags None tags = Inl e
    | Inr hs \<Rightarrow> \<exists>t h. normalize_tags None tags = Inr t \<and> header_part (dget hs) = Inr h \<and> dget h = dget t)"
proof (cases "normalize_tags None tags")
  case (Inl e)
  then show ?thesis by (simp add: tag_headers_def bindE_def)
next
  case (Inr t)
  note ok = normalize_tags_ok [OF Inr]
  have flds: "\<forall>(k, v) \<in> set t. k \<in> set TAG_FIELDS" using ok by (auto simp: tags_ok_def field_ok_def)
  let ?hs = "map (\<lambda>(k, v). (the (dget FIELD_TO_HEADER k), py_str v)) t"
  have hs: "tag_headers tags = Inr ?hs"
    unfolding tag_headers_def Inr by (simp add: bindE_def mapE_header_of [OF flds])
  have no_token: "dget ?hs TAGS_HEADER = None"
  proof (rule dget_notin)
    show "TAGS_HEADER \<notin> fst ` set ?hs"
      using flds header_names header_fields by fastforce
  qed
  let ?raw = "single_headers (dget ?hs) HEADER_TO_FIELD []"
  have raw: "dget ?raw k = map_option (\<lambda>v. PStr (py_str v)) (dget t k)" for k
  proof (cases "k \<in> set TAG_FIELDS")
    case True
    then obtain h where h: "dget FIELD_TO_HEADER k = Some h" "(h, k) \<in> set HEADER_TO_FIELD" using header_names by blast
    have d: "distinct (map snd HEADER_TO_FIELD)" by (simp add: HEADER_TO_FIELD_def)
    have f: "filter (\<lambda>(h', f'). f' = k) HEADER_TO_FIELD = [(h, k)]"
      by (rule header_row [OF True h(1)])
    have ne: "dget t k = Some v \<Longrightarrow> py_str v \<noteq> []" for v
      using tags_okD [OF ok] field_text_nonempty by blast
    show ?thesis using single_headers_get [OF d, of "dget ?hs" "[]" k] f dget_header [OF flds h(1)] ne
      by (cases "dget t k") simp_all
  next
    case False
    have d: "distinct (map snd HEADER_TO_FIELD)" by (simp add: HEADER_TO_FIELD_def)
    have f: "filter (\<lambda>(h', f'). f' = k) HEADER_TO_FIELD = []"
      using False header_fields by (fastforce simp: filter_empty_conv)
    have "k \<notin> fst ` set t" using flds False by auto
    then show ?thesis using single_headers_get [OF d, of "dget ?hs" "[]" k] f by simp
  qed
  have rd: "dict_ok ?raw" by (rule single_headers_dict) simp
  have each: "normalize_field None k (PStr (py_str v)) = Inr (Some v)" if "dget t k = Some v" for k v
    using tags_okD [OF ok that] by (rule normalize_field_text)
  have "\<exists>r. normalize_field None k v = Inr r" if kv: "(k, v) \<in> set ?raw" for k v
    using raw [of k] dict_ok_set_iff [OF rd, of k v] kv each [of k] by auto
  then obtain h where h: "normalize_tags None ?raw = Inr h"
    using normalize_loop_total [of ?raw None "[]"] by (auto simp: normalize_tags_def)
  have "dget h k = dget t k" for k
    using normalize_tags_get [OF h rd, of k] raw [of k] each [of k]
    by (cases "dget t k") (simp_all add: field_result_def)
  moreover have "header_part (dget ?hs) = Inr h"
    using h no_token by (simp add: header_part_def nonempty_def bindE_def)
  ultimately show ?thesis using hs Inr by auto
qed

theorem headers_round_trip_witness:
  "\<exists>hs h. tag_headers [(''seed'', PStr '' 42''), (''operation'', PStr ''judge'')] = Inr hs \<and> header_part (dget hs) = Inr h \<and>
     dget h ''seed'' = Some (PInt 42)"
proof -
  let ?d = "[(''seed'', PStr '' 42''), (''operation'', PStr ''judge'')]"
  have n: "normalize_tags None ?d = Inr [(''seed'', PInt 42), (''operation'', PStr ''judge'')]" by code_simp
  have d: "dict_ok ?d" by simp
  from headers_round_trip [OF d] n show ?thesis by (auto split: sum.splits)
qed

end
