(* ===== verification/Calendar.thy ===== *)
theory Calendar
  imports Py_Values
begin

section \<open>Dates (\<open>datetime.strptime\<close> and \<open>strftime\<close>)\<close>

text \<open>
  The part of Python's \<open>datetime\<close> that the prompts use: parsing the six formats that occur, shifting by
  a zone offset and writing \<open>%A, %B %d, %Y\<close>. A numeric directive is always followed by a character
  that is no digit or by the end, so it takes all the digits there are.
  Not modelled: fractions of a second in a zone offset, and years below 1000 in \<open>strftime\<close>, which depend on the platform.
\<close>

type_synonym date = "int \<times> int \<times> int"

definition is_leap :: "int \<Rightarrow> bool" where
  "is_leap y \<longleftrightarrow> (4 dvd y \<and> \<not> 100 dvd y) \<or> 400 dvd y"

definition month_days :: "int \<Rightarrow> int \<Rightarrow> int" where
  "month_days y m =
     (if m = 2 then (if is_leap y then 29 else 28) else if m \<in> {4, 6, 9, 11} then 30 else 31)"

definition date_ok :: "date \<Rightarrow> bool" where
  "date_ok dt \<longleftrightarrow> (case dt of (y, m, d) \<Rightarrow> 1 \<le> y \<and> y \<le> 9999 \<and> 1 \<le> m \<and> m \<le> 12 \<and> 1 \<le> d \<and> d \<le> month_days y m)"

definition days_before_month :: "int \<Rightarrow> int \<Rightarrow> int" where
  "days_before_month y m = sum_list (map (month_days y) [1..m - 1])"

definition ordinal :: "date \<Rightarrow> int" where
  "ordinal dt = (case dt of (y, m, d) \<Rightarrow>
     (y - 1) * 365 + (y - 1) div 4 - (y - 1) div 100 + (y - 1) div 400 + days_before_month y m + d)"

definition next_day :: "date \<Rightarrow> date" where
  "next_day dt = (case dt of (y, m, d) \<Rightarrow>
     if d < month_days y m then (y, m, d + 1) else if m < 12 then (y, m + 1, 1) else (y + 1, 1, 1))"

definition prev_day :: "date \<Rightarrow> date" where
  "prev_day dt = (case dt of (y, m, d) \<Rightarrow>
     if 1 < d then (y, m, d - 1) else if 1 < m then (y, m - 1, month_days y (m - 1)) else (y - 1, 12, 31))"

definition WEEKDAYS :: "string list" where
  "WEEKDAYS = [''Monday'', ''Tuesday'', ''Wednesday'', ''Thursday'', ''Friday'', ''Saturday'', ''Sunday'']"

definition MONTHS :: "string list" where
  "MONTHS = [''January'', ''February'', ''March'', ''April'', ''May'', ''June'', ''July'', ''August'',
     ''September'', ''October'', ''November'', ''December'']"

definition day_text :: "int \<Rightarrow> string" where
  "day_text d = (if d < 10 then ''0'' @ int_text d else int_text d)"

text \<open>\<open>strftime("%A, %B %d, %Y")\<close>.\<close>

definition long_date :: "date \<Rightarrow> string" where
  "long_date dt = (case dt of (y, m, d) \<Rightarrow>
     WEEKDAYS ! nat ((ordinal dt + 6) mod 7) @ '', '' @ MONTHS ! nat (m - 1) @ '' '' @ day_text d @ '', '' @ int_text y)"

subsection \<open>Parsing\<close>

text \<open>One to \<open>most\<close> digits, at least \<open>least\<close> of them, whose value is in range.\<close>

definition number :: "nat \<Rightarrow> nat \<Rightarrow> nat \<Rightarrow> nat \<Rightarrow> string \<Rightarrow> (int \<times> string) option" where
  "number least most lo hi s =
     (let ds = takeWhile is_digit s in
      if least \<le> length ds \<and> length ds \<le> most \<and> lo \<le> digits_val ds \<and> digits_val ds \<le> hi
      then Some (int (digits_val ds), drop (length ds) s) else None)"

text \<open>A day may also be written as a space and one digit.\<close>

definition day_number :: "string \<Rightarrow> (int \<times> string) option" where
  "day_number s =
     (case s of c # t \<Rightarrow> if c = CHR '' '' then number 1 1 1 9 t else number 1 2 1 31 s | [] \<Rightarrow> None)"

definition literal :: "char \<Rightarrow> string \<Rightarrow> string option" where
  "literal c s = (case s of x # t \<Rightarrow> if lower_char x = lower_char c then Some t else None | [] \<Rightarrow> None)"

abbreviation bindO :: "'a option \<Rightarrow> ('a \<Rightarrow> 'b option) \<Rightarrow> 'b option" where
  "bindO \<equiv> Option.bind"

definition parse_date :: "char \<Rightarrow> string \<Rightarrow> (date \<times> string) option" where
  "parse_date sep s =
     bindO (number 4 4 0 9999 s) (\<lambda>(y, s). bindO (literal sep s) (\<lambda>s.
     bindO (number 1 2 1 12 s) (\<lambda>(m, s). bindO (literal sep s) (\<lambda>s.
     bindO (day_number s) (\<lambda>(d, s). Some ((y, m, d), s))))))"

definition parse_clock :: "string \<Rightarrow> (int \<times> string) option" where
  "parse_clock s =
     bindO (number 1 2 0 23 s) (\<lambda>(h, s). bindO (literal CHR '':'' s) (\<lambda>s.
     bindO (number 1 2 0 59 s) (\<lambda>(m, s). Some (h * 3600 + m * 60, s))))"

definition parse_clock_seconds :: "string \<Rightarrow> (int \<times> string) option" where
  "parse_clock_seconds s =
     bindO (parse_clock s) (\<lambda>(t, s). bindO (literal CHR '':'' s) (\<lambda>s.
     bindO (number 1 2 0 59 s) (\<lambda>(x, s). Some (t + x, s))))"

text \<open>\<open>%z\<close>: a sign, two digits of hours and two of minutes, perhaps seconds and a fraction; the colons
  are all there or all missing.\<close>

definition pair_number :: "nat \<Rightarrow> string \<Rightarrow> (int \<times> string) option" where
  "pair_number hi s =
     (if 2 \<le> length s \<and> list_all is_digit (take 2 s) \<and> digits_val (take 2 s) \<le> hi
      then Some (int (digits_val (take 2 s)), drop 2 s) else None)"

definition zone_seconds :: "bool \<Rightarrow> string \<Rightarrow> int option" where
  "zone_seconds colon s =
     (if s = [] then Some 0
      else bindO (if colon then literal CHR '':'' s else Some s) (\<lambda>s.
        bindO (pair_number 59 s) (\<lambda>(x, s).
          if s = [] then Some x
          else bindO (literal CHR ''.'' s) (\<lambda>s. bindO (number 1 6 0 999999 s) (\<lambda>(_, s).
            if s = [] then Some x else None)))))"

definition parse_zone :: "string \<Rightarrow> int option" where
  "parse_zone s =
     (case s of
        [] \<Rightarrow> None
      | c # s \<Rightarrow>
          if c \<noteq> CHR ''+'' \<and> c \<noteq> CHR ''-'' then None
          else bindO (pair_number 99 s) (\<lambda>(h, s).
            let colon = (s \<noteq> [] \<and> hd s = CHR '':'') in
            bindO (pair_number 59 (if colon then tl s else s)) (\<lambda>(m, s).
            bindO (zone_seconds colon s) (\<lambda>x.
              let off = h * 3600 + m * 60 + x in
              if off < 86400 then Some (if c = CHR ''-'' then - off else off) else None))))"

subsection \<open>The formats\<close>

text \<open>\<open>%Y/%m/%d %H:%M\<close>: white space in the format is any amount of white space, at least one.\<close>

definition slash_format :: "string \<Rightarrow> date option" where
  "slash_format s =
     bindO (parse_date CHR ''/'' s) (\<lambda>(dt, s).
     bindO (case s of [] \<Rightarrow> None | c # t \<Rightarrow> if is_space c then Some (py_lstrip t) else None) (\<lambda>s.
     bindO (parse_clock s) (\<lambda>(_, s). if s = [] \<and> date_ok dt then Some dt else None)))"

text \<open>\<open>%Y-%m-%dT%H:%M:%S\<close> with \<open>.%f\<close> or without, before \<open>%z\<close>: the local date and the time as seconds
  since midnight in UTC, which may leave the day.\<close>

definition zoned_format :: "bool \<Rightarrow> string \<Rightarrow> (date \<times> int) option" where
  "zoned_format fraction s =
     bindO (parse_date CHR ''-'' s) (\<lambda>(dt, s). bindO (literal CHR ''T'' s) (\<lambda>s.
     bindO (parse_clock_seconds s) (\<lambda>(t, s).
     bindO (if fraction then bindO (literal CHR ''.'' s) (\<lambda>s. map_option snd (number 1 6 0 999999 s)) else Some s) (\<lambda>s.
     bindO (parse_zone s) (\<lambda>off. if date_ok dt then Some (dt, t - off) else None)))))"

text \<open>\<open>astimezone(utc)\<close>, which overflows outside the years 1 to 9999.\<close>

definition to_utc :: "date \<times> int \<Rightarrow> date raises" where
  "to_utc x = (case x of (dt, t) \<Rightarrow>
     let r = (if t < 0 then prev_day dt else if 86400 \<le> t then next_day dt else dt)
     in if date_ok r then Inr r else Inl OverflowError)"

definition plain_format :: "string \<Rightarrow> date option" where
  "plain_format s =
     bindO (parse_date CHR ''-'' s) (\<lambda>(dt, s). bindO (literal CHR ''T'' s) (\<lambda>s.
     bindO (parse_clock_seconds s) (\<lambda>(_, s). if s = [] \<and> date_ok dt then Some dt else None)))"

definition day_format :: "string \<Rightarrow> date option" where
  "day_format s = bindO (parse_date CHR ''-'' s) (\<lambda>(dt, s). if s = [] \<and> date_ok dt then Some dt else None)"

subsection \<open>The calendar is one\<close>

lemma next_day_ok: "date_ok (y, m, d) \<Longrightarrow> (y, m, d) \<noteq> (9999, 12, 31) \<Longrightarrow> date_ok (next_day (y, m, d))"
  by (auto simp: date_ok_def next_day_def month_days_def split: if_split_asm)

lemma prev_next: "date_ok (y, m, d) \<Longrightarrow> prev_day (next_day (y, m, d)) = (y, m, d)"
  by (auto simp: date_ok_def next_day_def prev_day_def month_days_def split: if_split_asm)

end
