(* ===== verification/Prompts.thy ===== *)
theory Prompts
  imports Prompt_Texts Calendar Longmemeval "HOL-Library.Char_ord" "HOL-Library.List_Lexorder"
begin

section \<open>Prompts, answers and verdicts (\<open>bench/prompts.py\<close>)\<close>

text \<open>
  Filling the templates, formatting the memories of the Mem0 protocol, and reading the model's answer and
  the judge's verdict out of a reply. SHA-256 is an argument.
  Facts: \<open>judge_prompts\<close> (which prompt a question gets, filled verbatim), \<open>mem0_prompts\<close> (the long
  templates can be filled with any text), \<open>thinking_removed\<close> and \<open>verdict_after_thinking\<close> (what the judge
  sees of an answer and what counts of a verdict).
  Not modelled: letters outside ASCII as word characters.
\<close>

subsection \<open>str.format\<close>

text \<open>The forms of a field that occur: \<open>{}\<close>, numbered from 0, and \<open>{name}\<close>.\<close>

definition field_value :: "string list \<Rightarrow> string dict \<Rightarrow> nat \<Rightarrow> string \<Rightarrow> string raises" where
  "field_value args kw i name =
     (if name = [] then (if i < length args then Inr (args ! i) else Inl IndexError)
      else (case dget kw name of Some v \<Rightarrow> Inr v | None \<Rightarrow> Inl KeyError))"

function py_format :: "string list \<Rightarrow> string dict \<Rightarrow> nat \<Rightarrow> string \<Rightarrow> string raises" where
  "py_format args kw i s =
     (case s of
        [] \<Rightarrow> Inr []
      | c # r \<Rightarrow>
          if c = CHR ''{'' then
            (case r of
               [] \<Rightarrow> Inl (ValueError ''Single '{' encountered in format string'')
             | d # r1 \<Rightarrow>
                 if d = CHR ''{'' then bindE (py_format args kw i r1) (\<lambda>t. Inr (CHR ''{'' # t))
                 else
                   let name = takeWhile (\<lambda>x. x \<noteq> CHR ''}'') r; rest = dropWhile (\<lambda>x. x \<noteq> CHR ''}'') r in
                   if rest = [] then Inl (ValueError ''expected '}' before end of string'')
                   else bindE (field_value args kw i name) (\<lambda>v.
                     bindE (py_format args kw (if name = [] then Suc i else i) (tl rest)) (\<lambda>t. Inr (v @ t))))
          else if c = CHR ''}'' then
            (case r of
               d # r1 \<Rightarrow> if d = CHR ''}'' then bindE (py_format args kw i r1) (\<lambda>t. Inr (CHR ''}'' # t))
                 else Inl (ValueError ''Single '}' encountered in format string'')
             | [] \<Rightarrow> Inl (ValueError ''Single '}' encountered in format string''))
          else bindE (py_format args kw i r) (\<lambda>t. Inr (c # t)))"
  by pat_completeness auto
termination
proof (relation "measure (\<lambda>(_, _, _, s). length s)", goal_cases)
  case (3 args kw i s c r d r1 name rest v)
  have "length rest \<le> length r" unfolding 3 by (rule length_dropWhile_le)
  then show ?case using 3 by auto
qed auto

declare py_format.simps [simp del]

definition fill :: "string \<Rightarrow> string list \<Rightarrow> string raises" where
  "fill template args = py_format args [] 0 template"

subsection \<open>The official protocol\<close>

definition judge_prompt :: "string \<Rightarrow> string \<Rightarrow> string \<Rightarrow> string \<Rightarrow> bool \<Rightarrow> string raises" where
  "judge_prompt task question answer resp abstention =
     (if abstention then fill JUDGE_ABSTENTION [question, answer, resp]
      else if task \<in> {''single-session-user'', ''single-session-assistant'', ''multi-session''}
        then fill JUDGE_DEFAULT [question, answer, resp]
      else if task = ''temporal-reasoning'' then fill JUDGE_TEMPORAL [question, answer, resp]
      else if task = ''knowledge-update'' then fill JUDGE_KNOWLEDGE_UPDATE [question, answer, resp]
      else if task = ''single-session-preference'' then fill JUDGE_PREFERENCE [question, answer, resp]
      else Inl (NotImplementedError task))"

definition judge_label :: "string \<Rightarrow> bool" where
  "judge_label response_text \<longleftrightarrow> contains ''yes'' (py_lower (py_strip response_text))"

definition READER_TEMPLATES :: "string dict" where
  "READER_TEMPLATES =
     [(''longmemeval_facts'', READER_FACTS), (''longmemeval_sessions'', READER_SESSIONS),
      (''mem0_v3'', MEM0_ANSWER_PROMPT)]"

definition JUDGE_STYLES :: "string list" where
  "JUDGE_STYLES = [''longmemeval_official'', ''mem0_unified'']"

definition reader_prompt :: "string \<Rightarrow> string \<Rightarrow> string \<Rightarrow> string \<Rightarrow> string raises" where
  "reader_prompt template_name context question_date question =
     (case dget READER_TEMPLATES template_name of
        None \<Rightarrow> Inl KeyError
      | Some template \<Rightarrow> fill template [context, question_date, question])"

definition official_hashes :: "(string \<Rightarrow> string) \<Rightarrow> string dict" where
  "official_hashes sha =
     [(''reader_longmemeval_facts'', sha READER_FACTS), (''reader_longmemeval_sessions'', sha READER_SESSIONS),
      (''judge_default'', sha JUDGE_DEFAULT), (''judge_temporal'', sha JUDGE_TEMPORAL),
      (''judge_knowledge_update'', sha JUDGE_KNOWLEDGE_UPDATE), (''judge_preference'', sha JUDGE_PREFERENCE),
      (''judge_abstention'', sha JUDGE_ABSTENTION)]"

definition prompt_hashes :: "(string \<Rightarrow> string) \<Rightarrow> string dict" where
  "prompt_hashes sha =
     dset ''judge_mem0_unified'' (sha MEM0_JUDGE_PROMPT)
       (dset ''reader_mem0_v3'' (sha MEM0_ANSWER_PROMPT) (official_hashes sha))"

subsection \<open>Mem0's protocol: the prompt\<close>

text \<open>\<open>re.sub(r"\s*\([A-Za-z]+\)\s*", " ", s)\<close>.\<close>

definition is_letter :: "char \<Rightarrow> bool" where
  "is_letter c \<longleftrightarrow> (65 \<le> code c \<and> code c \<le> 90) \<or> (97 \<le> code c \<and> code c \<le> 122)"

definition paren_word :: "string \<Rightarrow> string option" where
  "paren_word s =
     (case py_lstrip s of
        c # r \<Rightarrow>
          let w = takeWhile is_letter r; rest = dropWhile is_letter r in
          if c = CHR ''('' \<and> w \<noteq> [] \<and> rest \<noteq> [] \<and> hd rest = CHR '')'' then Some (py_lstrip (tl rest)) else None
      | [] \<Rightarrow> None)"

lemma paren_word_shorter: "paren_word s = Some r \<Longrightarrow> length r < length s"
proof -
  assume p: "paren_word s = Some r"
  obtain c u where l: "py_lstrip s = c # u" using p by (auto simp: paren_word_def split: list.splits)
  have r: "r = py_lstrip (tl (dropWhile is_letter u))" using p l by (auto simp: paren_word_def Let_def split: if_split_asm)
  have "length r \<le> length (tl (dropWhile is_letter u))" unfolding r py_lstrip_def by (rule length_dropWhile_le)
  also have "\<dots> \<le> length u" using length_dropWhile_le [of is_letter u] by simp
  also have "\<dots> < length (py_lstrip s)" using l by simp
  also have "\<dots> \<le> length s" unfolding py_lstrip_def by (rule length_dropWhile_le)
  finally show ?thesis .
qed

function drop_weekday :: "string \<Rightarrow> string" where
  "drop_weekday s =
     (case paren_word s of
        Some r \<Rightarrow> '' '' @ drop_weekday r
      | None \<Rightarrow> (case s of [] \<Rightarrow> [] | c # t \<Rightarrow> c # drop_weekday t))"
  by pat_completeness auto
termination by (relation "measure length") (auto simp: paren_word_shorter)

declare drop_weekday.simps [simp del]

definition mem0_human_date :: "string \<Rightarrow> string" where
  "mem0_human_date date_str =
     (case slash_format (py_strip (drop_weekday date_str)) of Some dt \<Rightarrow> long_date dt | None \<Rightarrow> date_str)"

text \<open>\<open>s.replace("Z", "+0000")\<close>.\<close>

definition numeric_zone :: "string \<Rightarrow> string" where
  "numeric_zone s = concat (map (\<lambda>c. if c = CHR ''Z'' then ''+0000'' else [c]) s)"

definition mem0_iso_to_human :: "string \<Rightarrow> string raises" where
  "mem0_iso_to_human stamp =
     (case zoned_format False (numeric_zone stamp) of
        Some x \<Rightarrow> bindE (to_utc x) (\<lambda>dt. Inr (long_date dt))
      | None \<Rightarrow> (case zoned_format True (numeric_zone stamp) of
          Some x \<Rightarrow> bindE (to_utc x) (\<lambda>dt. Inr (long_date dt))
        | None \<Rightarrow> (case plain_format (py_take 19 stamp) of
            Some dt \<Rightarrow> Inr (long_date dt)
          | None \<Rightarrow> (case day_format (py_take 19 stamp) of
              Some dt \<Rightarrow> Inr (long_date dt)
            | None \<Rightarrow> Inr (py_take 10 stamp)))))"

text \<open>The loop over the hits, with the current date heading.\<close>

fun memory_lines :: "(string \<times> string option) list \<Rightarrow> string option \<Rightarrow> string list raises" where
  "memory_lines [] current = Inr []"
| "memory_lines ((text, created) # hits) current =
     (if nonempty created then
        bindE (mem0_iso_to_human (the created)) (\<lambda>d.
        bindE (memory_lines hits (Some d)) (\<lambda>ls.
          Inr ((if Some d \<noteq> current then [newline @ ''--- '' @ d @ '' ---''] else []) @ (''- '' @ text) # ls)))
      else bindE (memory_lines hits current) (\<lambda>ls. Inr ((''- '' @ text) # ls)))"

definition mem0_format_memories :: "(string \<times> string option) list \<Rightarrow> string raises" where
  "mem0_format_memories hits =
     (if hits = [] then Inr ''(No relevant memories found)''
      else bindE (memory_lines hits None) (\<lambda>ls. Inr (py_strip (py_join newline ls))))"

definition mem0_reader_prompt :: "string \<Rightarrow> string \<Rightarrow> string \<Rightarrow> string raises" where
  "mem0_reader_prompt memories_block question_date_human question =
     py_format [] [(''memories'', memories_block), (''question_date'', question_date_human), (''question'', question)] 0
       MEM0_ANSWER_PROMPT"

definition mem0_judge_prompt :: "string \<Rightarrow> string \<Rightarrow> string \<Rightarrow> string raises" where
  "mem0_judge_prompt question answer resp =
     py_format [] [(''question'', question), (''answer'', answer), (''response'', resp)] 0 MEM0_JUDGE_PROMPT"

subsection \<open>Mem0's protocol: reading the replies\<close>

text \<open>\<open>[<\[]name[>\]]\<close> at the start of the text: what follows it.\<close>

definition after_tag :: "string \<Rightarrow> string \<Rightarrow> string option" where
  "after_tag name s =
     (case s of
        [] \<Rightarrow> None
      | c # r \<Rightarrow>
          if (c = CHR ''<'' \<or> c = CHR ''['') \<and> starts_with name r \<and> drop (length name) r \<noteq> [] \<and>
             (hd (drop (length name) r) = CHR ''>'' \<or> hd (drop (length name) r) = CHR '']'')
          then Some (tl (drop (length name) r)) else None)"

fun after_first_tag :: "string \<Rightarrow> string \<Rightarrow> string option" where
  "after_first_tag name [] = None"
| "after_first_tag name (c # s) =
     (case after_tag name (c # s) of Some r \<Rightarrow> Some r | None \<Rightarrow> after_first_tag name s)"

lemma after_tag_shorter: "after_tag name s = Some r \<Longrightarrow> length r < length s"
  by (auto simp: after_tag_def split: list.splits if_split_asm)

lemma after_first_tag_shorter: "after_first_tag name s = Some r \<Longrightarrow> length r < length s"
  by (induction name s rule: after_first_tag.induct)
     (auto simp: less_SucI split: option.splits dest!: after_tag_shorter)

text \<open>\<open>re.sub(open + ".*?" + close, "", s, flags=DOTALL)\<close>: the block that starts at the head, if any.\<close>

definition block_end :: "string \<Rightarrow> string option" where
  "block_end s = Option.bind (after_tag ''mem_thinking'' s) (after_first_tag ''/mem_thinking'')"

function drop_thinking :: "string \<Rightarrow> string" where
  "drop_thinking s =
     (case block_end s of
        Some r \<Rightarrow> drop_thinking r
      | None \<Rightarrow> (case s of [] \<Rightarrow> [] | c # t \<Rightarrow> c # drop_thinking t))"
  by pat_completeness auto
termination
  by (relation "measure length")
     (auto simp: block_end_def bind_eq_Some_conv dest!: after_tag_shorter after_first_tag_shorter)

declare drop_thinking.simps [simp del]

text \<open>\<open>s.rsplit(sep, 1)[-1]\<close>: what follows the last occurrence.\<close>

fun after_last :: "string \<Rightarrow> string \<Rightarrow> string option" where
  "after_last sep [] = None"
| "after_last sep (c # s) =
     (case after_last sep s of
        Some r \<Rightarrow> Some r
      | None \<Rightarrow> if starts_with sep (c # s) then Some (drop (length sep) (c # s)) else None)"

definition mem0_strip_answer :: "string \<Rightarrow> string" where
  "mem0_strip_answer generated =
     (let out = py_strip (drop_thinking generated) in
      case after_last ''ANSWER:'' out of Some r \<Rightarrow> py_strip r | None \<Rightarrow> out)"

text \<open>The last piece of \<open>re.split\<close> at the closing tags of either kind, in any case.\<close>

definition closing_tag :: "string \<Rightarrow> string option" where
  "closing_tag s =
     (if starts_with ''</judge_thinking>'' (py_lower s) then Some (drop (length ''</judge_thinking>'') s)
      else if starts_with ''</thinking>'' (py_lower s) then Some (drop (length ''</thinking>'') s)
      else None)"

fun last_closing :: "string \<Rightarrow> string option" where
  "last_closing [] = None"
| "last_closing (c # s) =
     (case last_closing s of Some r \<Rightarrow> Some r | None \<Rightarrow> closing_tag (c # s))"

definition verdict_region :: "string \<Rightarrow> string" where
  "verdict_region text = py_strip (case last_closing text of Some r \<Rightarrow> r | None \<Rightarrow> text)"

definition verdict_lines :: "string \<Rightarrow> string list" where
  "verdict_lines region = filter (\<lambda>l. l \<noteq> []) (map (\<lambda>l. py_lower (py_strip l)) (py_splitlines region))"

definition is_word :: "char \<Rightarrow> bool" where
  "is_word c \<longleftrightarrow> is_letter c \<or> is_digit c \<or> c = CHR ''_''"

text \<open>\<open>re.findall(r"\b(yes|no)\b", s)\<close>; \<open>prev\<close> says whether the character before is a word character.\<close>

definition word_here :: "string \<Rightarrow> string \<Rightarrow> bool" where
  "word_here w s \<longleftrightarrow> starts_with w s \<and> (drop (length w) s = [] \<or> \<not> is_word (hd (drop (length w) s)))"

fun yes_no_words :: "bool \<Rightarrow> string \<Rightarrow> string list" where
  "yes_no_words prev [] = []"
| "yes_no_words prev (c # s) =
     (if \<not> prev \<and> word_here ''yes'' (c # s) then ''yes'' # yes_no_words True s
      else if \<not> prev \<and> word_here ''no'' (c # s) then ''no'' # yes_no_words True s
      else yes_no_words (is_word c) s)"

definition mem0_judge_label :: "string \<Rightarrow> bool" where
  "mem0_judge_label raw =
     (let text = py_strip raw in
      if text = [] then False
      else
        let region = verdict_region text in
        case filter (\<lambda>l. l = ''yes'' \<or> l = ''no'') (rev (verdict_lines region)) of
          l # _ \<Rightarrow> l = ''yes''
        | [] \<Rightarrow> (case rev (yes_no_words False (py_lower region)) of
            w # _ \<Rightarrow> w = ''yes''
          | [] \<Rightarrow> starts_with ''yes'' (py_lower text)))"

subsection \<open>Filling a template\<close>

definition brace_free :: "string \<Rightarrow> bool" where
  "brace_free s \<longleftrightarrow> list_all (\<lambda>c. c \<noteq> CHR ''{'' \<and> c \<noteq> CHR ''}'') s"

lemma brace_free_append: "brace_free (a @ b) \<longleftrightarrow> brace_free a \<and> brace_free b"
  by (simp add: brace_free_def)

lemma brace_free_Cons: "brace_free (c # b) \<longleftrightarrow> c \<noteq> CHR ''{'' \<and> c \<noteq> CHR ''}'' \<and> brace_free b"
  by (simp add: brace_free_def)

lemma brace_free_Nil: "brace_free []"
  by (simp add: brace_free_def)

lemmas brace_free_simps = brace_free_append brace_free_Cons brace_free_Nil newline_def char.inject simp_thms

text \<open>Texts and the fields between them; \<open>interleave\<close> puts values in the places of the fields.\<close>

fun interleave :: "string list \<Rightarrow> string list \<Rightarrow> string" where
  "interleave (t # ts) (v # vs) = t @ v @ interleave ts vs"
| "interleave ts vs = concat ts"

definition woven :: "string \<Rightarrow> string list \<Rightarrow> string list \<Rightarrow> bool" where
  "woven s ts fs \<longleftrightarrow> length ts = Suc (length fs) \<and> list_all brace_free ts \<and> list_all brace_free fs \<and>
     s = interleave ts (map (\<lambda>f. ''{'' @ f @ ''}'') fs)"

lemma woven_plain: "brace_free s \<Longrightarrow> woven s [s] []"
  by (simp add: woven_def)

lemma woven_text: "brace_free a \<Longrightarrow> woven s (t # ts) fs \<Longrightarrow> woven (a @ s) ((a @ t) # ts) fs"
  by (cases fs) (simp_all add: woven_def brace_free_append)

lemma woven_field: "brace_free f \<Longrightarrow> woven s ts fs \<Longrightarrow> woven (''{'' @ f @ ''}'' @ s) ([] # ts) (f # fs)"
  by (simp add: woven_def brace_free_Nil)

lemma py_format_Nil: "py_format args kw i [] = Inr []"
  by (simp add: py_format.simps [of args kw i "[]"])

lemma py_format_text: "brace_free a \<Longrightarrow> py_format args kw i (a @ s) = bindE (py_format args kw i s) (\<lambda>t. Inr (a @ t))"
proof (induction a)
  case Nil
  then show ?case by (simp add: bindE_def split: sum.splits)
next
  case (Cons c a)
  have "py_format args kw i ((c # a) @ s) = bindE (py_format args kw i (a @ s)) (\<lambda>t. Inr (c # t))"
    using Cons(2) by (subst py_format.simps) (simp add: brace_free_Cons)
  then show ?case using Cons by (simp add: brace_free_Cons bindE_def split: sum.splits)
qed

lemma py_format_field:
  assumes "brace_free f"
  shows "py_format args kw i (''{'' @ f @ ''}'' @ s) = bindE (field_value args kw i f) (\<lambda>v.
    bindE (py_format args kw (if f = [] then Suc i else i) s) (\<lambda>t. Inr (v @ t)))"
proof -
  have n: "CHR ''}'' \<notin> set f" "CHR ''{'' \<notin> set f" using assms by (auto simp: brace_free_def list_all_iff)
  have "takeWhile (\<lambda>x. x \<noteq> CHR ''}'') (f @ ''}'' @ s) = f" "dropWhile (\<lambda>x. x \<noteq> CHR ''}'') (f @ ''}'' @ s) = CHR ''}'' # s"
    using n(1) by (induction f) auto
  moreover obtain d r where "f @ ''}'' @ s = d # r" "d \<noteq> CHR ''{''" using n(2) by (cases f) auto
  ultimately show ?thesis by (subst py_format.simps) (simp add: Let_def)
qed

fun field_values :: "string list \<Rightarrow> string dict \<Rightarrow> nat \<Rightarrow> string list \<Rightarrow> string list raises" where
  "field_values args kw i [] = Inr []"
| "field_values args kw i (f # fs) =
     bindE (field_value args kw i f) (\<lambda>v.
     bindE (field_values args kw (if f = [] then Suc i else i) fs) (\<lambda>vs. Inr (v # vs)))"

lemma py_format_woven:
  "length ts = Suc (length fs) \<Longrightarrow> list_all brace_free ts \<Longrightarrow> list_all brace_free fs \<Longrightarrow>
   py_format args kw i (interleave ts (map (\<lambda>f. ''{'' @ f @ ''}'') fs)) =
     bindE (field_values args kw i fs) (\<lambda>vs. Inr (interleave ts vs))"
proof (induction fs arbitrary: ts i)
  case Nil
  then obtain t where "ts = [t]" by (cases ts) auto
  then show ?case using Nil py_format_text [of t args kw i "[]"] by (simp add: py_format_Nil)
next
  case (Cons f fs)
  then obtain t ts' where ts: "ts = t # ts'" by (cases ts) auto
  let ?r = "interleave ts' (map (\<lambda>f. ''{'' @ f @ ''}'') fs)"
  have ih: "py_format args kw j ?r = bindE (field_values args kw j fs) (\<lambda>vs. Inr (interleave ts' vs))" for j
    using Cons ts by simp
  have "py_format args kw i (interleave ts (map (\<lambda>f. ''{'' @ f @ ''}'') (f # fs)))
      = py_format args kw i (t @ ''{'' @ f @ ''}'' @ ?r)" by (simp add: ts)
  also have "\<dots> = bindE (bindE (field_value args kw i f) (\<lambda>v.
      bindE (py_format args kw (if f = [] then Suc i else i) ?r) (\<lambda>u. Inr (v @ u)))) (\<lambda>u. Inr (t @ u))"
    using Cons(3,4) by (simp only: ts py_format_text py_format_field list.pred_inject)
  also have "\<dots> = bindE (field_values args kw i (f # fs)) (\<lambda>vs. Inr (interleave ts vs))"
    unfolding ih by (simp add: ts bindE_def split: sum.splits)
  finally show ?case .
qed

lemma woven_fill:
  "woven s ts fs \<Longrightarrow> py_format args kw i s = bindE (field_values args kw i fs) (\<lambda>vs. Inr (interleave ts vs))"
  using py_format_woven unfolding woven_def by blast

lemma woven_0: "woven s ts fs \<Longrightarrow> woven (''{}'' @ s) ([] # ts) ([] # fs)"
  using woven_field [of "[]" s ts fs] by (simp add: brace_free_Nil)

lemma woven_names:
  "woven s ts fs \<Longrightarrow> woven (''{memories}'' @ s) ([] # ts) (''memories'' # fs)"
  "woven s ts fs \<Longrightarrow> woven (''{question_date}'' @ s) ([] # ts) (''question_date'' # fs)"
  "woven s ts fs \<Longrightarrow> woven (''{question}'' @ s) ([] # ts) (''question'' # fs)"
  "woven s ts fs \<Longrightarrow> woven (''{answer}'' @ s) ([] # ts) (''answer'' # fs)"
  "woven s ts fs \<Longrightarrow> woven (''{response}'' @ s) ([] # ts) (''response'' # fs)"
  using woven_field [of "''memories''" s ts fs] woven_field [of "''question_date''" s ts fs]
    woven_field [of "''question''" s ts fs] woven_field [of "''answer''" s ts fs] woven_field [of "''response''" s ts fs]
  by (simp_all add: brace_free_def)

lemma woven_judges:
  "\<exists>ts. woven JUDGE_DEFAULT ts [[], [], []]" "\<exists>ts. woven JUDGE_TEMPORAL ts [[], [], []]"
  "\<exists>ts. woven JUDGE_KNOWLEDGE_UPDATE ts [[], [], []]" "\<exists>ts. woven JUDGE_PREFERENCE ts [[], [], []]"
  "\<exists>ts. woven JUDGE_ABSTENTION ts [[], [], []]"
  unfolding JUDGE_DEFAULT_def JUDGE_TEMPORAL_def JUDGE_KNOWLEDGE_UPDATE_def JUDGE_PREFERENCE_def JUDGE_ABSTENTION_def
  by (rule exI, ((rule woven_0 | rule woven_text [rotated] | rule woven_plain)+, (simp only: brace_free_simps)+)[1])+

lemma woven_readers:
  "\<exists>ts. woven READER_FACTS ts [[], [], []]" "\<exists>ts. woven READER_SESSIONS ts [[], [], []]"
  unfolding READER_FACTS_def READER_SESSIONS_def
  by (rule exI, ((rule woven_0 | rule woven_text [rotated] | rule woven_plain)+, (simp only: brace_free_simps)+)[1])+

lemma woven_mem0_judge: "\<exists>ts. woven MEM0_JUDGE_PROMPT ts [''question'', ''answer'', ''response'']"
  unfolding MEM0_JUDGE_PROMPT_def py_join.simps(2,3) append_assoc
  by (rule exI, ((rule woven_names | rule woven_text [rotated] | rule woven_plain)+, (simp only: brace_free_simps)+)[1])

lemma woven_mem0_reader:
  "\<exists>ts. woven MEM0_ANSWER_PROMPT ts
     [''question_date'', ''question_date'', ''question_date'', ''memories'', ''question_date'', ''question'']"
  unfolding MEM0_ANSWER_PROMPT_def py_join.simps(2,3) append_assoc
  by (rule exI, ((rule woven_names | rule woven_text [rotated] | rule woven_plain)+, (simp only: brace_free_simps)+)[1])

definition official_template :: "string \<Rightarrow> bool \<Rightarrow> string option" where
  "official_template task abstention =
     (if abstention then Some JUDGE_ABSTENTION
      else if task \<in> {''single-session-user'', ''single-session-assistant'', ''multi-session''} then Some JUDGE_DEFAULT
      else if task = ''temporal-reasoning'' then Some JUDGE_TEMPORAL
      else if task = ''knowledge-update'' then Some JUDGE_KNOWLEDGE_UPDATE
      else if task = ''single-session-preference'' then Some JUDGE_PREFERENCE else None)"

lemma judge_prompt_template:
  "judge_prompt task q a r abstention =
     (case official_template task abstention of None \<Rightarrow> Inl (NotImplementedError task) | Some t \<Rightarrow> fill t [q, a, r])"
  by (simp add: judge_prompt_def official_template_def)

lemma official_woven: "official_template task abstention = Some t \<Longrightarrow> \<exists>ts. woven t ts [[], [], []]"
  using woven_judges by (auto simp: official_template_def split: if_split_asm)

lemma fill_woven: "woven t ts [[], [], []] \<Longrightarrow> fill t [x, y, z] = Inr (interleave ts [x, y, z])"
  by (simp add: fill_def woven_fill field_value_def bindE_def)

lemma official_types: "official_template task abstention = None \<longleftrightarrow> \<not> abstention \<and> task \<notin> set QUESTION_TYPES"
  by (auto simp: official_template_def QUESTION_TYPES_def)

lemma length_4: "length ts = 4 \<Longrightarrow> \<exists>a b c d. ts = [a, b, c, d]"
  by (auto simp: length_Suc_conv numeral_eq_Suc)

subsection \<open>Properties\<close>

lemma judge_prompt_shape:
  "if abstention \<or> task \<in> set QUESTION_TYPES
   then \<exists>a b c d. \<forall>question answer resp.
     judge_prompt task question answer resp abstention = Inr (a @ question @ b @ answer @ c @ resp @ d)
   else \<forall>question answer resp. judge_prompt task question answer resp abstention = Inl (NotImplementedError task)"
proof (cases "official_template task abstention")
  case None
  have "judge_prompt task x y z abstention = Inl (NotImplementedError task)" for x y z
    by (simp add: judge_prompt_template None)
  moreover have "\<not> (abstention \<or> task \<in> set QUESTION_TYPES)" using None official_types by force
  ultimately show ?thesis by simp
next
  case (Some t)
  then obtain ts where w: "woven t ts [[], [], []]" using official_woven by blast
  have "length ts = 4" using w by (simp add: woven_def)
  then obtain a b c d where "ts = [a, b, c, d]" using length_4 by blast
  then have "judge_prompt task x y z abstention = Inr (a @ x @ b @ y @ c @ z @ d)" for x y z
    using fill_woven [OF w] by (simp add: judge_prompt_template Some)
  moreover have "abstention \<or> task \<in> set QUESTION_TYPES" using Some official_types [of task abstention] by simp
  ultimately show ?thesis by (simp only: if_True) blast
qed

lemma mem0_judge_shape:
  "\<exists>a b c d. \<forall>question answer resp.
      mem0_judge_prompt question answer resp = Inr (a @ question @ b @ answer @ c @ resp @ d)"
proof -
  obtain ts where w: "woven MEM0_JUDGE_PROMPT ts [''question'', ''answer'', ''response'']"
    using woven_mem0_judge by blast
  have "length ts = 4" using w by (simp add: woven_def)
  then obtain a b c d where ts: "ts = [a, b, c, d]" using length_4 by blast
  have "mem0_judge_prompt x y z = Inr (a @ x @ b @ y @ c @ z @ d)" for x y z
    unfolding mem0_judge_prompt_def woven_fill [OF w] by (simp add: field_value_def bindE_def ts)
  then show "\<exists>a b c d. \<forall>question answer resp.
      mem0_judge_prompt question answer resp = Inr (a @ question @ b @ answer @ c @ resp @ d)" by blast
qed

text \<open>Every question type of the dataset has a judge prompt, and so has every unanswerable question; the
  question, the gold answer and the reply stand in it verbatim, in this order, whatever characters they
  contain; any other type raises \<open>NotImplementedError\<close>.\<close>

theorem judge_prompts:
  "if abstention \<or> task \<in> set QUESTION_TYPES
   then \<exists>a b c d. \<forall>question answer resp.
     judge_prompt task question answer resp abstention = Inr (a @ question @ b @ answer @ c @ resp @ d)
   else \<forall>question answer resp. judge_prompt task question answer resp abstention = Inl (NotImplementedError task)"
  by (rule judge_prompt_shape)

text \<open>C32: The long Mem0 templates have no stray brace: they can be filled with any text, the memories and the
  question stand in the reader's prompt once and the date four times, verbatim, and the judge's prompt holds
  question, gold answer and reply once each. Filling the Mem0 template by position, as the official reader
  templates are filled, raises \<open>KeyError\<close>.\<close>

theorem mem0_prompts:
  "(\<exists>a b c d e f g. \<forall>memories date question.
      mem0_reader_prompt memories date question =
        Inr (a @ date @ b @ date @ c @ date @ d @ memories @ e @ date @ f @ question @ g)) \<and>
   (\<exists>a b c d. \<forall>question answer resp.
      mem0_judge_prompt question answer resp = Inr (a @ question @ b @ answer @ c @ resp @ d)) \<and>
   (\<forall>context date question. reader_prompt ''mem0_v3'' context date question = Inl KeyError)"
proof (intro conjI)
  obtain ts where w: "woven MEM0_ANSWER_PROMPT ts
     [''question_date'', ''question_date'', ''question_date'', ''memories'', ''question_date'', ''question'']"
    using woven_mem0_reader by blast
  have "length ts = 7" using w by (simp add: woven_def)
  then obtain a b c d e f g where ts: "ts = [a, b, c, d, e, f, g]" by (auto simp: length_Suc_conv numeral_eq_Suc)
  have "mem0_reader_prompt x y z = Inr (a @ y @ b @ y @ c @ y @ d @ x @ e @ y @ f @ z @ g)" for x y z
    unfolding mem0_reader_prompt_def woven_fill [OF w] by (simp add: field_value_def bindE_def ts)
  then show "\<exists>a b c d e f g. \<forall>memories date question.
      mem0_reader_prompt memories date question =
        Inr (a @ date @ b @ date @ c @ date @ d @ memories @ e @ date @ f @ question @ g)" by blast
  have "reader_prompt ''mem0_v3'' x y z = Inl KeyError" for x y z
    by (simp add: reader_prompt_def READER_TEMPLATES_def fill_def woven_fill [OF w] field_value_def bindE_def)
  then show "\<forall>context date question. reader_prompt ''mem0_v3'' context date question = Inl KeyError" by blast
next
  show "\<exists>a b c d. \<forall>question answer resp.
      mem0_judge_prompt question answer resp = Inr (a @ question @ b @ answer @ c @ resp @ d)"
    by (rule mem0_judge_shape)
qed

lemma prefix_stop: "prefix p (u @ x # w) \<Longrightarrow> x \<notin> set p \<Longrightarrow> prefix p u"
  by (auto simp: prefix_append prefix_Cons)

lemma drop_thinking_step: "block_end (c # s) = None \<Longrightarrow> drop_thinking (c # s) = c # drop_thinking s"
  by (simp add: drop_thinking.simps [of "c # s"])

lemma drop_thinking_text:
  "(\<forall>c \<in> set a. c \<noteq> CHR ''<'' \<and> c \<noteq> CHR ''['') \<Longrightarrow> drop_thinking (a @ s) = a @ drop_thinking s"
  by (induction a) (simp_all add: drop_thinking_step block_end_def after_tag_def)

lemma close_found:
  "\<not> contains ''/mem_thinking'' t \<Longrightarrow>
   after_first_tag ''/mem_thinking'' (t @ ''</mem_thinking>'' @ s) = Some s"
proof (induction t)
  case Nil
  then show ?case by (simp add: after_tag_def starts_with_def)
next
  case (Cons c t)
  have n: "\<not> contains ''/mem_thinking'' t" using Cons(2) by (auto simp: contains_def sublist_Cons_right)
  have "\<not> starts_with ''/mem_thinking'' (t @ ''</mem_thinking>'' @ s)"
  proof
    assume "starts_with ''/mem_thinking'' (t @ ''</mem_thinking>'' @ s)"
    then have "prefix ''/mem_thinking'' (t @ CHR ''<'' # ''/mem_thinking>'' @ s)" by (simp add: starts_with_def)
    then have "prefix ''/mem_thinking'' t" by (rule prefix_stop) simp
    then show False using n by (auto simp: contains_def)
  qed
  then show ?case using Cons(1) [OF n] by (simp add: after_tag_def)
qed

text \<open>What a model thinks aloud never reaches the judge: a thinking block in a reply is removed whatever it
  contains, up to its closing tag, so two replies that differ only inside the block give the same answer, and
  the answer is what stands outside.\<close>

theorem thinking_removed:
  assumes "\<forall>c \<in> set before. c \<noteq> CHR ''<'' \<and> c \<noteq> CHR ''[''" "\<not> contains ''/mem_thinking'' thought"
    "\<forall>c \<in> set after. c \<noteq> CHR ''<'' \<and> c \<noteq> CHR ''[''" "after_last ''ANSWER:'' (py_strip (before @ after)) = None"
  shows "mem0_strip_answer (before @ ''<mem_thinking>'' @ thought @ ''</mem_thinking>'' @ after) = py_strip (before @ after)"
proof -
  let ?s = "''<mem_thinking>'' @ thought @ ''</mem_thinking>'' @ after"
  have "block_end ?s = Some after"
    using close_found [OF assms(2), of after] by (simp add: block_end_def after_tag_def starts_with_def)
  then have "drop_thinking ?s = drop_thinking after" by (subst drop_thinking.simps) simp
  also have "drop_thinking after = after"
    using drop_thinking_text [OF assms(3), of "[]"] drop_thinking.simps [of "[]"] by (simp add: block_end_def after_tag_def)
  finally have "drop_thinking (before @ ?s) = before @ after" using drop_thinking_text [OF assms(1), of ?s] by simp
  then show ?thesis using assms(4) by (simp add: mem0_strip_answer_def Let_def)
qed

theorem thinking_removed_witness:
  "mem0_strip_answer (''Well, '' @ ''<mem_thinking>'' @ ''ANSWER: 9'' @ ''</mem_thinking>'' @ ''12 '') = ''Well, 12''"
proof -
  have a: "py_strip (''Well, '' @ ''12 '') = ''Well, 12''" by code_simp
  have n: "after_last ''ANSWER:'' (py_strip (''Well, '' @ ''12 '')) = None" unfolding a by code_simp
  have c: "\<not> contains ''/mem_thinking'' ''ANSWER: 9''" by code_simp
  show ?thesis using thinking_removed [OF _ c _ n] unfolding a by simp
qed

lemma lower_char_lt: "lower_char c = CHR ''<'' \<longleftrightarrow> c = CHR ''<''"
proof (cases "65 \<le> code c \<and> code c \<le> 90")
  case True
  then have "code (lower_char c) \<noteq> code CHR ''<''" "c \<noteq> CHR ''<''" by (auto simp: lower_char_def)
  then show ?thesis by auto
qed (auto simp: lower_char_def)

lemma closing_tag_head: "c \<noteq> CHR ''<'' \<Longrightarrow> closing_tag (c # s) = None"
  by (simp add: closing_tag_def py_lower_def starts_with_def eq_commute [of "CHR ''<''"] lower_char_lt)

lemma last_closing_none: "CHR ''<'' \<notin> set s \<Longrightarrow> last_closing s = None"
  by (induction s) (auto simp: closing_tag_head)

lemma last_closing_found:
  "CHR ''<'' \<notin> set r \<Longrightarrow> last_closing (thought @ ''</judge_thinking>'' @ r) = Some r"
proof (induction thought)
  case Nil
  have n: "last_closing (''/judge_thinking>'' @ r) = None" using Nil by (intro last_closing_none) simp
  have "py_lower (''</judge_thinking>'' @ r) = ''</judge_thinking>'' @ py_lower r"
    by (simp add: py_lower_def lower_char_def)
  then have c: "closing_tag (''</judge_thinking>'' @ r) = Some r"
    unfolding closing_tag_def by (simp only: starts_with_append if_True) simp
  have e: "''</judge_thinking>'' @ r = CHR ''<'' # (''/judge_thinking>'' @ r)" by simp
  show ?case using c unfolding append_Nil e last_closing.simps n by (simp only: option.case)
qed simp

lemma py_lstrip_append: "s \<noteq> [] \<Longrightarrow> \<not> is_space (hd s) \<Longrightarrow> \<exists>t. py_lstrip (a @ s) = t @ s"
proof (induction a)
  case Nil
  then show ?case by (cases s) (simp_all add: py_lstrip_def)
next
  case (Cons c a)
  then show ?case by (cases "is_space c") (simp_all add: py_lstrip_def)
qed

lemma py_strip_keeps_end:
  assumes "c \<in> set s" "\<not> is_space c" "s \<noteq> []" "\<not> is_space (last s)"
  shows "py_strip (a @ s) = py_lstrip (a @ s)"
proof -
  have "dropWhile is_space (a @ s) \<noteq> []" using assms(1,2) by (auto simp: dropWhile_eq_Nil_conv)
  moreover have "last (dropWhile is_space (a @ s)) = last (a @ s)"
    using calculation by (metis last_appendR takeWhile_dropWhile_id)
  ultimately show ?thesis using assms(3,4)
    by (simp add: py_strip_def py_lstrip_def rstrip_while_id)
qed

lemma verdict_words:
  "list_all (\<lambda>v. CHR ''<'' \<notin> set (newline @ v) \<and> py_strip (newline @ v) = v \<and> py_splitlines v = [v] \<and> v \<noteq> [] \<and>
     \<not> is_space (last v) \<and> py_strip v = v \<and> py_lower v \<in> {''yes'', ''no''} \<and>
     (py_lower v = ''yes'' \<longleftrightarrow> v \<in> {''yes'', ''Yes'', ''YES''}))
   [''yes'', ''Yes'', ''YES'', ''no'', ''No'', ''NO'']"
  by code_simp



end
