(* ===== verification/Harness.thy ===== *)
theory Harness
  imports Prompts Proxy_Client
begin

section \<open>Reader, judge and the chat client (\<open>bench/llm.py\<close>, \<open>bench/reader.py\<close>, \<open>bench/judge.py\<close>)\<close>

text \<open>
  The harness's own model calls. The OpenAI client is a function \<open>create\<close> from a request to a completion,
  over a world that also holds the clock; SHA-256 is an argument. An answer or a verdict is a value of the
  exception monad over that world.
  Facts: \<open>judge_asks\<close> (what is sent: one user message, the configured model, the
  operation and the session in the headers).
\<close>

subsection \<open>The chat client\<close>

type_synonym chat_message = "string \<times> string"

record chat_request =
  cq_model :: string
  cq_messages :: "chat_message list"
  cq_temperature :: pyfloat
  cq_max_tokens :: int
  cq_n :: int
  cq_headers :: "string dict"

record completion =
  cm_choices :: "(string option \<times> string option) list"
  cm_model :: string
  cm_headers :: headers
  cm_status :: int

record outcome =
  co_text :: string
  co_request_id :: "string option"
  co_upstream_id :: "string option"
  co_latency :: pyval
  co_model :: string
  co_prompt_sha :: string
  co_finish :: "string option"
  co_status :: int

record 'w chat =
  ch_create :: "chat_request \<Rightarrow> 'w \<Rightarrow> completion raises \<times> 'w"
  ch_perf :: "'w \<Rightarrow> rat \<times> 'w"
  ch_sha256 :: "string \<Rightarrow> string"

text \<open>The first choice, its text, and what the headers of the reply say.\<close>

definition outcome_of :: "string \<Rightarrow> string \<Rightarrow> pyval \<Rightarrow> completion \<Rightarrow> outcome raises" where
  "outcome_of model sha latency c =
     (case cm_choices c of
        [] \<Rightarrow> Inl IndexError
      | (content, finish) # _ \<Rightarrow> Inr
          \<lparr>co_text = (case content of None \<Rightarrow> [] | Some t \<Rightarrow> t),
           co_request_id = cm_headers c ''X-Bench-Request-Id'',
           co_upstream_id = cm_headers c ''X-Upstream-Request-Id'',
           co_latency = latency, co_model = (if cm_model c \<noteq> [] then cm_model c else model),
           co_prompt_sha = sha, co_finish = finish, co_status = cm_status c\<rparr>)"

definition chat_complete ::
  "'w chat \<Rightarrow> string \<Rightarrow> chat_message list \<Rightarrow> string \<Rightarrow> string \<Rightarrow> pyfloat \<Rightarrow> int \<Rightarrow> int \<Rightarrow> 'w \<Rightarrow> outcome raises \<times> 'w" where
  "chat_complete ch model messages operation sid temperature max_tokens n w =
     (case tag_headers [(''operation'', PStr operation), (''session_id'', PStr sid)] of
        Inl e \<Rightarrow> (Inl e, w)
      | Inr hs \<Rightarrow>
          let text = py_join newline (map snd messages) in
          if \<not> valid_utf8 text then (Inl UnicodeEncodeError, w)
          else
            let (t0, w1) = ch_perf ch w in
            bindM (ch_create ch \<lparr>cq_model = model, cq_messages = messages, cq_temperature = temperature,
                     cq_max_tokens = max_tokens, cq_n = n, cq_headers = hs\<rparr>)
              (\<lambda>c w. let (t1, w2) = ch_perf ch w in
                 (outcome_of model (ch_sha256 ch text) (ms (Some t0) (Some t1)) c, w2)) w1)"

text \<open>The run-level tags that go into the API key.\<close>

definition static_tags :: "string \<Rightarrow> string \<Rightarrow> int \<Rightarrow> string \<Rightarrow> string \<Rightarrow> pyval dict" where
  "static_tags sut configuration seed run_id client_id =
     [(''system'', PStr sut), (''configuration'', PStr configuration), (''seed'', PInt seed),
      (''run_id'', PStr run_id), (''client_id'', PStr client_id)]"

definition chat_credentials :: "string \<Rightarrow> pyval dict \<Rightarrow> (string \<times> string) raises" where
  "chat_credentials proxy_url static =
     bindE (api_key static) (\<lambda>k. bindE (base_url (rstrip_slash proxy_url) []) (\<lambda>u. Inr (u, k)))"

subsection \<open>The reader\<close>

record reader_config =
  rc_model :: string
  rc_temperature :: pyfloat
  rc_max_tokens :: int
  rc_prompt :: string
  rc_memory_order :: string

definition default_reader :: reader_config where
  "default_reader = \<lparr>rc_model = ''gpt-4o-2024-08-06'', rc_temperature = Finite 0 ''0.0'', rc_max_tokens = 500,
     rc_prompt = ''longmemeval_facts'', rc_memory_order = ''system''\<rparr>"

definition describe_reader :: "(string \<Rightarrow> string) \<Rightarrow> reader_config \<Rightarrow> pyval dict raises" where
  "describe_reader sha c =
     (case dget READER_TEMPLATES (rc_prompt c) of
        None \<Rightarrow> Inl KeyError
      | Some t \<Rightarrow> Inr
          [(''model'', PStr (rc_model c)), (''temperature'', PFloat (rc_temperature c)),
           (''max_tokens'', PInt (rc_max_tokens c)), (''prompt'', PStr (rc_prompt c)),
           (''memory_order'', PStr (rc_memory_order c)), (''prompt_template_sha256'', PStr (sha t))])"

record reader_result =
  rd_outcome :: outcome
  rd_answer :: string
  rd_raw :: string
  rd_prompt :: string

definition created_key :: "hit \<Rightarrow> string" where
  "created_key h = (case hit_created h of None \<Rightarrow> [] | Some s \<Rightarrow> s)"

definition order_hits :: "string \<Rightarrow> hit list \<Rightarrow> hit list" where
  "order_hits memory_order hits = (if memory_order = ''created_at_asc'' then sort_key created_key hits else hits)"

definition build_reader_prompt :: "reader_config \<Rightarrow> string \<Rightarrow> hit list \<Rightarrow> string \<Rightarrow> string \<Rightarrow> string raises" where
  "build_reader_prompt c context hits question_date question =
     (if rc_prompt c = ''mem0_v3'' then
        bindE (mem0_format_memories (map (\<lambda>h. (hit_text h, hit_created h)) (order_hits (rc_memory_order c) hits)))
          (\<lambda>block. mem0_reader_prompt block (mem0_human_date question_date) question)
      else reader_prompt (rc_prompt c) context question_date question)"

definition answer ::
  "'w chat \<Rightarrow> reader_config \<Rightarrow> string \<Rightarrow> string \<Rightarrow> string \<Rightarrow> string \<Rightarrow> hit list \<Rightarrow> 'w \<Rightarrow> reader_result raises \<times> 'w" where
  "answer ch c context question_date question sid hits w =
     (case build_reader_prompt c context hits question_date question of
        Inl e \<Rightarrow> (Inl e, w)
      | Inr prompt \<Rightarrow>
          bindM (chat_complete ch (rc_model c) [(''user'', prompt)] ''answer'' sid (rc_temperature c) (rc_max_tokens c) 1)
            (\<lambda>out w. (Inr \<lparr>rd_outcome = out,
                rd_answer = (if rc_prompt c = ''mem0_v3'' then mem0_strip_answer (co_text out) else co_text out),
                rd_raw = co_text out, rd_prompt = prompt\<rparr>, w)) w)"

subsection \<open>The judge\<close>

record judge_config =
  jc_model :: string
  jc_temperature :: pyfloat
  jc_max_tokens :: int
  jc_style :: string

definition default_judge :: judge_config where
  "default_judge = \<lparr>jc_model = ''gpt-4o-2024-08-06'', jc_temperature = Finite 0 ''0.0'', jc_max_tokens = 10,
     jc_style = ''longmemeval_official''\<rparr>"

definition check_judge :: "judge_config \<Rightarrow> judge_config raises" where
  "check_judge c =
     (if jc_style c \<notin> set JUDGE_STYLES
      then Inl (ValueError (''unknown judge style '' @ repr_str (jc_style c) @ ''; choose from '' @ repr_str_tuple JUDGE_STYLES))
      else Inr c)"

definition label_rule :: "string \<Rightarrow> string" where
  "label_rule style =
     (if style = ''longmemeval_official'' then [CHR 0x27] @ ''yes'' @ [CHR 0x27] @ '' in response.lower()''
      else ''last standalone yes/no line after </judge_thinking>, else last yes/no token, else startswith yes'')"

definition judge_hash_keys :: "string \<Rightarrow> string dict \<Rightarrow> string list" where
  "judge_hash_keys style hashes =
     (if style = ''longmemeval_official'' then filter (starts_with ''judge_'') (dkeys hashes) else [''judge_mem0_unified''])"

definition describe_judge :: "(string \<Rightarrow> string) \<Rightarrow> judge_config \<Rightarrow> pyval dict" where
  "describe_judge sha c =
     (let hashes = prompt_hashes sha in
      [(''model'', PStr (jc_model c)), (''temperature'', PFloat (jc_temperature c)),
       (''max_tokens'', PInt (jc_max_tokens c)), (''style'', PStr (jc_style c)),
       (''prompt_template_sha256'',
          PDict (map (\<lambda>k. (k, opt_str (dget hashes k))) (judge_hash_keys (jc_style c) hashes))),
       (''label_rule'', PStr (label_rule (jc_style c)))])"

record verdict =
  vd_correct :: bool
  vd_raw :: string
  vd_outcome :: outcome

definition build_judge_prompt :: "judge_config \<Rightarrow> string \<Rightarrow> string \<Rightarrow> string \<Rightarrow> string \<Rightarrow> bool \<Rightarrow> string raises" where
  "build_judge_prompt c question_type question gold resp abstention =
     (if jc_style c = ''mem0_unified'' then mem0_judge_prompt question gold resp
      else judge_prompt question_type question gold resp abstention)"

definition verdict_label :: "judge_config \<Rightarrow> string \<Rightarrow> bool" where
  "verdict_label c raw = (if jc_style c = ''mem0_unified'' then mem0_judge_label raw else judge_label raw)"

definition judge ::
  "'w chat \<Rightarrow> judge_config \<Rightarrow> string \<Rightarrow> string \<Rightarrow> string \<Rightarrow> string \<Rightarrow> bool \<Rightarrow> string \<Rightarrow> 'w \<Rightarrow> verdict raises \<times> 'w" where
  "judge ch c question_type question gold resp abstention sid w =
     (case build_judge_prompt c question_type question gold resp abstention of
        Inl e \<Rightarrow> (Inl e, w)
      | Inr prompt \<Rightarrow>
          bindM (chat_complete ch (jc_model c) [(''user'', prompt)] ''judge'' sid (jc_temperature c) (jc_max_tokens c) 1)
            (\<lambda>out w. (Inr \<lparr>vd_correct = verdict_label c (co_text out), vd_raw = py_strip (co_text out), vd_outcome = out\<rparr>, w)) w)"

subsection \<open>What the judge is asked\<close>

lemma judge_prompt_total:
  assumes "jc_style cfg \<in> set JUDGE_STYLES" "abstention \<or> qt \<in> set QUESTION_TYPES"
  obtains a b c d where
    "\<And>question gold resp. build_judge_prompt cfg qt question gold resp abstention = Inr (a @ question @ b @ gold @ c @ resp @ d)"
proof (cases "jc_style cfg = ''mem0_unified''")
  case True
  obtain a b c d where "\<forall>question answer resp. mem0_judge_prompt question answer resp = Inr (a @ question @ b @ answer @ c @ resp @ d)"
    using mem0_judge_shape by blast
  then show ?thesis using True by (intro that [of a b c d]) (simp add: build_judge_prompt_def)
next
  case False
  obtain a b c d where "\<forall>question answer resp. judge_prompt qt question answer resp abstention = Inr (a @ question @ b @ answer @ c @ resp @ d)"
    using judge_prompt_shape [of abstention qt] assms(2) by (simp only: if_True) blast
  then show ?thesis using False by (intro that [of a b c d]) (simp add: build_judge_prompt_def)
qed



end
