(* ===== verification/Runner.thy ===== *)
theory Runner
  imports Harness Settlement Event_Log
begin

section \<open>The benchmark runner (\<open>bench/runner.py\<close>, \<open>bench/resume.py\<close>)\<close>

text \<open>
  One instance at a time: reset, ingest, settle, search, read, judge. The runner's state holds the adapter,
  the context merged into every event, the events handed to the log, the tally, and what \<open>run_instance\<close>
  keeps in local variables across its \<open>try\<close>. Waiting needs fuel, so an action may be \<open>None\<close>; the world of
  the adapter is also the world of the chat client.
  Facts: \<open>labels_never_leak\<close>, \<open>split_writes_order\<close>, \<open>instance_protocol\<close>, \<open>run_accounts\<close>, \<open>run_always_ends\<close>, \<open>resume_exact\<close>.
\<close>

subsection \<open>Ingestion\<close>

record ingest_config =
  ig_granularity :: string
  ig_date_mode :: string
  ig_strip_labels :: bool
  ig_skip_empty_pairs :: bool

definition default_ingest :: ingest_config where
  "default_ingest = \<lparr>ig_granularity = ''session'', ig_date_mode = ''system_message'', ig_strip_labels = True,
     ig_skip_empty_pairs = False\<rparr>"

type_synonym message = "pyval dict"

definition message_of :: "bool \<Rightarrow> lme_turn \<Rightarrow> message" where
  "message_of strip t =
     [(''role'', PStr (tn_role t)), (''content'', PStr (tn_content t))] @
     (if \<not> strip \<and> tn_answer t then [(''has_answer'', PBool True)] else [])"

definition role_of :: "message \<Rightarrow> pyval" where
  "role_of m = vget m ''role''"

fun prefix_first_user :: "string \<Rightarrow> message list \<Rightarrow> message list" where
  "prefix_first_user date [] = []"
| "prefix_first_user date (m # rest) =
     (if role_of m = PStr ''user''
      then dset ''content'' (PStr (''['' @ date @ ''] '' @ py_str (vget m ''content''))) m # rest
      else m # prefix_first_user date rest)"

definition date_message :: "string \<Rightarrow> message" where
  "date_message date =
     [(''role'', PStr ''system''), (''content'', PStr (''This conversation took place on '' @ date @ ''.''))]"

definition format_session_messages :: "lme_session \<Rightarrow> ingest_config \<Rightarrow> message list raises" where
  "format_session_messages s ig =
     (let msgs = map (message_of (ig_strip_labels ig)) (ss_turns s) in
      if ig_date_mode ig = ''system_message'' then Inr (date_message (ss_date s) # msgs)
      else if ig_date_mode ig = ''prefix_first_user'' then Inr (prefix_first_user (ss_date s) msgs)
      else if ig_date_mode ig \<noteq> ''none''
        then Inl (ValueError (''unknown ingest.date_mode '' @ repr_str (ig_date_mode ig)))
      else Inr msgs)"

fun pairs_of :: "'a list \<Rightarrow> 'a list list" where
  "pairs_of (x # y # xs) = [x, y] # pairs_of xs"
| "pairs_of [x] = [[x]]"
| "pairs_of [] = []"

definition empty_content :: "message \<Rightarrow> bool" where
  "empty_content m = (py_strip (py_str (por (vget m ''content'') (PStr []))) = [])"

definition split_writes :: "lme_session \<Rightarrow> ingest_config \<Rightarrow> message list list raises" where
  "split_writes s ig =
     bindE (format_session_messages s ig) (\<lambda>msgs.
       if ig_granularity ig = ''session'' then Inr [msgs]
       else
         let sys = filter (\<lambda>m. role_of m = PStr ''system'') msgs; body = filter (\<lambda>m. role_of m \<noteq> PStr ''system'') msgs in
         if ig_granularity ig = ''turn'' then Inr (map (\<lambda>m. sys @ [m]) body)
         else if ig_granularity ig = ''pair'' then
           Inr (map (\<lambda>p. sys @ p)
             (if ig_skip_empty_pairs ig then filter (\<lambda>p. \<not> list_ex empty_content p) (pairs_of body) else pairs_of body))
         else Inl (ValueError (''unknown ingest.granularity '' @ repr_str (ig_granularity ig))))"

subsection \<open>State and actions\<close>

record run_config =
  rf_system :: string
  rf_run_id :: string
  rf_seed :: int
  rf_configuration :: string
  rf_ingest :: ingest_config
  rf_settle_policy :: string
  rf_on_error :: string
  rf_reader :: reader_config
  rf_judge :: judge_config
  rf_benchmark :: string
  rf_config_path :: string
  rf_system_config :: "pyval dict"
  rf_benchmark_config :: "pyval dict"
  rf_proxy_url :: string
  rf_limit :: "int option"
  rf_question_ids :: "string list option"
  rf_overrides :: pyval
  rf_resume :: bool

record 'w runner =
  rn_adapter :: "'w adapter"
  rn_ctx :: "pyval dict"
  rn_log :: "pyval dict list"
  rn_instances :: nat
  rn_correct :: nat
  rn_errors :: nat
  rn_timings :: "pyval dict"

record 'w harness =
  hs_hooks :: "'w hooks"
  hs_chat :: "'w chat"
  hs_fuel :: nat

type_synonym ('w, 'a) action = "'w runner \<Rightarrow> ('a raises \<times> 'w runner) option"

definition ret :: "'a \<Rightarrow> ('w, 'a) action" where
  "ret x rn = Some (Inr x, rn)"

definition bindA :: "('w, 'a) action \<Rightarrow> ('a \<Rightarrow> ('w, 'b) action) \<Rightarrow> ('w, 'b) action" where
  "bindA m f rn = (case m rn of
     None \<Rightarrow> None | Some (Inl e, rn1) \<Rightarrow> Some (Inl e, rn1) | Some (Inr x, rn1) \<Rightarrow> f x rn1)"

definition modify :: "('w runner \<Rightarrow> 'w runner) \<Rightarrow> ('w, unit) action" where
  "modify f rn = Some (Inr (), f rn)"

definition lift_raises :: "'a raises \<Rightarrow> ('w, 'a) action" where
  "lift_raises r rn = Some (r, rn)"

fun for_each :: "('x \<Rightarrow> ('w, unit) action) \<Rightarrow> 'x list \<Rightarrow> ('w, unit) action" where
  "for_each f [] = ret ()"
| "for_each f (x # xs) = bindA (f x) (\<lambda>_. for_each f xs)"

text \<open>Something in the world: the clocks, the chat client.\<close>

definition in_world :: "('w \<Rightarrow> 'a raises \<times> 'w) \<Rightarrow> ('w, 'a) action" where
  "in_world f rn =
     (case f (ad_world (rn_adapter rn)) of
        (r, w) \<Rightarrow> Some (r, rn\<lparr>rn_adapter := (rn_adapter rn)\<lparr>ad_world := w\<rparr>\<rparr>))"

definition reading :: "('w \<Rightarrow> 'a \<times> 'w) \<Rightarrow> ('w, 'a) action" where
  "reading f = in_world (\<lambda>w. case f w of (x, w1) \<Rightarrow> (Inr x, w1))"

subsection \<open>Events\<close>

definition event_base :: "run_config \<Rightarrow> string \<Rightarrow> string \<Rightarrow> pyval dict" where
  "event_base cfg event_type stamp =
     [(''event_type'', PStr event_type), (''timestamp'', PStr stamp), (''run_id'', PStr (rf_run_id cfg)),
      (''system'', PStr (rf_system cfg)), (''seed'', PInt (rf_seed cfg))]"

definition emit_event :: "run_config \<Rightarrow> 'w harness \<Rightarrow> string \<Rightarrow> pyval dict \<Rightarrow> ('w, unit) action" where
  "emit_event cfg hs event_type flds =
     bindA (reading (hk_stamp (hs_hooks hs))) (\<lambda>stamp.
       modify (\<lambda>rn. rn\<lparr>rn_log := rn_log rn @
         [dupdate (dupdate (event_base cfg event_type stamp) (rn_ctx rn)) flds]\<rparr>))"

definition adapter_event :: "run_config \<Rightarrow> pyval dict \<Rightarrow> pyval dict \<Rightarrow> pyval dict" where
  "adapter_event cfg ctx ev =
     dupdate (dupdate ev [(''run_id'', PStr (rf_run_id cfg)), (''seed'', PInt (rf_seed cfg)),
       (''source'', PStr ''adapter'')]) ctx"

text \<open>An operation of the adapter: its events go to the log as they are emitted, with the context.\<close>

definition absorb :: "run_config \<Rightarrow> 'w adapter \<Rightarrow> 'w runner \<Rightarrow> 'w runner" where
  "absorb cfg ad rn =
     rn\<lparr>rn_adapter := ad, rn_log := rn_log rn @
       map (adapter_event cfg (rn_ctx rn)) (drop (length (ad_events (rn_adapter rn))) (ad_events ad))\<rparr>"

definition with_adapter :: "run_config \<Rightarrow> ('w adapter \<Rightarrow> 'a raises \<times> 'w adapter) \<Rightarrow> ('w, 'a) action" where
  "with_adapter cfg f rn = (case f (rn_adapter rn) of (r, ad) \<Rightarrow> Some (r, absorb cfg ad rn))"

definition waiting :: "run_config \<Rightarrow> 'w harness \<Rightarrow> string \<Rightarrow> ('w, settlement) action" where
  "waiting cfg hs sid rn =
     (case wait_settled (hs_fuel hs) (hs_hooks hs) sid None None (rn_adapter rn) of
        None \<Rightarrow> None | Some (r, ad) \<Rightarrow> Some (r, absorb cfg ad rn))"

subsection \<open>run_instance\<close>

definition set_timing :: "string \<Rightarrow> pyval \<Rightarrow> ('w, unit) action" where
  "set_timing k v = modify (\<lambda>rn. rn\<lparr>rn_timings := dset k v (rn_timings rn)\<rparr>)"

definition elapsed :: "'w harness \<Rightarrow> rat \<Rightarrow> ('w, pyval) action" where
  "elapsed hs t0 = bindA (reading (hk_perf (hs_hooks hs))) (\<lambda>t1. ret (ms (Some t0) (Some t1)))"

definition write_metadata :: "lme_session \<Rightarrow> pyval" where
  "write_metadata s = PDict [(''lme_session_id'', PStr (ss_id s)), (''session_date'', PStr (ss_date s)),
     (''session_index'', PInt (int (ss_index s)))]"

definition write_one :: "run_config \<Rightarrow> 'w harness \<Rightarrow> string \<Rightarrow> lme_session \<Rightarrow> message list \<Rightarrow> ('w, unit) action" where
  "write_one cfg hs sid s msgs =
     bindA (with_adapter cfg (write_memory (hs_hooks hs) sid (map PDict msgs) (write_metadata s))) (\<lambda>_. ret ())"

definition ingest_session :: "run_config \<Rightarrow> 'w harness \<Rightarrow> string \<Rightarrow> lme_session \<Rightarrow> ('w, nat) action" where
  "ingest_session cfg hs sid s =
     bindA (modify (\<lambda>rn. rn\<lparr>rn_ctx := dset ''lme_session_id'' (PStr (ss_id s)) (rn_ctx rn)\<rparr>)) (\<lambda>_.
     bindA (lift_raises (split_writes s (rf_ingest cfg))) (\<lambda>writes.
     bindA (for_each (write_one cfg hs sid s) writes) (\<lambda>_.
     bindA (if rf_settle_policy cfg = ''per_session'' then bindA (waiting cfg hs sid) (\<lambda>_. ret ()) else ret ()) (\<lambda>_.
       ret (length writes)))))"

fun ingest_all :: "run_config \<Rightarrow> 'w harness \<Rightarrow> string \<Rightarrow> lme_session list \<Rightarrow> nat \<Rightarrow> ('w, nat) action" where
  "ingest_all cfg hs sid [] n = ret n"
| "ingest_all cfg hs sid (s # ss) n =
     bindA (ingest_session cfg hs sid s) (\<lambda>k. ingest_all cfg hs sid ss (n + k))"

definition ingest_phase :: "run_config \<Rightarrow> 'w harness \<Rightarrow> lme_instance \<Rightarrow> ('w, unit) action" where
  "ingest_phase cfg hs inst =
     bindA (reading (hk_perf (hs_hooks hs))) (\<lambda>t0.
     bindA (ingest_all cfg hs (in_id inst) (in_sessions inst) 0) (\<lambda>n_writes.
     bindA (modify (\<lambda>rn. rn\<lparr>rn_ctx := dpop ''lme_session_id'' (rn_ctx rn)\<rparr>)) (\<lambda>_.
     bindA (elapsed hs t0) (\<lambda>t. bindA (set_timing ''ingest_ms'' t) (\<lambda>_.
       emit_event cfg hs ''INGEST_END'' [(''n_sessions'', PInt (int (length (in_sessions inst)))),
         (''n_writes'', PInt (int n_writes)), (''ingest_ms'', t)])))))"

definition settle_phase :: "run_config \<Rightarrow> 'w harness \<Rightarrow> lme_instance \<Rightarrow> ('w, pyval) action" where
  "settle_phase cfg hs inst =
     bindA (reading (hk_perf (hs_hooks hs))) (\<lambda>t0.
     bindA (if rf_settle_policy cfg = ''per_instance''
            then bindA (waiting cfg hs (in_id inst)) (\<lambda>st. ret (PBool (st_settled st))) else ret PNone) (\<lambda>settled.
     bindA (elapsed hs t0) (\<lambda>t. bindA (set_timing ''settle_ms'' t) (\<lambda>_. ret settled))))"

definition retrieval_phase :: "run_config \<Rightarrow> 'w harness \<Rightarrow> lme_instance \<Rightarrow> ('w, read_result) action" where
  "retrieval_phase cfg hs inst =
     bindA (reading (hk_perf (hs_hooks hs))) (\<lambda>_.
     bindA (with_adapter cfg (search (hs_hooks hs) (in_id inst) (in_question inst) ''read'')) (\<lambda>rr.
     bindA (set_timing ''read_ms'' (rr_latency rr)) (\<lambda>_.
     bindA (emit_event cfg hs ''CONTEXT'' [(''read_id'', PStr (rr_id rr)), (''context'', PStr (rr_context rr)),
         (''context_chars'', PInt (int (py_len (rr_context rr)))), (''hits'', PInt (int (length (rr_hits rr)))),
         (''context_empty'', PBool (py_strip (rr_context rr) = []))]) (\<lambda>_.
       ret rr))))"

definition answer_fields :: "reader_result \<Rightarrow> pyval dict" where
  "answer_fields rd =
     [(''model'', PStr (co_model (rd_outcome rd))), (''answer'', PStr (rd_answer rd)),
      (''answer_raw'', if rd_raw rd \<noteq> rd_answer rd then PStr (rd_raw rd) else PNone),
      (''prompt_sha256'', PStr (co_prompt_sha (rd_outcome rd))),
      (''prompt_chars'', PInt (int (py_len (rd_prompt rd)))),
      (''proxy_request_id'', opt_str (co_request_id (rd_outcome rd))),
      (''upstream_request_id'', opt_str (co_upstream_id (rd_outcome rd))),
      (''latency_ms'', co_latency (rd_outcome rd)), (''finish_reason'', opt_str (co_finish (rd_outcome rd)))]"

definition answer_phase :: "run_config \<Rightarrow> 'w harness \<Rightarrow> lme_instance \<Rightarrow> read_result \<Rightarrow> ('w, reader_result) action" where
  "answer_phase cfg hs inst rr =
     bindA (emit_event cfg hs ''ANSWER_START'' [(''model'', PStr (rc_model (rf_reader cfg))),
       (''context_chars'', PInt (int (py_len (rr_context rr))))]) (\<lambda>_.
     bindA (in_world (answer (hs_chat hs) (rf_reader cfg) (rr_context rr) (in_date inst) (in_question inst)
       (in_id inst) (rr_hits rr))) (\<lambda>rd.
     bindA (set_timing ''answer_ms'' (co_latency (rd_outcome rd))) (\<lambda>_.
     bindA (emit_event cfg hs ''ANSWER_END'' (answer_fields rd)) (\<lambda>_. ret rd))))"

definition verdict_fields :: "lme_instance \<Rightarrow> verdict \<Rightarrow> pyval dict" where
  "verdict_fields inst v =
     [(''model'', PStr (co_model (vd_outcome v))), (''verdict_raw'', PStr (vd_raw v)),
      (''correct'', PBool (vd_correct v)), (''gold_answer'', PStr (in_answer inst)),
      (''prompt_sha256'', PStr (co_prompt_sha (vd_outcome v))),
      (''proxy_request_id'', opt_str (co_request_id (vd_outcome v))), (''latency_ms'', co_latency (vd_outcome v))]"

definition judge_phase :: "run_config \<Rightarrow> 'w harness \<Rightarrow> lme_instance \<Rightarrow> reader_result \<Rightarrow> ('w, verdict) action" where
  "judge_phase cfg hs inst rd =
     bindA (emit_event cfg hs ''JUDGE_START'' [(''model'', PStr (jc_model (rf_judge cfg)))]) (\<lambda>_.
     bindA (in_world (judge (hs_chat hs) (rf_judge cfg) (in_type inst) (in_question inst) (in_answer inst)
       (rd_answer rd) (is_abstention inst) (in_id inst))) (\<lambda>v.
     bindA (set_timing ''judge_ms'' (co_latency (vd_outcome v))) (\<lambda>_.
     bindA (emit_event cfg hs ''JUDGE_END'' (verdict_fields inst v)) (\<lambda>_. ret v))))"

text \<open>Everything up to the answer, which must not depend on the labels of the instance.\<close>

definition blind_phases :: "run_config \<Rightarrow> 'w harness \<Rightarrow> lme_instance \<Rightarrow> ('w, pyval \<times> reader_result) action" where
  "blind_phases cfg hs inst =
     bindA (with_adapter cfg (reset (hs_hooks hs) (in_id inst))) (\<lambda>_.
     bindA (ingest_phase cfg hs inst) (\<lambda>_.
     bindA (settle_phase cfg hs inst) (\<lambda>settled.
     bindA (retrieval_phase cfg hs inst) (\<lambda>rr.
     bindA (answer_phase cfg hs inst rr) (\<lambda>rd. ret (settled, rd))))))"

definition instance_end :: "run_config \<Rightarrow> 'w harness \<Rightarrow> rat \<Rightarrow> pyval dict \<Rightarrow> pyval dict \<Rightarrow> ('w, unit) action" where
  "instance_end cfg hs t0 head mid =
     bindA (elapsed hs t0) (\<lambda>t rn.
       emit_event cfg hs ''INSTANCE_END'' (dupdate (head @ mid @ [(''total_ms'', t)]) (rn_timings rn)) rn)"

definition instance_body :: "run_config \<Rightarrow> 'w harness \<Rightarrow> lme_instance \<Rightarrow> rat \<Rightarrow> ('w, unit) action" where
  "instance_body cfg hs inst t0 =
     bindA (blind_phases cfg hs inst) (\<lambda>(settled, rd).
     bindA (judge_phase cfg hs inst rd) (\<lambda>v.
     bindA (modify (\<lambda>rn. rn\<lparr>rn_instances := rn_instances rn + 1,
         rn_correct := rn_correct rn + (if vd_correct v then 1 else 0)\<rparr>)) (\<lambda>_.
       instance_end cfg hs t0 [(''correct'', PBool (vd_correct v)), (''error'', PNone)] [(''settled'', settled)])))"

definition instance_failed :: "run_config \<Rightarrow> 'w harness \<Rightarrow> rat \<Rightarrow> pyexc \<Rightarrow> ('w, unit) action" where
  "instance_failed cfg hs t0 e =
     bindA (modify (\<lambda>rn. rn\<lparr>rn_instances := rn_instances rn + 1, rn_errors := rn_errors rn + 1\<rparr>)) (\<lambda>_.
     bindA (emit_event cfg hs ''ERROR'' [(''phase'', PStr ''instance''), (''error_type'', PStr (exc_name e)),
       (''error_message'', PStr (py_take 4000 (exc_text e)))]) (\<lambda>_.
     bindA (instance_end cfg hs t0 [(''correct'', PNone), (''error'', PStr (exc_name e))] []) (\<lambda>_.
       if rf_on_error cfg = ''abort'' then lift_raises (Inl e) else ret ())))"

definition start_fields :: "lme_instance \<Rightarrow> pyval dict" where
  "start_fields inst =
     [(''n_sessions'', PInt (int (length (in_sessions inst)))), (''n_turns'', PInt (int (n_turns inst))),
      (''is_abstention'', PBool (is_abstention inst)), (''question_date'', PStr (in_date inst)),
      (''answer_session_ids'', strs (in_answer_sessions inst))]"

text \<open>\<open>except Exception\<close> does not catch a cancellation; \<open>finally\<close> clears the context.\<close>

definition run_instance :: "run_config \<Rightarrow> 'w harness \<Rightarrow> lme_instance \<Rightarrow> nat \<Rightarrow> ('w, unit) action" where
  "run_instance cfg hs inst position =
     bindA (modify (\<lambda>rn. rn\<lparr>rn_ctx := [(''question_id'', PStr (in_id inst)), (''question_type'', PStr (in_type inst)),
       (''position'', PInt (int position))], rn_timings := []\<rparr>)) (\<lambda>_.
     bindA (reading (hk_perf (hs_hooks hs))) (\<lambda>t0.
     bindA (emit_event cfg hs ''INSTANCE_START'' (start_fields inst)) (\<lambda>_ rn.
       case (case instance_body cfg hs inst t0 rn of
               Some (Inl e, rn1) \<Rightarrow> if e = CancelledError then Some (Inl e, rn1) else instance_failed cfg hs t0 e rn1
             | other \<Rightarrow> other) of
         None \<Rightarrow> None | Some (r, rn2) \<Rightarrow> Some (r, rn2\<lparr>rn_ctx := []\<rparr>))))"

subsection \<open>run\<close>

type_synonym cell = "pyval \<times> string"

fun run_loop :: "run_config \<Rightarrow> 'w harness \<Rightarrow> cell list \<Rightarrow> lme_instance list \<Rightarrow> nat \<Rightarrow> ('w, unit) action" where
  "run_loop cfg hs completed [] pos = ret ()"
| "run_loop cfg hs completed (inst # insts) pos =
     (if (PStr (in_id inst), ''instance'') \<in> set completed then
        bindA (emit_event cfg hs ''CELL_SKIPPED'' [(''question_id'', PStr (in_id inst)), (''phase'', PStr ''instance''),
          (''reason'', PStr ''completed_exact_resume'')]) (\<lambda>_. run_loop cfg hs completed insts (Suc pos))
      else
        bindA (run_instance cfg hs inst pos) (\<lambda>_ rn.
          if rn_errors rn \<noteq> 0 \<and> rf_on_error cfg = ''abort'' then ret () rn
          else run_loop cfg hs completed insts (Suc pos) rn))"

text \<open>\<open>ratio\<close> is Python's division of two integers.\<close>

definition summary_fields :: "(nat \<Rightarrow> nat \<Rightarrow> pyval) \<Rightarrow> pyval \<Rightarrow> string \<Rightarrow> 'w runner \<Rightarrow> pyval dict" where
  "summary_fields ratio duration finished rn =
     [(''instances'', PInt (int (rn_instances rn))), (''correct'', PInt (int (rn_correct rn))),
      (''errors'', PInt (int (rn_errors rn))),
      (''accuracy_convenience'', if rn_instances rn \<noteq> 0 then ratio (rn_correct rn) (rn_instances rn) else PNone),
      (''duration_ms'', duration), (''finished_at'', PStr finished)]"

definition run_end :: "(nat \<Rightarrow> nat \<Rightarrow> pyval) \<Rightarrow> run_config \<Rightarrow> 'w harness \<Rightarrow> rat \<Rightarrow> ('w, pyval dict) action" where
  "run_end ratio cfg hs t0 =
     bindA (elapsed hs t0) (\<lambda>duration.
     bindA (reading (hk_stamp (hs_hooks hs))) (\<lambda>finished rn.
       let s = summary_fields ratio duration finished rn in
       bindA (modify (\<lambda>rn. rn\<lparr>rn_ctx := []\<rparr>)) (\<lambda>_. bindA (emit_event cfg hs ''RUN_END'' s) (\<lambda>_. ret s)) rn))"

text \<open>The part of \<open>run\<close> after \<open>setup\<close>: the loop, then in every case the \<open>RUN_END\<close> event.\<close>

definition run_instances ::
  "(nat \<Rightarrow> nat \<Rightarrow> pyval) \<Rightarrow> run_config \<Rightarrow> 'w harness \<Rightarrow> cell list \<Rightarrow> lme_instance list \<Rightarrow> rat \<Rightarrow> ('w, pyval dict) action" where
  "run_instances ratio cfg hs completed insts t0 rn =
     (case run_loop cfg hs completed insts 0 rn of
        None \<Rightarrow> None
      | Some (Inl e, rn1) \<Rightarrow> bindA (run_end ratio cfg hs t0) (\<lambda>_. lift_raises (Inl e)) rn1
      | Some (Inr _, rn1) \<Rightarrow> run_end ratio cfg hs t0 rn1)"

subsection \<open>Resuming\<close>

definition event_get :: "string \<Rightarrow> pyval \<Rightarrow> pyval raises" where
  "event_get k v = (case v of PDict d \<Rightarrow> Inr (vget d k) | _ \<Rightarrow> Inl AttributeError)"

definition has_kind :: "string \<Rightarrow> pyval \<Rightarrow> bool raises" where
  "has_kind k v = bindE (event_get ''event_type'' v) (\<lambda>t. Inr (t = PStr k))"

fun filterE :: "('a \<Rightarrow> bool raises) \<Rightarrow> 'a list \<Rightarrow> 'a list raises" where
  "filterE P [] = Inr []"
| "filterE P (x # xs) = bindE (P x) (\<lambda>b. bindE (filterE P xs) (\<lambda>ys. Inr (if b then x # ys else ys)))"

definition hashable :: "pyval \<Rightarrow> bool" where
  "hashable v \<longleftrightarrow> \<not> is_list v \<and> \<not> is_dict v"

definition finished_cell :: "pyval \<Rightarrow> bool raises" where
  "finished_cell v = bindE (has_kind ''INSTANCE_END'' v) (\<lambda>b.
     if b then bindE (event_get ''error'' v) (\<lambda>e. Inr (e = PNone)) else Inr False)"

definition cell_of :: "pyval \<Rightarrow> cell raises" where
  "cell_of v = (case v of
     PDict d \<Rightarrow> (case dget d ''question_id'' of
        None \<Rightarrow> Inl KeyError | Some q \<Rightarrow> if hashable q then Inr (q, ''instance'') else Inl TypeError)
   | _ \<Rightarrow> Inl TypeError)"

definition completed_cells :: "string option \<Rightarrow> string \<Rightarrow> string \<Rightarrow> cell list raises" where
  "completed_cells trace run_id configuration_id =
     (case trace of
        None \<Rightarrow> Inr []
      | Some text \<Rightarrow>
          bindE (read_events text) (\<lambda>events.
          bindE (filterE (has_kind ''RUN_START'') events) (\<lambda>starts.
            case starts of
              [] \<Rightarrow> Inl (ValueError ''resume log has no RUN_START'')
            | start # _ \<Rightarrow>
                bindE (event_get ''run_id'' start) (\<lambda>r.
                if r \<noteq> PStr run_id then Inl (ValueError ''resume run_id mismatch'')
                else bindE (event_get ''configuration_id'' start) (\<lambda>c.
                if c \<noteq> PStr configuration_id then Inl (ValueError ''resume configuration fingerprint mismatch'')
                else bindE (filterE finished_cell events) (mapE cell_of))))))"

text \<open>\<open>Runner.__init__\<close>: a log that exists and is not empty is only continued by an explicit resume.\<close>

definition already_exists_msg :: "string \<Rightarrow> string" where
  "already_exists_msg run_id = ''run '' @ repr_str run_id @ '' already exists; choose a new run_id or request exact resume''"

definition open_run :: "run_config \<Rightarrow> string option \<Rightarrow> cell list raises" where
  "open_run cfg trace =
     (if nonempty trace \<and> \<not> rf_resume cfg then Inl (ValueError (already_exists_msg (rf_run_id cfg)))
      else if rf_resume cfg then completed_cells trace (rf_run_id cfg) (rf_configuration cfg)
      else Inr [])"

subsection \<open>setup\<close>

definition BENCH_VERSION :: string where
  "BENCH_VERSION = ''0.1.0''"

definition opt_list :: "string list option \<Rightarrow> pyval" where
  "opt_list x = (case x of None \<Rightarrow> PNone | Some xs \<Rightarrow> strs xs)"

definition manifest_dataset :: "lme_dataset \<Rightarrow> pyval" where
  "manifest_dataset ds = PDict
     [(''name'', PStr (ds_name ds)), (''path'', PStr (ds_path ds)), (''sha256'', PStr (ds_sha256 ds)),
      (''size_bytes'', PInt (int (ds_size ds))), (''instances_total'', PInt (int (length (ds_instances ds)))),
      (''synthetic'', PBool (ds_synthetic ds))]"

definition manifest_selection :: "(string \<Rightarrow> string) \<Rightarrow> run_config \<Rightarrow> lme_instance list \<Rightarrow> pyval" where
  "manifest_selection sha cfg insts = PDict
     [(''seed'', PInt (rf_seed cfg)), (''limit'', opt_int (rf_limit cfg)),
      (''question_ids'', opt_list (rf_question_ids cfg)), (''n_selected'', PInt (int (length insts))),
      (''order_digest'', PStr (selection_digest sha insts)), (''ordered_question_ids'', strs (map in_id insts))]"

definition manifest_ingest :: "ingest_config \<Rightarrow> pyval" where
  "manifest_ingest ig = PDict
     [(''granularity'', PStr (ig_granularity ig)), (''date_mode'', PStr (ig_date_mode ig)),
      (''strip_labels'', PBool (ig_strip_labels ig)), (''skip_empty_pairs'', PBool (ig_skip_empty_pairs ig))]"

definition manifest_proxy :: "run_config \<Rightarrow> pyval dict \<Rightarrow> pyval raises" where
  "manifest_proxy cfg info =
     bindE (as_dict (case dget info ''settings'' of None \<Rightarrow> PDict [] | Some v \<Rightarrow> v)) (\<lambda>st.
       Inr (PDict [(''url'', PStr (rf_proxy_url cfg)), (''instance_id'', vget info ''proxy_instance_id''),
         (''log_path'', vget st ''log_path''), (''settings'', vget info ''settings''),
         (''proxy_version'', vget info ''proxy_version'')]))"

text \<open>What the run was made of; the fingerprint of the adapter and the host's data are arguments.\<close>

definition run_manifest ::
  "(string \<Rightarrow> string) \<Rightarrow> run_config \<Rightarrow> lme_dataset \<Rightarrow> lme_instance list \<Rightarrow> pyval dict \<Rightarrow> pyval \<Rightarrow> pyval \<Rightarrow> string \<Rightarrow> pyval dict raises"
where
  "run_manifest sha cfg ds insts info fingerprint host started =
     bindE (describe_reader sha (rf_reader cfg)) (\<lambda>reader.
     bindE (manifest_proxy cfg info) (\<lambda>proxy. Inr
       [(''run_id'', PStr (rf_run_id cfg)), (''bench_version'', PStr BENCH_VERSION), (''system'', PStr (rf_system cfg)),
        (''benchmark'', PStr (rf_benchmark cfg)),
        (''benchmark_version'', vget (rf_benchmark_config cfg) ''benchmark_version''),
        (''protocol'', case dget (rf_benchmark_config cfg) ''protocol'' of None \<Rightarrow> PStr ''longmemeval-official'' | Some v \<Rightarrow> v),
        (''seed'', PInt (rf_seed cfg)), (''config_path'', PStr (rf_config_path cfg)),
        (''configuration_id'', PStr (rf_configuration cfg)),
        (''system_config'', PDict (filter (\<lambda>(k, v). \<not> starts_with ''_'' k) (rf_system_config cfg))),
        (''benchmark_config'', PDict (rf_benchmark_config cfg)), (''overrides'', rf_overrides cfg),
        (''overrides_present'', PBool (truthy (rf_overrides cfg))), (''dataset'', manifest_dataset ds),
        (''selection'', manifest_selection sha cfg insts), (''ingest'', manifest_ingest (rf_ingest cfg)),
        (''settlement_policy'', PStr (rf_settle_policy cfg)), (''reader'', PDict reader),
        (''judge'', PDict (describe_judge sha (rf_judge cfg))),
        (''prompt_hashes'', PDict (map (\<lambda>(k, v). (k, PStr v)) (prompt_hashes sha))),
        (''adapter_fingerprint'', fingerprint), (''proxy'', proxy), (''host'', host), (''started_at'', PStr started)]))"

record 'w run_env =
  re_shuffle :: "int \<Rightarrow> nat list \<Rightarrow> nat list"
  re_info :: "pyval dict"
  re_fingerprint :: pyval
  re_host :: pyval
  re_start :: "'w adapter \<Rightarrow> unit raises \<times> 'w adapter"

definition setup_run ::
  "'w run_env \<Rightarrow> run_config \<Rightarrow> 'w harness \<Rightarrow> lme_dataset \<Rightarrow> cell list \<Rightarrow> ('w, lme_instance list) action" where
  "setup_run env cfg hs ds completed =
     bindA (lift_raises (chat_credentials (rf_proxy_url cfg)
       (static_tags (rf_system cfg) (rf_configuration cfg) (rf_seed cfg) (rf_run_id cfg) ''harness''))) (\<lambda>_.
     bindA (lift_raises (select_instances (re_shuffle env) ds (rf_seed cfg) (rf_limit cfg) (rf_question_ids cfg))) (\<lambda>insts.
     bindA (reading (hk_stamp (hs_hooks hs))) (\<lambda>started.
     bindA (lift_raises (run_manifest (ch_sha256 (hs_chat hs)) cfg ds insts (re_info env) (re_fingerprint env)
       (re_host env) started)) (\<lambda>manifest.
     bindA (if rf_resume cfg
            then emit_event cfg hs ''RUN_RESUME'' [(''completed_cells'', PInt (int (length (remdups completed)))),
              (''configuration_id'', PStr (rf_configuration cfg))]
            else emit_event cfg hs ''RUN_START'' manifest) (\<lambda>_.
     bindA (with_adapter cfg (re_start env)) (\<lambda>_. ret insts))))))"

definition run_benchmark ::
  "(nat \<Rightarrow> nat \<Rightarrow> pyval) \<Rightarrow> 'w run_env \<Rightarrow> run_config \<Rightarrow> 'w harness \<Rightarrow> lme_dataset \<Rightarrow> cell list \<Rightarrow> ('w, pyval dict) action" where
  "run_benchmark ratio env cfg hs ds completed =
     bindA (reading (hk_perf (hs_hooks hs))) (\<lambda>t0.
     bindA (setup_run env cfg hs ds completed) (\<lambda>insts. run_instances ratio cfg hs completed insts t0))"

section \<open>Properties of the runner\<close>

subsection \<open>Labels\<close>

definition unlabel_session :: "lme_session \<Rightarrow> lme_session" where
  "unlabel_session s = s\<lparr>ss_turns := map (\<lambda>t. t\<lparr>tn_answer := False\<rparr>) (ss_turns s)\<rparr>"

text \<open>The instance without its gold answer, its evidence sessions and its evidence turns.\<close>

definition unlabel :: "lme_instance \<Rightarrow> lme_instance" where
  "unlabel i = i\<lparr>in_answer := [], in_answer_sessions := [], in_sessions := map unlabel_session (in_sessions i)\<rparr>"

lemma split_writes_unlabel:
  assumes "ig_strip_labels ig" shows "split_writes (unlabel_session s) ig = split_writes s ig"
proof -
  have m: "map (message_of (ig_strip_labels ig)) (ss_turns (unlabel_session s)) = map (message_of (ig_strip_labels ig)) (ss_turns s)"
    using assms by (simp add: unlabel_session_def message_of_def)
  have d: "ss_date (unlabel_session s) = ss_date s" by (simp add: unlabel_session_def)
  show ?thesis by (simp only: split_writes_def format_session_messages_def m d)
qed

lemma ingest_unlabel:
  assumes "ig_strip_labels (rf_ingest cfg)"
  shows "ingest_all cfg hs sid (map unlabel_session ss) n = ingest_all cfg hs sid ss n"
proof (induction ss arbitrary: n)
  case (Cons s ss)
  have w: "write_one cfg hs sid (unlabel_session s) = write_one cfg hs sid s"
    by (rule ext) (simp add: write_one_def write_metadata_def unlabel_session_def)
  have i: "ss_id (unlabel_session s) = ss_id s" by (simp add: unlabel_session_def)
  have "ingest_session cfg hs sid (unlabel_session s) = ingest_session cfg hs sid s"
    by (simp only: ingest_session_def split_writes_unlabel [OF assms] w i)
  then show ?case by (simp add: Cons)
qed simp

text \<open>C35: Evidence labels never leak: with labels stripped, everything that happens to an instance until it is
  answered, the calls to the memory system, the waits, the search, the reader's prompt and the answer, is the
  same when the gold answer, the evidence sessions and the evidence marks are removed from it.\<close>

theorem labels_never_leak:
  assumes "ig_strip_labels (rf_ingest cfg)"
  shows "blind_phases cfg hs inst = blind_phases cfg hs (unlabel inst)"
proof -
  have "ingest_phase cfg hs (unlabel inst) = ingest_phase cfg hs inst"
    by (rule ext) (simp add: ingest_phase_def unlabel_def ingest_unlabel [OF assms])
  moreover have "settle_phase cfg hs (unlabel inst) = settle_phase cfg hs inst"
    by (simp add: settle_phase_def unlabel_def)
  moreover have "retrieval_phase cfg hs (unlabel inst) = retrieval_phase cfg hs inst"
    by (simp add: retrieval_phase_def unlabel_def)
  moreover have "answer_phase cfg hs (unlabel inst) = answer_phase cfg hs inst"
    by (rule ext) (simp add: answer_phase_def unlabel_def)
  ultimately show ?thesis by (simp add: blind_phases_def unlabel_def)
qed

subsection \<open>Splitting into writes\<close>

lemma pairs_concat: "concat (pairs_of xs) = xs"
  by (induction xs rule: pairs_of.induct) simp_all

lemma pairs_size: "p \<in> set (pairs_of xs) \<Longrightarrow> p \<noteq> [] \<and> length p \<le> 2"
  by (induction xs rule: pairs_of.induct) auto

definition system_part :: "message list \<Rightarrow> message list" where
  "system_part msgs = filter (\<lambda>m. role_of m = PStr ''system'') msgs"

definition body_part :: "message list \<Rightarrow> message list" where
  "body_part msgs = filter (\<lambda>m. role_of m \<noteq> PStr ''system'') msgs"


subsection \<open>The protocol of an instance\<close>

text \<open>The harness's own events, by type: those without a \<open>source\<close>.\<close>

definition harness_kinds :: "pyval dict list \<Rightarrow> pyval list" where
  "harness_kinds evs = map (\<lambda>e. vget e ''event_type'') (filter (\<lambda>e. \<not> dhas e ''source'') evs)"

definition ctx_ok :: "'w runner \<Rightarrow> bool" where
  "ctx_ok rn \<longleftrightarrow> dict_ok (rn_ctx rn) \<and> \<not> dhas (rn_ctx rn) ''source'' \<and> \<not> dhas (rn_ctx rn) ''event_type'' \<and>
     dict_ok (rn_timings rn) \<and> \<not> dhas (rn_timings rn) ''source'' \<and> \<not> dhas (rn_timings rn) ''event_type''"

text \<open>An action writes the harness events \<open>ks\<close> when it returns and a prefix of them when it raises; it leaves the
  tally alone.\<close>

definition writes_events :: "pyval list \<Rightarrow> ('w, 'a) action \<Rightarrow> bool" where
  "writes_events ks m \<longleftrightarrow> (\<forall>rn r rn'. m rn = Some (r, rn') \<longrightarrow> ctx_ok rn \<longrightarrow>
     ctx_ok rn' \<and> rn_instances rn' = rn_instances rn \<and> rn_correct rn' = rn_correct rn \<and> rn_errors rn' = rn_errors rn \<and>
     (\<exists>new. rn_log rn' = rn_log rn @ new \<and>
        (case r of Inr x \<Rightarrow> harness_kinds new = ks | Inl e \<Rightarrow> prefix (harness_kinds new) ks)))"

lemma writes_eventsD:
  assumes "writes_events ks m" "m rn = Some (r, rn')" "ctx_ok rn"
  obtains new where "ctx_ok rn'" "rn_instances rn' = rn_instances rn" "rn_correct rn' = rn_correct rn"
    "rn_errors rn' = rn_errors rn" "rn_log rn' = rn_log rn @ new"
    "case r of Inr x \<Rightarrow> harness_kinds new = ks | Inl e \<Rightarrow> prefix (harness_kinds new) ks"
  using assms unfolding writes_events_def by blast

lemma harness_kinds_append [simp]: "harness_kinds (a @ b) = harness_kinds a @ harness_kinds b"
  by (simp add: harness_kinds_def)

lemma writes_ret: "writes_events [] (ret x)"
  by (auto simp: writes_events_def ret_def harness_kinds_def)

lemma writes_raises: "writes_events [] (lift_raises r)"
  by (auto simp: writes_events_def lift_raises_def harness_kinds_def split: sum.splits)

lemma writes_bind:
  assumes "writes_events ks m" "\<And>x. writes_events ks' (f x)"
  shows "writes_events (ks @ ks') (bindA m f)"
  unfolding writes_events_def
proof (intro allI impI)
  fix rn r rn2 assume run: "bindA m f rn = Some (r, rn2)" and ok: "ctx_ok rn"
  obtain q rn1 where m: "m rn = Some (q, rn1)" using run by (auto simp: bindA_def split: option.splits)
  obtain a where a: "ctx_ok rn1" "rn_instances rn1 = rn_instances rn" "rn_correct rn1 = rn_correct rn"
    "rn_errors rn1 = rn_errors rn" "rn_log rn1 = rn_log rn @ a"
    "case q of Inr x \<Rightarrow> harness_kinds a = ks | Inl e \<Rightarrow> prefix (harness_kinds a) ks"
    by (rule writes_eventsD [OF assms(1) m ok])
  show "ctx_ok rn2 \<and> rn_instances rn2 = rn_instances rn \<and> rn_correct rn2 = rn_correct rn \<and> rn_errors rn2 = rn_errors rn \<and>
     (\<exists>new. rn_log rn2 = rn_log rn @ new \<and>
        (case r of Inr x \<Rightarrow> harness_kinds new = ks @ ks' | Inl e \<Rightarrow> prefix (harness_kinds new) (ks @ ks')))"
  proof (cases q)
    case (Inl e)
    then have "r = Inl e" "rn2 = rn1" using run m by (auto simp: bindA_def)
    then show ?thesis using a Inl by auto
  next
    case (Inr x)
    then have f: "f x rn1 = Some (r, rn2)" using run m by (simp add: bindA_def)
    obtain b where b: "ctx_ok rn2" "rn_instances rn2 = rn_instances rn1" "rn_correct rn2 = rn_correct rn1"
      "rn_errors rn2 = rn_errors rn1" "rn_log rn2 = rn_log rn1 @ b"
      "case r of Inr x \<Rightarrow> harness_kinds b = ks' | Inl e \<Rightarrow> prefix (harness_kinds b) ks'"
      by (rule writes_eventsD [OF assms(2) f a(1)])
    show ?thesis using a b Inr by (intro conjI exI [of _ "a @ b"]) (auto split: sum.splits)
  qed
qed

lemma writes_bind0: "writes_events [] m \<Longrightarrow> (\<And>x. writes_events ks (f x)) \<Longrightarrow> writes_events ks (bindA m f)"
  using writes_bind [of "[]" m ks f] by simp

lemma writes_world: "writes_events [] (in_world f)"
  by (auto simp: writes_events_def in_world_def ctx_ok_def harness_kinds_def split: prod.splits sum.splits)

lemma writes_reading: "writes_events [] (reading f)"
  unfolding reading_def by (rule writes_world)

lemma writes_elapsed: "writes_events [] (elapsed hs t0)"
  unfolding elapsed_def by (intro writes_bind0 writes_reading writes_ret)

lemma writes_timing: "k \<noteq> ''source'' \<Longrightarrow> k \<noteq> ''event_type'' \<Longrightarrow> writes_events [] (set_timing k v)"
  by (auto simp: writes_events_def set_timing_def modify_def ctx_ok_def dhas_def harness_kinds_def)

lemma writes_ctx: "(\<And>c. dict_ok c \<Longrightarrow> dict_ok (g c)) \<Longrightarrow> (\<And>c. dhas (g c) ''source'' \<Longrightarrow> dhas c ''source'') \<Longrightarrow>
   (\<And>c. dhas (g c) ''event_type'' \<Longrightarrow> dhas c ''event_type'') \<Longrightarrow>
   writes_events [] (modify (\<lambda>rn. rn\<lparr>rn_ctx := g (rn_ctx rn)\<rparr>))"
  by (auto simp: writes_events_def modify_def ctx_ok_def harness_kinds_def)

lemma adapter_events_silent: "ctx_ok rn \<Longrightarrow> harness_kinds (map (adapter_event cfg (rn_ctx rn)) evs) = []"
proof -
  assume c: "ctx_ok rn"
  have "dhas (adapter_event cfg (rn_ctx rn) e) ''source''" for e
  proof -
    have "''source'' \<in> fst ` set (adapter_event cfg (rn_ctx rn) e)" by (simp add: adapter_event_def)
    then show ?thesis by (simp add: dhas_def map_of_eq_None_iff)
  qed
  then show ?thesis by (simp add: harness_kinds_def filter_empty_conv)
qed

lemma writes_adapter: "writes_events [] (with_adapter cfg f)"
  by (auto simp: writes_events_def with_adapter_def absorb_def ctx_ok_def adapter_events_silent [unfolded ctx_ok_def]
      split: prod.splits sum.splits)

lemma writes_waiting: "writes_events [] (waiting cfg hs sid)"
  by (auto simp: writes_events_def waiting_def absorb_def ctx_ok_def adapter_events_silent [unfolded ctx_ok_def]
      split: prod.splits sum.splits option.splits)

lemma emitted_kind:
  assumes "ctx_ok rn" "\<not> dhas flds ''source''" "\<not> dhas flds ''event_type''"
  shows "harness_kinds [dupdate (dupdate (event_base cfg k stamp) (rn_ctx rn)) flds] = [PStr k]"
proof -
  have n: "''source'' \<notin> fst ` set (rn_ctx rn)" "''event_type'' \<notin> fst ` set (rn_ctx rn)"
    "''source'' \<notin> fst ` set flds" "''event_type'' \<notin> fst ` set flds"
    using assms by (simp_all add: ctx_ok_def dhas_def map_of_eq_None_iff)
  have "''source'' \<notin> fst ` set (dupdate (dupdate (event_base cfg k stamp) (rn_ctx rn)) flds)"
    using n by (simp add: event_base_def)
  moreover have "dget (dupdate (dupdate (event_base cfg k stamp) (rn_ctx rn)) flds) ''event_type'' = Some (PStr k)"
    using n by (simp add: dget_dupdate_notin event_base_def)
  ultimately show ?thesis by (simp add: harness_kinds_def dhas_def vget_def map_of_eq_None_iff)
qed

lemma writes_emit:
  assumes "\<not> dhas flds ''source''" "\<not> dhas flds ''event_type''"
  shows "writes_events [PStr k] (emit_event cfg hs k flds)"
proof -
  have "writes_events [PStr k] (modify (\<lambda>rn. rn\<lparr>rn_log := rn_log rn @
         [dupdate (dupdate (event_base cfg k stamp) (rn_ctx rn)) flds]\<rparr>))" for stamp
    using emitted_kind [OF _ assms] by (auto simp: writes_events_def modify_def ctx_ok_def)
  then show ?thesis unfolding emit_event_def by (intro writes_bind0 writes_reading)
qed

lemmas writes_intros = writes_bind0 writes_ret writes_raises writes_world writes_reading writes_elapsed
  writes_adapter writes_waiting

lemma writes_for_each: "(\<And>x. writes_events [] (f x)) \<Longrightarrow> writes_events [] (for_each f xs)"
  by (induction xs) (simp_all add: writes_ret writes_bind0)

lemma writes_ingest_session: "writes_events [] (ingest_session cfg hs sid s)"
proof -
  have "writes_events [] (modify (\<lambda>rn. rn\<lparr>rn_ctx := dset ''lme_session_id'' (PStr (ss_id s)) (rn_ctx rn)\<rparr>))"
    by (rule writes_ctx) (auto simp: dhas_def)
  then show ?thesis unfolding ingest_session_def write_one_def
    by (intro writes_intros writes_for_each) (simp_all split: if_split, intro conjI impI writes_intros)
qed

lemma writes_ingest_all: "writes_events [] (ingest_all cfg hs sid ss n)"
  by (induction ss arbitrary: n) (simp_all add: writes_ret writes_bind0 writes_ingest_session)

lemma writes_ingest_phase: "writes_events [PStr ''INGEST_END''] (ingest_phase cfg hs inst)"
proof -
  have "writes_events [] (modify (\<lambda>rn. rn\<lparr>rn_ctx := dpop ''lme_session_id'' (rn_ctx rn)\<rparr>))"
    by (rule writes_ctx) (auto simp: dhas_def split: if_split_asm)
  then show ?thesis unfolding ingest_phase_def
    by (intro writes_intros writes_ingest_all writes_timing writes_emit) (simp_all add: dhas_def)
qed

lemma writes_settle_phase: "writes_events [] (settle_phase cfg hs inst)"
  unfolding settle_phase_def
  by (intro writes_intros writes_timing; (simp split: if_split)?; intro conjI impI writes_intros)

lemma writes_emit_ret:
  assumes "\<not> dhas flds ''source''" "\<not> dhas flds ''event_type''"
  shows "writes_events [PStr k] (bindA (emit_event cfg hs k flds) (\<lambda>_. ret x))"
  using writes_bind [OF writes_emit [OF assms] writes_ret] by simp

lemma writes_emit_then:
  assumes "\<not> dhas flds ''source''" "\<not> dhas flds ''event_type''" "writes_events ks m"
  shows "writes_events (PStr k # ks) (bindA (emit_event cfg hs k flds) (\<lambda>_. m))"
  using writes_bind [OF writes_emit [OF assms(1,2)] assms(3)] by simp

lemma writes_retrieval_phase: "writes_events [PStr ''CONTEXT''] (retrieval_phase cfg hs inst)"
  unfolding retrieval_phase_def
  by (intro writes_intros writes_timing writes_emit_ret) (simp_all add: dhas_def)

lemma writes_answer_phase: "writes_events [PStr ''ANSWER_START'', PStr ''ANSWER_END''] (answer_phase cfg hs inst rr)"
  unfolding answer_phase_def
  by (intro writes_emit_then writes_intros writes_timing writes_emit_ret) (simp_all add: dhas_def answer_fields_def)

lemma writes_judge_phase: "writes_events [PStr ''JUDGE_START'', PStr ''JUDGE_END''] (judge_phase cfg hs inst rd)"
  unfolding judge_phase_def
  by (intro writes_emit_then writes_intros writes_timing writes_emit_ret) (simp_all add: dhas_def verdict_fields_def)

definition BLIND_EVENTS :: "pyval list" where
  "BLIND_EVENTS = map PStr [''INGEST_END'', ''CONTEXT'', ''ANSWER_START'', ''ANSWER_END'']"

definition PHASE_EVENTS :: "pyval list" where
  "PHASE_EVENTS = BLIND_EVENTS @ map PStr [''JUDGE_START'', ''JUDGE_END'']"

lemma writes_blind: "writes_events BLIND_EVENTS (blind_phases cfg hs inst)"
proof -
  have "writes_events ([PStr ''INGEST_END''] @ [PStr ''CONTEXT''] @ [PStr ''ANSWER_START'', PStr ''ANSWER_END''] @ [])
      (blind_phases cfg hs inst)"
    unfolding blind_phases_def
    by (intro writes_bind0 writes_adapter writes_bind [OF writes_ingest_phase] writes_settle_phase
        writes_bind [OF writes_retrieval_phase] writes_bind [OF writes_answer_phase] writes_ret)
  then show ?thesis by (simp add: BLIND_EVENTS_def)
qed

lemma writes_judged: "writes_events PHASE_EVENTS (bindA (blind_phases cfg hs inst) (\<lambda>(settled, rd).
     bindA (judge_phase cfg hs inst rd) (\<lambda>v. ret (settled, v))))"
proof -
  have j: "writes_events [PStr ''JUDGE_START'', PStr ''JUDGE_END''] (bindA (judge_phase cfg hs inst rd) (\<lambda>v. ret (a, v)))" for rd a
    using writes_bind [OF writes_judge_phase writes_ret] by simp
  have "writes_events (BLIND_EVENTS @ [PStr ''JUDGE_START'', PStr ''JUDGE_END''])
      (bindA (blind_phases cfg hs inst) (\<lambda>(settled, rd). bindA (judge_phase cfg hs inst rd) (\<lambda>v. ret (settled, v))))"
    by (intro writes_bind [OF writes_blind]) (simp add: j split: prod.splits)
  then show ?thesis by (simp add: PHASE_EVENTS_def)
qed

lemma bindA_assoc: "bindA (bindA m f) g = bindA m (\<lambda>x. bindA (f x) g)"
  by (rule ext) (simp add: bindA_def split: option.splits sum.splits prod.splits)

lemma bindA_ret: "bindA (ret x) f = f x"
  by (rule ext) (simp add: bindA_def ret_def)

lemma reading_run:
  obtains x w where "reading f rn = Some (Inr x, rn\<lparr>rn_adapter := (rn_adapter rn)\<lparr>ad_world := w\<rparr>\<rparr>)"
proof (cases "f (ad_world (rn_adapter rn))")
  case (Pair x w)
  then show ?thesis using that [of x w] by (simp add: reading_def in_world_def)
qed

lemma emit_event_run:
  obtains stamp w where "emit_event cfg hs k flds rn = Some (Inr (), rn\<lparr>rn_adapter := (rn_adapter rn)\<lparr>ad_world := w\<rparr>,
   rn_log := rn_log rn @ [dupdate (dupdate (event_base cfg k stamp) (rn_ctx rn)) flds]\<rparr>)"
proof -
  obtain x w where "reading (hk_stamp (hs_hooks hs)) rn = Some (Inr x, rn\<lparr>rn_adapter := (rn_adapter rn)\<lparr>ad_world := w\<rparr>\<rparr>)"
    by (rule reading_run)
  then show ?thesis using that [of x w] by (simp add: emit_event_def bindA_def modify_def)
qed

text \<open>The events of the end of an instance are always written.\<close>

lemma emit_total:
  assumes "ctx_ok rn" "\<not> dhas flds ''source''" "\<not> dhas flds ''event_type''"
  obtains rn' new where "emit_event cfg hs k flds rn = Some (Inr (), rn')" "ctx_ok rn'" "rn_log rn' = rn_log rn @ new"
    "harness_kinds new = [PStr k]" "rn_instances rn' = rn_instances rn" "rn_correct rn' = rn_correct rn"
    "rn_errors rn' = rn_errors rn" "rn_ctx rn' = rn_ctx rn"
proof -
  obtain stamp w where e: "emit_event cfg hs k flds rn = Some (Inr (), rn\<lparr>rn_adapter := (rn_adapter rn)\<lparr>ad_world := w\<rparr>,
   rn_log := rn_log rn @ [dupdate (dupdate (event_base cfg k stamp) (rn_ctx rn)) flds]\<rparr>)"
    by (rule emit_event_run)
  show ?thesis by (rule that [OF e]) (use assms(1) emitted_kind [OF assms] in \<open>simp_all add: ctx_ok_def\<close>)
qed

lemma instance_end_total:
  assumes "ctx_ok rn" "\<not> dhas (head @ mid) ''source''" "\<not> dhas (head @ mid) ''event_type''"
  obtains rn' new where "instance_end cfg hs t0 head mid rn = Some (Inr (), rn')" "ctx_ok rn'"
    "rn_log rn' = rn_log rn @ new" "harness_kinds new = [PStr ''INSTANCE_END'']"
    "rn_instances rn' = rn_instances rn" "rn_correct rn' = rn_correct rn" "rn_errors rn' = rn_errors rn"
proof -
  obtain t w where r: "reading (hk_perf (hs_hooks hs)) rn = Some (Inr t, rn\<lparr>rn_adapter := (rn_adapter rn)\<lparr>ad_world := w\<rparr>\<rparr>)"
    by (rule reading_run)
  let ?rn = "rn\<lparr>rn_adapter := (rn_adapter rn)\<lparr>ad_world := w\<rparr>\<rparr>"
  let ?f = "dupdate (head @ mid @ [(''total_ms'', ms (Some t0) (Some t))]) (rn_timings ?rn)"
  have ok: "ctx_ok ?rn" using assms(1) by (simp add: ctx_ok_def)
  have keys: "\<not> dhas ?f ''source''" "\<not> dhas ?f ''event_type''"
    using assms by (simp_all add: ctx_ok_def dhas_def map_of_eq_None_iff image_Un)
  obtain rn' new where e: "emit_event cfg hs ''INSTANCE_END'' ?f ?rn = Some (Inr (), rn')" "ctx_ok rn'"
    "rn_log rn' = rn_log ?rn @ new" "harness_kinds new = [PStr ''INSTANCE_END'']"
    "rn_instances rn' = rn_instances ?rn" "rn_correct rn' = rn_correct ?rn" "rn_errors rn' = rn_errors ?rn"
    by (rule emit_total [OF ok keys])
  have "instance_end cfg hs t0 head mid rn = Some (Inr (), rn')"
    using e(1) r by (simp add: instance_end_def elapsed_def bindA_def ret_def)
  then show ?thesis using that e by simp
qed

text \<open>What an instance does once it is started.\<close>

definition instance_try :: "run_config \<Rightarrow> 'w harness \<Rightarrow> lme_instance \<Rightarrow> rat \<Rightarrow> ('w, unit) action" where
  "instance_try cfg hs inst t0 rn =
     (case instance_body cfg hs inst t0 rn of
        Some (Inl e, rn1) \<Rightarrow> if e = CancelledError then Some (Inl e, rn1) else instance_failed cfg hs t0 e rn1
      | other \<Rightarrow> other)"

lemma keys_free:
  "\<not> dhas ([(''correct'', x), (''error'', y)] @ [(''settled'', z)]) ''source''"
  "\<not> dhas ([(''correct'', x), (''error'', y)] @ [(''settled'', z)]) ''event_type''"
  "\<not> dhas [(''phase'', x), (''error_type'', y), (''error_message'', z)] ''source''"
  "\<not> dhas [(''phase'', x), (''error_type'', y), (''error_message'', z)] ''event_type''"
  "\<not> dhas ([(''correct'', x), (''error'', y)] @ []) ''source''"
  "\<not> dhas ([(''correct'', x), (''error'', y)] @ []) ''event_type''"
  by (simp_all add: dhas_def)

lemma instance_body_cases:
  assumes "instance_body cfg hs inst t0 rn = Some (r, rn')" "ctx_ok rn"
  obtains (ok) new b where "r = Inr ()" "ctx_ok rn'" "rn_log rn' = rn_log rn @ new"
    "harness_kinds new = PHASE_EVENTS @ [PStr ''INSTANCE_END'']" "rn_instances rn' = rn_instances rn + 1"
    "rn_errors rn' = rn_errors rn" "rn_correct rn' = rn_correct rn + (if b then 1 else 0)"
  | (failed) e new where "r = Inl e" "ctx_ok rn'" "rn_log rn' = rn_log rn @ new" "prefix (harness_kinds new) PHASE_EVENTS"
    "rn_instances rn' = rn_instances rn" "rn_errors rn' = rn_errors rn" "rn_correct rn' = rn_correct rn"
proof -
  let ?m = "bindA (blind_phases cfg hs inst) (\<lambda>(settled, rd). bindA (judge_phase cfg hs inst rd) (\<lambda>v. ret (settled, v)))"
  let ?rest = "\<lambda>(settled, v). bindA (modify (\<lambda>rn. rn\<lparr>rn_instances := rn_instances rn + 1,
         rn_correct := rn_correct rn + (if vd_correct v then 1 else 0)\<rparr>)) (\<lambda>_.
       instance_end cfg hs t0 [(''correct'', PBool (vd_correct v)), (''error'', PNone)] [(''settled'', settled)])"
  have split: "instance_body cfg hs inst t0 = bindA ?m ?rest"
    by (simp add: instance_body_def bindA_assoc bindA_ret split_def)
  obtain q rn1 where m: "?m rn = Some (q, rn1)" using assms(1) unfolding split by (auto simp: bindA_def split: option.splits)
  obtain a where a: "ctx_ok rn1" "rn_instances rn1 = rn_instances rn" "rn_correct rn1 = rn_correct rn"
    "rn_errors rn1 = rn_errors rn" "rn_log rn1 = rn_log rn @ a"
    "case q of Inr x \<Rightarrow> harness_kinds a = PHASE_EVENTS | Inl e \<Rightarrow> prefix (harness_kinds a) PHASE_EVENTS"
    by (rule writes_eventsD [OF writes_judged m assms(2)])
  show ?thesis
  proof (cases q)
    case (Inl e)
    then have "r = Inl e" "rn' = rn1" using assms(1) m unfolding split by (simp_all add: bindA_def)
    then show ?thesis using failed a Inl by simp
  next
    case (Inr x)
    obtain settled v where x: "x = (settled, v)" by fastforce
    let ?rn = "rn1\<lparr>rn_instances := rn_instances rn1 + 1, rn_correct := rn_correct rn1 + (if vd_correct v then 1 else 0)\<rparr>"
    have ok1: "ctx_ok ?rn" using a(1) by (simp add: ctx_ok_def)
    obtain rn2 new where e: "instance_end cfg hs t0 [(''correct'', PBool (vd_correct v)), (''error'', PNone)]
        [(''settled'', settled)] ?rn = Some (Inr (), rn2)" "ctx_ok rn2"
      "rn_log rn2 = rn_log ?rn @ new" "harness_kinds new = [PStr ''INSTANCE_END'']"
      "rn_instances rn2 = rn_instances ?rn" "rn_correct rn2 = rn_correct ?rn" "rn_errors rn2 = rn_errors ?rn"
      by (rule instance_end_total [OF ok1 keys_free(1,2)])
    have "r = Inr ()" "rn' = rn2" using assms(1) m e(1) Inr x unfolding split by (simp_all add: bindA_def modify_def)
    then show ?thesis using ok [of "a @ new" "vd_correct v"] e a Inr by simp
  qed
qed

lemma instance_failed_cases:
  assumes "instance_failed cfg hs t0 e rn = Some (r, rn')" "ctx_ok rn"
  obtains new where "r = (if rf_on_error cfg = ''abort'' then Inl e else Inr ())" "ctx_ok rn'"
    "rn_log rn' = rn_log rn @ new" "harness_kinds new = [PStr ''ERROR'', PStr ''INSTANCE_END'']"
    "rn_instances rn' = rn_instances rn + 1" "rn_errors rn' = rn_errors rn + 1" "rn_correct rn' = rn_correct rn"
proof -
  let ?rn = "rn\<lparr>rn_instances := rn_instances rn + 1, rn_errors := rn_errors rn + 1\<rparr>"
  have ok: "ctx_ok ?rn" using assms(2) by (simp add: ctx_ok_def)
  obtain rn1 a where e: "emit_event cfg hs ''ERROR'' [(''phase'', PStr ''instance''), (''error_type'', PStr (exc_name e)),
       (''error_message'', PStr (py_take 4000 (exc_text e)))] ?rn = Some (Inr (), rn1)" "ctx_ok rn1"
    "rn_log rn1 = rn_log ?rn @ a" "harness_kinds a = [PStr ''ERROR'']"
    "rn_instances rn1 = rn_instances ?rn" "rn_correct rn1 = rn_correct ?rn" "rn_errors rn1 = rn_errors ?rn"
    by (rule emit_total [OF ok keys_free(3,4)])
  obtain rn2 b where f: "instance_end cfg hs t0 [(''correct'', PNone), (''error'', PStr (exc_name e))] [] rn1 = Some (Inr (), rn2)"
    "ctx_ok rn2" "rn_log rn2 = rn_log rn1 @ b" "harness_kinds b = [PStr ''INSTANCE_END'']"
    "rn_instances rn2 = rn_instances rn1" "rn_correct rn2 = rn_correct rn1" "rn_errors rn2 = rn_errors rn1"
    by (rule instance_end_total [OF e(2) keys_free(5,6)])
  have "r = (if rf_on_error cfg = ''abort'' then Inl e else Inr ())" "rn' = rn2"
    using assms(1) e(1) f(1) by (auto simp: instance_failed_def bindA_def modify_def lift_raises_def ret_def split: if_splits)
  then show ?thesis using that [of "a @ b"] e f by simp
qed

lemma instance_cases:
  assumes "run_instance cfg hs inst position rn = Some (r, rn')"
  shows "\<exists>new k e b. rn_log rn' = rn_log rn @ new \<and> rn_ctx rn' = [] \<and>
    ((r = Inr () \<and> harness_kinds new = PStr ''INSTANCE_START'' # PHASE_EVENTS @ [PStr ''INSTANCE_END''] \<and>
        rn_instances rn' = rn_instances rn + 1 \<and> rn_errors rn' = rn_errors rn \<and>
        rn_correct rn' = rn_correct rn + (if b then 1 else 0)) \<or>
     (r = (if rf_on_error cfg = ''abort'' then Inl e else Inr ()) \<and> e \<noteq> CancelledError \<and>
        harness_kinds new = PStr ''INSTANCE_START'' # take k PHASE_EVENTS @ [PStr ''ERROR'', PStr ''INSTANCE_END''] \<and>
        rn_instances rn' = rn_instances rn + 1 \<and> rn_errors rn' = rn_errors rn + 1 \<and> rn_correct rn' = rn_correct rn) \<or>
     (r = Inl CancelledError \<and> harness_kinds new = PStr ''INSTANCE_START'' # take k PHASE_EVENTS \<and>
        rn_instances rn' = rn_instances rn \<and> rn_errors rn' = rn_errors rn \<and> rn_correct rn' = rn_correct rn))"
proof -
  let ?ctx = "[(''question_id'', PStr (in_id inst)), (''question_type'', PStr (in_type inst)),
       (''position'', PInt (int position))]"
  let ?rn0 = "rn\<lparr>rn_ctx := ?ctx, rn_timings := []\<rparr>"
  obtain t0 w where t0: "reading (hk_perf (hs_hooks hs)) ?rn0 =
      Some (Inr t0, ?rn0\<lparr>rn_adapter := (rn_adapter ?rn0)\<lparr>ad_world := w\<rparr>\<rparr>)"
    by (rule reading_run)
  let ?rn1 = "?rn0\<lparr>rn_adapter := (rn_adapter ?rn0)\<lparr>ad_world := w\<rparr>\<rparr>"
  have ok1: "ctx_ok ?rn1" by (simp add: ctx_ok_def dhas_def)
  have keys: "\<not> dhas (start_fields inst) ''source''" "\<not> dhas (start_fields inst) ''event_type''"
    by (simp_all add: start_fields_def dhas_def)
  obtain rn2 a where e: "emit_event cfg hs ''INSTANCE_START'' (start_fields inst) ?rn1 = Some (Inr (), rn2)" "ctx_ok rn2"
    "rn_log rn2 = rn_log ?rn1 @ a" "harness_kinds a = [PStr ''INSTANCE_START'']"
    "rn_instances rn2 = rn_instances ?rn1" "rn_correct rn2 = rn_correct ?rn1" "rn_errors rn2 = rn_errors ?rn1"
    by (rule emit_total [OF ok1 keys])
  have run: "run_instance cfg hs inst position rn = (case instance_try cfg hs inst t0 rn2 of
      None \<Rightarrow> None | Some (r, rn2) \<Rightarrow> Some (r, rn2\<lparr>rn_ctx := []\<rparr>))"
    using t0 e(1) by (simp add: run_instance_def instance_try_def bindA_def modify_def)
  then obtain rn3 where tr: "instance_try cfg hs inst t0 rn2 = Some (r, rn3)" and rn': "rn' = rn3\<lparr>rn_ctx := []\<rparr>"
    using assms by (auto split: option.splits)
  then obtain q rn4 where body: "instance_body cfg hs inst t0 rn2 = Some (q, rn4)"
    by (auto simp: instance_try_def split: option.splits)
  from body e(2) show ?thesis
  proof (cases rule: instance_body_cases)
    case (ok new b)
    then have "r = Inr ()" "rn3 = rn4" using tr body by (simp_all add: instance_try_def)
    then show ?thesis using ok e rn' by (intro exI [of _ "a @ new"] exI [of _ 0] exI [of _ TypeError] exI [of _ b]) simp
  next
    case (failed ex new)
    then obtain k where k: "harness_kinds new = take k PHASE_EVENTS" by (metis append_eq_conv_conj prefix_def)
    show ?thesis
    proof (cases "ex = CancelledError")
      case True
      then have "r = Inl CancelledError" "rn3 = rn4" using tr body failed by (simp_all add: instance_try_def)
      then show ?thesis using failed e rn' k
        by (intro exI [of _ "a @ new"] exI [of _ k] exI [of _ TypeError] exI [of _ True]) simp
    next
      case False
      then have f: "instance_failed cfg hs t0 ex rn4 = Some (r, rn3)" using tr body failed by (simp add: instance_try_def)
      obtain b where b: "r = (if rf_on_error cfg = ''abort'' then Inl ex else Inr ())" "ctx_ok rn3"
        "rn_log rn3 = rn_log rn4 @ b" "harness_kinds b = [PStr ''ERROR'', PStr ''INSTANCE_END'']"
        "rn_instances rn3 = rn_instances rn4 + 1" "rn_errors rn3 = rn_errors rn4 + 1" "rn_correct rn3 = rn_correct rn4"
        by (rule instance_failed_cases [OF f failed(2)])
      show ?thesis using b failed e rn' k False
        by (intro exI [of _ "a @ new @ b"] exI [of _ k] exI [of _ ex] exI [of _ True]) simp
    qed
  qed
qed

text \<open>C37: The life of an instance in the trace: \<open>INSTANCE_START\<close> first, then the phases in their order and
  \<open>INSTANCE_END\<close>; when something raises, the phases stop where it happened, an \<open>ERROR\<close> and the \<open>INSTANCE_END\<close> follow,
  and the run goes on unless it aborts on errors; only a cancellation leaves an instance open. Each closed
  instance is counted once, an error once, a correct answer at most once, and the context is cleared.\<close>

theorem instance_protocol:
  assumes "run_instance cfg hs inst position rn = Some (r, rn')"
  shows "\<exists>new k e b. rn_log rn' = rn_log rn @ new \<and> rn_ctx rn' = [] \<and>
    ((r = Inr () \<and> harness_kinds new = PStr ''INSTANCE_START'' # PHASE_EVENTS @ [PStr ''INSTANCE_END''] \<and>
        rn_instances rn' = rn_instances rn + 1 \<and> rn_errors rn' = rn_errors rn \<and>
        rn_correct rn' = rn_correct rn + (if b then 1 else 0)) \<or>
     (r = (if rf_on_error cfg = ''abort'' then Inl e else Inr ()) \<and> e \<noteq> CancelledError \<and>
        harness_kinds new = PStr ''INSTANCE_START'' # take k PHASE_EVENTS @ [PStr ''ERROR'', PStr ''INSTANCE_END''] \<and>
        rn_instances rn' = rn_instances rn + 1 \<and> rn_errors rn' = rn_errors rn + 1 \<and> rn_correct rn' = rn_correct rn) \<or>
     (r = Inl CancelledError \<and> harness_kinds new = PStr ''INSTANCE_START'' # take k PHASE_EVENTS \<and>
        rn_instances rn' = rn_instances rn \<and> rn_errors rn' = rn_errors rn \<and> rn_correct rn' = rn_correct rn))"
  using assms by (rule instance_cases)

subsection \<open>Every run ends\<close>

text \<open>An action goes on when, from an adapter whose canaries are in order, it returns and leaves them in order.\<close>

definition steady :: "('w \<Rightarrow> rat) \<Rightarrow> settle_config \<Rightarrow> 'w runner \<Rightarrow> bool" where
  "steady T c rn \<longleftrightarrow> canaries_inv T (rn_adapter rn) \<and> ad_config (rn_adapter rn) = c"

definition goes_on :: "('w \<Rightarrow> rat) \<Rightarrow> settle_config \<Rightarrow> ('w, 'a) action \<Rightarrow> bool" where
  "goes_on T c m \<longleftrightarrow> (\<forall>rn. steady T c rn \<longrightarrow> (\<exists>r rn'. m rn = Some (r, rn') \<and> steady T c rn'))"

definition forward :: "('w \<Rightarrow> rat) \<Rightarrow> ('w \<Rightarrow> 'a \<times> 'w) \<Rightarrow> bool" where
  "forward T f \<longleftrightarrow> (\<forall>w. T w \<le> T (snd (f w)))"

definition chat_ok :: "'w chat \<Rightarrow> ('w \<Rightarrow> rat) \<Rightarrow> bool" where
  "chat_ok ch T \<longleftrightarrow> forward T (ch_perf ch) \<and> (\<forall>q. forward T (ch_create ch q))"

lemma goes_onD:
  assumes "goes_on T c m" "steady T c rn"
  obtains r rn' where "m rn = Some (r, rn')" "steady T c rn'"
  using assms unfolding goes_on_def by blast

lemma goes_bind:
  assumes "goes_on T c m" "\<And>x. goes_on T c (f x)" shows "goes_on T c (bindA m f)"
  unfolding goes_on_def
proof (intro allI impI)
  fix rn assume s: "steady T c rn"
  obtain r rn1 where m: "m rn = Some (r, rn1)" "steady T c rn1" by (rule goes_onD [OF assms(1) s])
  show "\<exists>r rn'. bindA m f rn = Some (r, rn') \<and> steady T c rn'"
  proof (cases r)
    case (Inl e)
    then show ?thesis using m by (simp add: bindA_def)
  next
    case (Inr x)
    obtain r2 rn2 where "f x rn1 = Some (r2, rn2)" "steady T c rn2" by (rule goes_onD [OF assms(2) m(2)])
    then show ?thesis using m Inr by (simp add: bindA_def)
  qed
qed

lemma goes_ret: "goes_on T c (ret x)" "goes_on T c (lift_raises r)"
  by (simp_all add: goes_on_def ret_def lift_raises_def)

lemma goes_modify: "(\<And>rn. rn_adapter (g rn) = rn_adapter rn) \<Longrightarrow> goes_on T c (modify g)"
  by (simp add: goes_on_def modify_def steady_def)

lemma goes_world:
  assumes "forward T f" shows "goes_on T c (in_world f)"
  unfolding goes_on_def
proof (intro allI impI)
  fix rn :: "'a runner" assume s: "steady T c rn"
  obtain r w where f: "f (ad_world (rn_adapter rn)) = (r, w)" by (rule prod.exhaust)
  have "T (ad_world (rn_adapter rn)) \<le> T (snd (f (ad_world (rn_adapter rn))))"
    using assms unfolding forward_def by blast
  then have "T (ad_world (rn_adapter rn)) \<le> T w" by (simp only: f snd_conv)
  moreover have "canaries_inv T (rn_adapter rn)" using s by (simp add: steady_def)
  ultimately have "canaries_inv T ((rn_adapter rn)\<lparr>ad_world := w\<rparr>)"
    using canaries_inv_later [of T "rn_adapter rn" "(rn_adapter rn)\<lparr>ad_world := w\<rparr>"] by simp
  then show "\<exists>r rn'. in_world f rn = Some (r, rn') \<and> steady T c rn'"
    using s f by (simp add: in_world_def steady_def)
qed

lemma goes_reading: "forward T f \<Longrightarrow> goes_on T c (reading f)"
  unfolding reading_def by (rule goes_world) (simp add: forward_def split_def)

lemma goes_for_each: "(\<And>x. goes_on T c (f x)) \<Longrightarrow> goes_on T c (for_each f xs)"
  by (induction xs) (simp_all add: goes_ret goes_bind)

lemma goes_adapter:
  assumes "\<And>ad. canaries_inv T ad \<Longrightarrow> canaries_inv T (snd (f ad))" "keeps_config f"
  shows "goes_on T c (with_adapter cfg f)"
  unfolding goes_on_def
proof (intro allI impI)
  fix rn :: "'a runner" assume s: "steady T c rn"
  obtain r ad where f: "f (rn_adapter rn) = (r, ad)" by fastforce
  have "canaries_inv T (snd (f (rn_adapter rn)))" "ad_config (snd (f (rn_adapter rn))) = c"
    using assms s unfolding steady_def keeps_config_def by blast+
  then have "canaries_inv T ad" "ad_config ad = c" by (simp_all only: f snd_conv)
  then show "\<exists>r rn'. with_adapter cfg f rn = Some (r, rn') \<and> steady T c rn'"
    by (simp add: with_adapter_def f steady_def absorb_def)
qed

text \<open>The conditions on the harness under which everything goes on.\<close>

definition live :: "'w harness \<Rightarrow> ('w \<Rightarrow> rat) \<Rightarrow> settle_config \<Rightarrow> bool" where
  "live hs T c \<longleftrightarrow> clock_ok (hs_hooks hs) T \<and> chat_ok (hs_chat hs) T \<and> 0 < sc_interval c \<and>
     (\<exists>n. hs_fuel hs = Suc n \<and> sc_timeout c \<le> of_nat n * sc_interval c)"

lemma live_clock:
  assumes "live hs T c" shows "forward T (hk_perf (hs_hooks hs))" "forward T (hk_stamp (hs_hooks hs))"
  using assms by (auto simp: live_def forward_def clock_ok_def) (metis order_trans prod.collapse)+

lemma goes_waiting:
  assumes "live hs T c" shows "goes_on T c (waiting cfg hs sid)"
  unfolding goes_on_def
proof (intro allI impI)
  fix rn :: "'a runner" assume s: "steady T c rn"
  let ?ad = "rn_adapter rn"
  obtain n where n: "hs_fuel hs = Suc n" "sc_timeout c \<le> of_nat n * sc_interval c" "0 < sc_interval c"
    "clock_ok (hs_hooks hs) T" using assms by (auto simp: live_def)
  have "wait_settled (Suc n) (hs_hooks hs) sid None None ?ad \<noteq> None"
    by (rule wait_returns [OF n(4)]) (use n s in \<open>simp_all add: steady_def interval_of_def timeout_of_def\<close>)
  then obtain r ad where w: "wait_settled (hs_fuel hs) (hs_hooks hs) sid None None ?ad = Some (r, ad)"
    by (auto simp: n(1))
  have "canaries_inv T ad" by (rule wait_inv [OF w _ n(4)]) (use n s in \<open>simp_all add: steady_def interval_of_def\<close>)
  moreover have "ad_config ad = c" using keeps_wait [OF w] s by (simp add: steady_def)
  ultimately show "\<exists>r rn'. waiting cfg hs sid rn = Some (r, rn') \<and> steady T c rn'"
    by (simp add: waiting_def w steady_def absorb_def)
qed

lemma forward_bind: "forward T f \<Longrightarrow> (\<And>x. forward T (g x)) \<Longrightarrow> forward T (bindM f g)"
  unfolding forward_def bindM_def
  by (auto split: sum.splits prod.splits) (metis order_trans snd_conv)+

lemma forward_chat: "chat_ok ch T \<Longrightarrow> forward T (chat_complete ch m msgs op sid t k n)"
proof -
  assume ok: "chat_ok ch T"
  have create: "forward T (bindM (ch_create ch q) (\<lambda>c w. let (t1, w2) = ch_perf ch w in (g t1 c, w2)))" for q and g :: "rat \<Rightarrow> completion \<Rightarrow> outcome raises"
    using ok by (intro forward_bind) (simp_all add: chat_ok_def forward_def split_def Let_def)
  have perf: "T w \<le> T (snd (ch_perf ch w))" for w using ok by (simp add: chat_ok_def forward_def)
  have step: "T w \<le> T (snd (bindM (ch_create ch q) (\<lambda>c w. (g (fst (ch_perf ch w)) c, snd (ch_perf ch w))) (snd (ch_perf ch w))))"
    for q w and g :: "rat \<Rightarrow> completion \<Rightarrow> outcome raises"
    using order_trans [OF perf create [unfolded forward_def Let_def split_def, rule_format]] .
  have "T w \<le> T (snd (chat_complete ch m msgs op sid t k n w))" for w
    unfolding chat_complete_def Let_def split_def
    using step [of w _ "\<lambda>t1 c. outcome_of m (ch_sha256 ch (py_join newline (map snd msgs)))
        (ms (Some (fst (ch_perf ch w))) (Some t1)) c"]
    by (simp split: sum.split)
  then show ?thesis by (simp add: forward_def)
qed

lemma forward_answer:
  assumes "chat_ok ch T" shows "forward T (answer ch c context qd q sid hits)"
proof -
  have "forward T (bindM (chat_complete ch m msgs op sid t k n) (\<lambda>out w. (g out, w)))"
    for m msgs op t k n and g :: "outcome \<Rightarrow> reader_result raises"
    by (intro forward_bind forward_chat assms) (simp add: forward_def)
  then show ?thesis unfolding forward_def answer_def by (auto split: sum.split)
qed

lemma forward_judge:
  assumes "chat_ok ch T" shows "forward T (judge ch c qt q gold resp abst sid)"
proof -
  have "forward T (bindM (chat_complete ch m msgs op sid t k n) (\<lambda>out w. (g out, w)))"
    for m msgs op t k n and g :: "outcome \<Rightarrow> verdict raises"
    by (intro forward_bind forward_chat assms) (simp add: forward_def)
  then show ?thesis unfolding forward_def judge_def by (auto split: sum.split)
qed

lemma keeps_write: "keeps_config (write_memory H sid msgs md)"
  unfolding write_memory_def Let_def by (intro keeps_bind keeps_catch keeps_basic)

lemma keeps_reset: "keeps_config (reset H sid)"
  using reset_run unfolding keeps_config_def by (metis prod.collapse)

lemma goes_emit: "live hs T c \<Longrightarrow> goes_on T c (emit_event cfg hs k flds)"
  unfolding emit_event_def by (intro goes_bind goes_reading goes_modify live_clock(2)) simp_all

lemma goes_elapsed: "live hs T c \<Longrightarrow> goes_on T c (elapsed hs t0)"
  unfolding elapsed_def by (intro goes_bind goes_reading goes_ret live_clock(1))

lemma goes_timing: "goes_on T c (set_timing k v)"
  unfolding set_timing_def by (intro goes_modify) simp

lemma goes_write: "live hs T c \<Longrightarrow> goes_on T c (write_one cfg hs sid s msgs)"
  unfolding write_one_def live_def by (intro goes_bind goes_adapter goes_ret keeps_write) (auto intro: quiet_inv [OF quiet_write])

lemma goes_reset: "live hs T c \<Longrightarrow> goes_on T c (with_adapter cfg (reset (hs_hooks hs) sid))"
  unfolding live_def by (intro goes_adapter keeps_reset) (auto intro: reset_inv)

lemma goes_search: "live hs T c \<Longrightarrow> goes_on T c (with_adapter cfg (search (hs_hooks hs) sid q op))"
  unfolding live_def by (intro goes_adapter keeps_search) (auto intro: quiet_inv [OF quiet_search])

lemma goes_answer: "live hs T c \<Longrightarrow> goes_on T c (in_world (answer (hs_chat hs) rc ctx qd q sid hits))"
  unfolding live_def by (intro goes_world forward_answer) simp

lemma goes_judge: "live hs T c \<Longrightarrow> goes_on T c (in_world (judge (hs_chat hs) jc qt q gold resp abst sid))"
  unfolding live_def by (intro goes_world forward_judge) simp

lemmas goes_intros = goes_bind goes_ret goes_reading goes_emit goes_elapsed goes_timing goes_write goes_reset goes_search
  goes_answer goes_judge goes_waiting goes_for_each live_clock

lemma goes_ingest_session: "live hs T c \<Longrightarrow> goes_on T c (ingest_session cfg hs sid s)"
  unfolding ingest_session_def by (auto intro!: goes_intros goes_modify)

lemma goes_ingest_all: "live hs T c \<Longrightarrow> goes_on T c (ingest_all cfg hs sid ss n)"
  by (induction ss arbitrary: n) (simp_all add: goes_ret goes_bind goes_ingest_session)

lemma goes_blind: "live hs T c \<Longrightarrow> goes_on T c (blind_phases cfg hs inst)"
  unfolding blind_phases_def ingest_phase_def settle_phase_def retrieval_phase_def answer_phase_def
  by (auto intro!: goes_intros goes_modify goes_ingest_all)

lemma goes_instance_end: "live hs T c \<Longrightarrow> goes_on T c (instance_end cfg hs t0 head mid)"
  using goes_emit [of hs T c cfg] unfolding instance_end_def by (intro goes_bind goes_elapsed) (auto simp: goes_on_def)

lemma goes_body: "live hs T c \<Longrightarrow> goes_on T c (instance_body cfg hs inst t0)"
  unfolding instance_body_def judge_phase_def split_def
  by (auto intro!: goes_intros goes_modify goes_blind goes_instance_end)

lemma goes_failed: "live hs T c \<Longrightarrow> goes_on T c (instance_failed cfg hs t0 e)"
  unfolding instance_failed_def by (auto intro!: goes_intros goes_modify goes_instance_end)

lemma goes_instance: "live hs T c \<Longrightarrow> goes_on T c (run_instance cfg hs inst pos)"
proof -
  assume live: "live hs T c"
  have try_on: "goes_on T c (instance_try cfg hs inst t0)" for t0
    unfolding goes_on_def
  proof (intro allI impI)
    fix rn assume "steady T c rn"
    then obtain r rn1 where b: "instance_body cfg hs inst t0 rn = Some (r, rn1)" "steady T c rn1"
      by (rule goes_onD [OF goes_body [OF live]])
    show "\<exists>r rn'. instance_try cfg hs inst t0 rn = Some (r, rn') \<and> steady T c rn'"
    proof (cases r)
      case (Inl e)
      obtain r2 rn2 where "instance_failed cfg hs t0 e rn1 = Some (r2, rn2)" "steady T c rn2"
        by (rule goes_onD [OF goes_failed [OF live] b(2)])
      then show ?thesis using b Inl by (simp add: instance_try_def)
    qed (use b in \<open>simp add: instance_try_def\<close>)
  qed
  have fin: "goes_on T c (\<lambda>rn. case instance_try cfg hs inst t0 rn of None \<Rightarrow> None | Some (r, rn2) \<Rightarrow> Some (r, rn2\<lparr>rn_ctx := []\<rparr>))" for t0
    using try_on [of t0] unfolding goes_on_def steady_def by fastforce
  have "run_instance cfg hs inst pos = bindA (modify (\<lambda>rn. rn\<lparr>rn_ctx := [(''question_id'', PStr (in_id inst)),
       (''question_type'', PStr (in_type inst)), (''position'', PInt (int pos))], rn_timings := []\<rparr>)) (\<lambda>_.
     bindA (reading (hk_perf (hs_hooks hs))) (\<lambda>t0. bindA (emit_event cfg hs ''INSTANCE_START'' (start_fields inst)) (\<lambda>_ rn.
       case instance_try cfg hs inst t0 rn of None \<Rightarrow> None | Some (r, rn2) \<Rightarrow> Some (r, rn2\<lparr>rn_ctx := []\<rparr>))))"
    by (simp add: run_instance_def instance_try_def)
  then show ?thesis by (simp only:) (intro goes_bind goes_modify goes_reading goes_emit live live_clock(1) [OF live] fin; simp)
qed

lemma goes_loop: "live hs T c \<Longrightarrow> goes_on T c (run_loop cfg hs completed insts pos)"
proof (induction insts arbitrary: pos)
  case (Cons inst insts)
  have "goes_on T c (\<lambda>rn. if rn_errors rn \<noteq> 0 \<and> rf_on_error cfg = ''abort'' then ret () rn
      else run_loop cfg hs completed insts (Suc pos) rn)"
    using Cons.IH [OF Cons.prems, of "Suc pos"] by (simp add: goes_on_def ret_def)
  then show ?case using Cons by (auto intro!: goes_bind goes_emit goes_instance)
qed (simp add: goes_ret)

lemma goes_run:
  assumes "live hs T c" "steady T c rn"
  shows "\<exists>r rn'. run_instances ratio cfg hs completed insts t0 rn = Some (r, rn')"
proof -
  have fin: "goes_on T c (run_end ratio cfg hs t0)"
  proof -
    have "goes_on T c (bindA (modify (\<lambda>rn. rn\<lparr>rn_ctx := []\<rparr>)) (\<lambda>_. bindA (emit_event cfg hs ''RUN_END'' s) (\<lambda>_. ret s)))" for s
      by (intro goes_bind goes_modify goes_emit assms(1) goes_ret) simp
    then have "goes_on T c (\<lambda>rn. bindA (modify (\<lambda>rn. rn\<lparr>rn_ctx := []\<rparr>)) (\<lambda>_. bindA (emit_event cfg hs ''RUN_END'' (s rn)) (\<lambda>_. ret (s rn))) rn)" for s
      unfolding goes_on_def by blast
    then show ?thesis unfolding run_end_def Let_def
      by (intro goes_bind goes_elapsed goes_reading assms(1) live_clock(2) [OF assms(1)])
  qed
  obtain r rn1 where l: "run_loop cfg hs completed insts 0 rn = Some (r, rn1)" "steady T c rn1"
    by (rule goes_onD [OF goes_loop [OF assms(1)] assms(2)])
  show ?thesis
  proof (cases r)
    case (Inl e)
    have "goes_on T c (bindA (run_end ratio cfg hs t0) (\<lambda>_. lift_raises (Inl e :: pyval dict raises)))"
      by (intro goes_bind fin goes_ret)
    then obtain r2 rn2 where "bindA (run_end ratio cfg hs t0) (\<lambda>_. lift_raises (Inl e :: pyval dict raises)) rn1 = Some (r2, rn2)"
      using l(2) by (rule goes_onD)
    then show ?thesis using l Inl by (simp add: run_instances_def)
  next
    case (Inr x)
    obtain r2 rn2 where "run_end ratio cfg hs t0 rn1 = Some (r2, rn2)" by (rule goes_onD [OF fin l(2)])
    then show ?thesis using l Inr by (simp add: run_instances_def)
  qed
qed

subsection \<open>What a run writes\<close>

definition counted :: "string \<Rightarrow> pyval dict list \<Rightarrow> nat" where
  "counted k evs = count_list (harness_kinds evs) (PStr k)"

text \<open>How an instance appears in the trace, and the events that open or skip one.\<close>

definition opened :: "cell list \<Rightarrow> lme_instance \<Rightarrow> pyval" where
  "opened completed inst = PStr (if (PStr (in_id inst), ''instance'') \<in> set completed then ''CELL_SKIPPED'' else ''INSTANCE_START'')"

definition openings :: "pyval dict list \<Rightarrow> pyval list" where
  "openings evs = filter (\<lambda>k. k \<in> {PStr ''INSTANCE_START'', PStr ''CELL_SKIPPED''}) (harness_kinds evs)"

text \<open>The books of a stretch of the run: the new events against the change of the tally.\<close>

definition balanced :: "pyval dict list \<Rightarrow> 'w runner \<Rightarrow> 'w runner \<Rightarrow> bool" where
  "balanced new rn rn' \<longleftrightarrow>
     rn_instances rn' = rn_instances rn + counted ''INSTANCE_END'' new \<and> rn_errors rn' = rn_errors rn + counted ''ERROR'' new \<and>
     rn_correct rn \<le> rn_correct rn' \<and> rn_correct rn' + counted ''ERROR'' new \<le> rn_correct rn + counted ''INSTANCE_END'' new \<and>
     counted ''RUN_END'' new = 0"

lemma counted_append [simp]: "counted k (a @ b) = counted k a + counted k b"
  by (simp add: counted_def count_list_append)

lemma openings_append [simp]: "openings (a @ b) = openings a @ openings b"
  by (simp add: openings_def)

lemma balanced_trans: "balanced a x y \<Longrightarrow> balanced b y z \<Longrightarrow> balanced (a @ b) x z"
  by (simp add: balanced_def)

lemma phases_quiet:
  "k \<in> {''INSTANCE_START'', ''INSTANCE_END'', ''ERROR'', ''RUN_END'', ''CELL_SKIPPED''} \<Longrightarrow> PStr k \<notin> set (take n PHASE_EVENTS)"
proof -
  assume "k \<in> {''INSTANCE_START'', ''INSTANCE_END'', ''ERROR'', ''RUN_END'', ''CELL_SKIPPED''}"
  then have "PStr k \<notin> set PHASE_EVENTS" by (auto simp: PHASE_EVENTS_def BLIND_EVENTS_def)
  then show ?thesis by (meson in_set_takeD)
qed

lemma phases_count [simp]:
  "count_list (take n PHASE_EVENTS) (PStr ''INSTANCE_START'') = 0" "count_list (take n PHASE_EVENTS) (PStr ''INSTANCE_END'') = 0"
  "count_list (take n PHASE_EVENTS) (PStr ''ERROR'') = 0" "count_list (take n PHASE_EVENTS) (PStr ''RUN_END'') = 0"
  using phases_quiet by (simp_all add: count_list_0_iff)

lemma phases_open [simp]: "filter (\<lambda>k. k = PStr ''INSTANCE_START'' \<or> k = PStr ''CELL_SKIPPED'') (take n PHASE_EVENTS) = []"
  using phases_quiet [of _ n] by (auto simp: filter_empty_conv)

lemmas phases_simps [simp] = phases_count phases_open phases_count [of "length PHASE_EVENTS", simplified]
  phases_open [of "length PHASE_EVENTS", simplified]

lemma instance_books:
  assumes "run_instance cfg hs inst position rn = Some (r, rn')"
  obtains new where "rn_log rn' = rn_log rn @ new" "rn_ctx rn' = []" "balanced new rn rn'"
    "openings new = [PStr ''INSTANCE_START'']"
    "r = Inr () \<or> r = Inl CancelledError \<or> rf_on_error cfg = ''abort''"
    "rf_on_error cfg = ''abort'' \<longrightarrow> r = Inr () \<longrightarrow> rn_errors rn' = rn_errors rn"
proof -
  obtain new k e b where n: "rn_log rn' = rn_log rn @ new" "rn_ctx rn' = []" and c:
    "(r = Inr () \<and> harness_kinds new = PStr ''INSTANCE_START'' # PHASE_EVENTS @ [PStr ''INSTANCE_END''] \<and>
        rn_instances rn' = rn_instances rn + 1 \<and> rn_errors rn' = rn_errors rn \<and>
        rn_correct rn' = rn_correct rn + (if b then 1 else 0)) \<or>
     (r = (if rf_on_error cfg = ''abort'' then Inl e else Inr ()) \<and> e \<noteq> CancelledError \<and>
        harness_kinds new = PStr ''INSTANCE_START'' # take k PHASE_EVENTS @ [PStr ''ERROR'', PStr ''INSTANCE_END''] \<and>
        rn_instances rn' = rn_instances rn + 1 \<and> rn_errors rn' = rn_errors rn + 1 \<and> rn_correct rn' = rn_correct rn) \<or>
     (r = Inl CancelledError \<and> harness_kinds new = PStr ''INSTANCE_START'' # take k PHASE_EVENTS \<and>
        rn_instances rn' = rn_instances rn \<and> rn_errors rn' = rn_errors rn \<and> rn_correct rn' = rn_correct rn)"
    using instance_cases [OF assms] by (elim exE conjE) (rule that; assumption)
  note defs = balanced_def counted_def openings_def count_list_append
  from c show ?thesis
  proof (elim disjE conjE)
    assume k: "r = Inr ()" "harness_kinds new = PStr ''INSTANCE_START'' # PHASE_EVENTS @ [PStr ''INSTANCE_END'']"
      and t: "rn_instances rn' = rn_instances rn + 1" "rn_errors rn' = rn_errors rn" "rn_correct rn' = rn_correct rn + (if b then 1 else 0)"
    show ?thesis by (rule that [OF n]) (simp_all only: defs k t, simp_all add: count_list_append)
  next
    assume k: "r = (if rf_on_error cfg = ''abort'' then Inl e else Inr ())"
        "harness_kinds new = PStr ''INSTANCE_START'' # take k PHASE_EVENTS @ [PStr ''ERROR'', PStr ''INSTANCE_END'']"
      and t: "rn_instances rn' = rn_instances rn + 1" "rn_errors rn' = rn_errors rn + 1" "rn_correct rn' = rn_correct rn"
    show ?thesis by (rule that [OF n]) (simp_all only: defs k t, simp_all add: count_list_append)
  next
    assume k: "r = Inl CancelledError" "harness_kinds new = PStr ''INSTANCE_START'' # take k PHASE_EVENTS"
      and t: "rn_instances rn' = rn_instances rn" "rn_errors rn' = rn_errors rn" "rn_correct rn' = rn_correct rn"
    show ?thesis by (rule that [OF n]) (simp_all only: defs k t, simp_all)
  qed
qed

lemma skip_books:
  assumes "emit_event cfg hs ''CELL_SKIPPED'' flds rn = Some (r, rn')" "rn_ctx rn = []"
    "\<not> dhas flds ''source''" "\<not> dhas flds ''event_type''"
  obtains new where "rn_log rn' = rn_log rn @ new" "rn_ctx rn' = []" "balanced new rn rn'"
    "openings new = [PStr ''CELL_SKIPPED'']" "r = Inr ()" "rn_errors rn' = rn_errors rn"
proof -
  let ?rn = "rn\<lparr>rn_timings := []\<rparr>"
  obtain stamp w where e: "emit_event cfg hs ''CELL_SKIPPED'' flds rn = Some (Inr (), rn\<lparr>rn_adapter := (rn_adapter rn)\<lparr>ad_world := w\<rparr>,
   rn_log := rn_log rn @ [dupdate (dupdate (event_base cfg ''CELL_SKIPPED'' stamp) (rn_ctx rn)) flds]\<rparr>)"
    by (rule emit_event_run)
  have "ctx_ok ?rn" using assms(2) by (simp add: ctx_ok_def dhas_def)
  from emitted_kind [OF this assms(3,4)]
  have k: "harness_kinds [dupdate (dupdate (event_base cfg ''CELL_SKIPPED'' stamp) (rn_ctx rn)) flds] = [PStr ''CELL_SKIPPED'']"
    by simp
  show ?thesis
    by (rule that) (use e assms(1,2) k in \<open>auto simp: balanced_def counted_def openings_def\<close>)
qed

lemma loop_books:
  assumes "run_loop cfg hs completed insts pos rn = Some (r, rn')" "rn_ctx rn = []"
  shows "\<exists>new. rn_log rn' = rn_log rn @ new \<and> rn_ctx rn' = [] \<and> balanced new rn rn' \<and>
     prefix (openings new) (map (opened completed) insts) \<and>
     (r = Inr () \<or> r = Inl CancelledError \<or> rf_on_error cfg = ''abort'') \<and>
     (r = Inr () \<longrightarrow> rf_on_error cfg \<noteq> ''abort'' \<or> rn_errors rn = 0 \<longrightarrow> openings new = map (opened completed) insts)"
  using assms
proof (induction insts arbitrary: pos rn)
  case Nil
  then show ?case by (auto simp: ret_def balanced_def counted_def openings_def harness_kinds_def)
next
  case (Cons inst insts)
  let ?skip = "(PStr (in_id inst), ''instance'') \<in> set completed"
  let ?flds = "[(''question_id'', PStr (in_id inst)), (''phase'', PStr ''instance''), (''reason'', PStr ''completed_exact_resume'')]"
  have step: "\<exists>new. rn_log rn' = rn_log rn @ new \<and> rn_ctx rn' = [] \<and> balanced new rn rn' \<and>
      prefix (openings new) (map (opened completed) (inst # insts)) \<and>
      (r = Inr () \<or> r = Inl CancelledError \<or> rf_on_error cfg = ''abort'') \<and>
      (r = Inr () \<longrightarrow> rf_on_error cfg \<noteq> ''abort'' \<or> rn_errors rn = 0 \<longrightarrow> openings new = map (opened completed) (inst # insts))"
    if a: "rn_log rn1 = rn_log rn @ a" "rn_ctx rn1 = []" "balanced a rn rn1" "openings a = [opened completed inst]"
      and err: "rf_on_error cfg = ''abort'' \<longrightarrow> rn_errors rn1 = rn_errors rn"
      and rest: "run_loop cfg hs completed insts (Suc pos) rn1 = Some (r, rn')" for rn1 a
  proof -
    obtain b where b: "rn_log rn' = rn_log rn1 @ b" "rn_ctx rn' = []" "balanced b rn1 rn'"
      "prefix (openings b) (map (opened completed) insts)" "r = Inr () \<or> r = Inl CancelledError \<or> rf_on_error cfg = ''abort''"
      "r = Inr () \<longrightarrow> rf_on_error cfg \<noteq> ''abort'' \<or> rn_errors rn1 = 0 \<longrightarrow> openings b = map (opened completed) insts"
      using Cons.IH [OF rest a(2)] by (elim exE conjE) (rule that; assumption)
    have l: "rn_log rn' = rn_log rn @ a @ b" using a(1) b(1) by simp
    have p: "prefix (openings (a @ b)) (map (opened completed) (inst # insts))" using a(4) b(4) by simp
    have q: "openings (a @ b) = map (opened completed) (inst # insts)"
      if "r = Inr ()" "rf_on_error cfg \<noteq> ''abort'' \<or> rn_errors rn = 0"
    proof -
      have "rf_on_error cfg \<noteq> ''abort'' \<or> rn_errors rn1 = 0" using that(2) err by (cases "rf_on_error cfg = ''abort''") simp_all
      then have "openings b = map (opened completed) insts" using b(6) that(1) by blast
      then show ?thesis using a(4) by simp
    qed
    show ?thesis using l b(2) balanced_trans [OF a(3) b(3)] p b(5) q by (intro exI [of _ "a @ b"] conjI impI)
  qed
  show ?case
  proof (cases ?skip)
    case True
    obtain r1 rn1 where e: "emit_event cfg hs ''CELL_SKIPPED'' ?flds rn = Some (r1, rn1)"
      using Cons.prems(1) True by (auto simp: bindA_def split: option.splits)
    obtain a where a: "rn_log rn1 = rn_log rn @ a" "rn_ctx rn1 = []" "balanced a rn rn1"
      "openings a = [PStr ''CELL_SKIPPED'']" "r1 = Inr ()" "rn_errors rn1 = rn_errors rn"
      by (rule skip_books [OF e Cons.prems(2)]) (simp_all add: dhas_def)
    show ?thesis
      by (rule step [OF a(1-3)]) (use a e Cons.prems(1) True in \<open>simp_all add: opened_def bindA_def\<close>)
  next
    case False
    obtain r1 rn1 where e: "run_instance cfg hs inst pos rn = Some (r1, rn1)"
      using Cons.prems(1) False by (auto simp: bindA_def split: option.splits)
    obtain a where a: "rn_log rn1 = rn_log rn @ a" "rn_ctx rn1 = []" "balanced a rn rn1"
      "openings a = [PStr ''INSTANCE_START'']" "r1 = Inr () \<or> r1 = Inl CancelledError \<or> rf_on_error cfg = ''abort''"
      "rf_on_error cfg = ''abort'' \<longrightarrow> r1 = Inr () \<longrightarrow> rn_errors rn1 = rn_errors rn"
      by (rule instance_books [OF e])
    have o: "openings a = [opened completed inst]" using a(4) False by (simp add: opened_def)
    consider (fail) ex where "r1 = Inl ex" "r = Inl ex" "rn' = rn1" | (stop) "r1 = Inr ()" "r = Inr ()" "rn' = rn1" "rf_on_error cfg = ''abort''" "rn_errors rn1 \<noteq> 0"
      | (go) "r1 = Inr ()" "run_loop cfg hs completed insts (Suc pos) rn1 = Some (r, rn')"
    proof (cases r1)
      case (Inl ex)
      then have "Some (Inl ex, rn1) = Some (r, rn')" using Cons.prems(1) False e by (simp add: bindA_def)
      then have "r = Inl ex" "rn' = rn1" by simp_all
      then show ?thesis by (rule fail [OF Inl])
    next
      case (Inr u)
      then have n: "(if rn_errors rn1 \<noteq> 0 \<and> rf_on_error cfg = ''abort'' then ret () rn1
          else run_loop cfg hs completed insts (Suc pos) rn1) = Some (r, rn')"
        using Cons.prems(1) False e by (simp add: bindA_def)
      have u: "r1 = Inr ()" using Inr by simp
      show ?thesis
      proof (cases "rn_errors rn1 \<noteq> 0 \<and> rf_on_error cfg = ''abort''")
        case True
        then have "Some (Inr (), rn1) = Some (r, rn')" using n by (simp add: ret_def)
        then have "r = Inr ()" "rn' = rn1" by simp_all
        then show ?thesis using True by (intro stop [OF u]) simp_all
      next
        case False
        then show ?thesis using n by (intro go [OF u]) (simp only: if_False)
      qed
    qed
    then show ?thesis
    proof cases
      case fail
      then show ?thesis using a(1-3,5) o by (intro exI [of _ a]) auto
    next
      case stop
      then have "rn_errors rn \<noteq> 0" using a(6) by simp
      then show ?thesis using stop a(1-3) o by (intro exI [of _ a]) auto
    next
      case go
      then show ?thesis using a(6) by (intro step [OF a(1-3) o]) simp_all
    qed
  qed
qed

lemma run_end_books:
  assumes "run_end ratio cfg hs t0 rn = Some (r, rn')"
  obtains ev s where "r = Inr s" "rn_log rn' = rn_log rn @ [ev]" "harness_kinds [ev] = [PStr ''RUN_END'']"
    "vget ev ''instances'' = PInt (int (rn_instances rn))" "vget ev ''correct'' = PInt (int (rn_correct rn))"
    "vget ev ''errors'' = PInt (int (rn_errors rn))"
proof -
  obtain t w where t: "reading (hk_perf (hs_hooks hs)) rn = Some (Inr t, rn\<lparr>rn_adapter := (rn_adapter rn)\<lparr>ad_world := w\<rparr>\<rparr>)"
    by (rule reading_run)
  let ?rn1 = "rn\<lparr>rn_adapter := (rn_adapter rn)\<lparr>ad_world := w\<rparr>\<rparr>"
  obtain st w2 where st: "reading (hk_stamp (hs_hooks hs)) ?rn1 = Some (Inr st, ?rn1\<lparr>rn_adapter := (rn_adapter ?rn1)\<lparr>ad_world := w2\<rparr>\<rparr>)"
    by (rule reading_run)
  let ?rn2 = "?rn1\<lparr>rn_adapter := (rn_adapter ?rn1)\<lparr>ad_world := w2\<rparr>\<rparr>"
  let ?s = "summary_fields ratio (ms (Some t0) (Some t)) st ?rn2"
  let ?rn3 = "?rn2\<lparr>rn_ctx := []\<rparr>"
  obtain stamp w3 where e: "emit_event cfg hs ''RUN_END'' ?s ?rn3 = Some (Inr (), ?rn3\<lparr>rn_adapter := (rn_adapter ?rn3)\<lparr>ad_world := w3\<rparr>,
   rn_log := rn_log ?rn3 @ [dupdate (dupdate (event_base cfg ''RUN_END'' stamp) (rn_ctx ?rn3)) ?s]\<rparr>)"
    by (rule emit_event_run)
  let ?ev = "dupdate (dupdate (event_base cfg ''RUN_END'' stamp) []) ?s"
  have run: "run_end ratio cfg hs t0 rn = Some (Inr ?s, ?rn3\<lparr>rn_adapter := (rn_adapter ?rn3)\<lparr>ad_world := w3\<rparr>, rn_log := rn_log rn @ [?ev]\<rparr>)"
    using t st e by (simp add: run_end_def elapsed_def bindA_def ret_def modify_def Let_def)
  have ok: "ctx_ok (?rn3\<lparr>rn_timings := []\<rparr>)" by (simp add: ctx_ok_def dhas_def)
  have keys: "\<not> dhas ?s ''source''" "\<not> dhas ?s ''event_type''" by (simp_all add: summary_fields_def dhas_def)
  have k: "harness_kinds [?ev] = [PStr ''RUN_END'']" using emitted_kind [OF ok keys, of cfg "''RUN_END''" stamp] by simp
  have g: "dget ?ev f = dget ?s f" if "f \<in> {''instances'', ''correct'', ''errors''}" for f
    using that by (auto simp: summary_fields_def)
  have eq: "r = Inr ?s" "rn' = ?rn3\<lparr>rn_adapter := (rn_adapter ?rn3)\<lparr>ad_world := w3\<rparr>, rn_log := rn_log rn @ [?ev]\<rparr>"
    using trans [OF assms [symmetric] run] by (simp_all only: option.inject prod.inject)
  have log: "rn_log rn' = rn_log rn @ [?ev]" unfolding eq(2) by simp
  have f: "vget ?ev ''instances'' = PInt (int (rn_instances rn))" "vget ?ev ''correct'' = PInt (int (rn_correct rn))"
    "vget ?ev ''errors'' = PInt (int (rn_errors rn))"
    by (simp_all only: vget_def g insert_iff simp_thms) (simp_all add: summary_fields_def)
  show ?thesis by (rule that [OF eq(1) log k f])
qed

lemma run_books:
  assumes "run_instances ratio cfg hs completed insts t0 rn = Some (r, rn')" "rn_ctx rn = []"
    "rn_instances rn = 0" "rn_errors rn = 0" "rn_correct rn = 0"
  shows "\<exists>new ev k. rn_log rn' = rn_log rn @ new @ [ev] \<and> harness_kinds [ev] = [PStr ''RUN_END''] \<and> counted ''RUN_END'' new = 0 \<and>
     vget ev ''instances'' = PInt (int (counted ''INSTANCE_END'' new)) \<and> vget ev ''errors'' = PInt (int (counted ''ERROR'' new)) \<and>
     vget ev ''correct'' = PInt (int k) \<and> k + counted ''ERROR'' new \<le> counted ''INSTANCE_END'' new \<and>
     prefix (openings new) (map (opened completed) insts) \<and>
     (case r of Inr s \<Rightarrow> openings new = map (opened completed) insts | Inl e \<Rightarrow> e = CancelledError \<or> rf_on_error cfg = ''abort'')"
proof -
  obtain q rn1 where l: "run_loop cfg hs completed insts 0 rn = Some (q, rn1)"
    using assms(1) by (auto simp: run_instances_def split: option.splits)
  obtain a where a: "rn_log rn1 = rn_log rn @ a" "balanced a rn rn1" "prefix (openings a) (map (opened completed) insts)"
    "q = Inr () \<or> q = Inl CancelledError \<or> rf_on_error cfg = ''abort''"
    "q = Inr () \<longrightarrow> rf_on_error cfg \<noteq> ''abort'' \<or> rn_errors rn = 0 \<longrightarrow> openings a = map (opened completed) insts"
    using loop_books [OF l assms(2)] by (elim exE conjE) (rule that; assumption)
  obtain r2 rn2 where e: "run_end ratio cfg hs t0 rn1 = Some (r2, rn2)"
    using assms(1) l by (cases q) (auto simp: run_instances_def bindA_def split: option.splits)
  obtain ev s where ev: "r2 = Inr s" "rn_log rn2 = rn_log rn1 @ [ev]" "harness_kinds [ev] = [PStr ''RUN_END'']"
    "vget ev ''instances'' = PInt (int (rn_instances rn1))" "vget ev ''correct'' = PInt (int (rn_correct rn1))"
    "vget ev ''errors'' = PInt (int (rn_errors rn1))"
    by (rule run_end_books [OF e])
  have out: "rn' = rn2 \<and> (case q of Inl ex \<Rightarrow> r = Inl ex | Inr _ \<Rightarrow> r = Inr s)"
    using assms(1) l e ev(1) by (cases q) (simp_all add: run_instances_def bindA_def lift_raises_def)
  have b: "rn_instances rn1 = counted ''INSTANCE_END'' a" "rn_errors rn1 = counted ''ERROR'' a" "counted ''RUN_END'' a = 0"
    "rn_correct rn1 + counted ''ERROR'' a \<le> counted ''INSTANCE_END'' a"
    using a(2) assms(3-5) by (simp_all add: balanced_def)
  have c: "case r of Inr s \<Rightarrow> openings a = map (opened completed) insts | Inl e \<Rightarrow> e = CancelledError \<or> rf_on_error cfg = ''abort''"
  proof (cases q)
    case (Inl ex)
    then show ?thesis using out a(4) by simp
  next
    case (Inr u)
    then have "openings a = map (opened completed) insts" using a(5) assms(4) by (cases u) simp
    then show ?thesis using out Inr by simp
  qed
  have log: "rn_log rn' = rn_log rn @ a @ [ev]" using out ev(2) a(1) by simp
  show ?thesis using log ev b a(3) c by (intro exI [of _ a] exI [of _ ev] exI [of _ "rn_correct rn1"] conjI) simp_all
qed

subsection \<open>Resuming\<close>

lemma filterE_total: "(\<And>x. x \<in> set xs \<Longrightarrow> P x = Inr (Q x)) \<Longrightarrow> filterE P xs = Inr (filter Q xs)"
  by (induction xs) (simp_all add: bindE_def)

lemma mapE_total: "(\<And>x. x \<in> set xs \<Longrightarrow> f x = Inr (g x)) \<Longrightarrow> mapE f xs = Inr (map g xs)"
  by (induction xs) (simp_all add: bindE_def)

definition finished :: "pyval dict \<Rightarrow> bool" where
  "finished r \<longleftrightarrow> vget r ''event_type'' = PStr ''INSTANCE_END'' \<and> vget r ''error'' = PNone"

definition started_as :: "string \<Rightarrow> string \<Rightarrow> pyval dict list \<Rightarrow> bool" where
  "started_as run_id configuration rs \<longleftrightarrow>
     (case filter (\<lambda>r. vget r ''event_type'' = PStr ''RUN_START'') rs of
        [] \<Rightarrow> False | s # _ \<Rightarrow> vget s ''run_id'' = PStr run_id \<and> vget s ''configuration_id'' = PStr configuration)"

lemma filter_PDict: "filter P (map PDict rs) = map PDict (filter (\<lambda>r. P (PDict r)) rs)"
  by (simp add: filter_map comp_def)

lemma completed_of_log:
  assumes "\<forall>r \<in> set rs. json_ok (PDict r)"
    and "\<forall>r \<in> set rs. finished r \<longrightarrow> (\<exists>q. dget r ''question_id'' = Some (PStr q))"
  shows "case completed_cells (Some (log_text rs)) run_id configuration of
     Inl e \<Rightarrow> \<not> started_as run_id configuration rs \<and> e \<in> ValueError ` {''resume log has no RUN_START'', ''resume run_id mismatch'',
         ''resume configuration fingerprint mismatch''}
   | Inr cells \<Rightarrow> started_as run_id configuration rs \<and>
         cells = map (\<lambda>r. (vget r ''question_id'', ''instance'')) (filter finished rs)"
proof -
  have starts: "filterE (has_kind ''RUN_START'') (map PDict rs) =
      Inr (map PDict (filter (\<lambda>r. vget r ''event_type'' = PStr ''RUN_START'') rs))"
    by (subst filterE_total [where Q = "\<lambda>v. case v of PDict d \<Rightarrow> vget d ''event_type'' = PStr ''RUN_START'' | _ \<Rightarrow> False"])
      (auto simp: has_kind_def event_get_def bindE_def filter_PDict)
  have ends: "filterE finished_cell (map PDict rs) = Inr (map PDict (filter finished rs))"
    by (subst filterE_total [where Q = "\<lambda>v. case v of PDict d \<Rightarrow> finished d | _ \<Rightarrow> False"])
      (auto simp: finished_cell_def has_kind_def event_get_def bindE_def filter_PDict finished_def [abs_def])
  have cells: "mapE cell_of (map PDict (filter finished rs)) =
      Inr (map (\<lambda>v. case v of PDict d \<Rightarrow> (vget d ''question_id'', ''instance'') | _ \<Rightarrow> (PNone, [])) (map PDict (filter finished rs)))"
    by (rule mapE_total) (use assms(2) in \<open>auto simp: cell_of_def hashable_def vget_def is_list_def is_dict_def\<close>)
  have c: "completed_cells (Some (log_text rs)) run_id configuration =
      (case filter (\<lambda>r. vget r ''event_type'' = PStr ''RUN_START'') rs of
         [] \<Rightarrow> Inl (ValueError ''resume log has no RUN_START'')
       | s # _ \<Rightarrow> if vget s ''run_id'' \<noteq> PStr run_id then Inl (ValueError ''resume run_id mismatch'')
           else if vget s ''configuration_id'' \<noteq> PStr configuration then Inl (ValueError ''resume configuration fingerprint mismatch'')
           else Inr (map (\<lambda>r. (vget r ''question_id'', ''instance'')) (filter finished rs)))"
    unfolding completed_cells_def option.case read_log_text [OF assms(1)] bindE_simps starts ends cells
    by (simp add: event_get_def split: list.split)
  show ?thesis unfolding c by (simp add: started_as_def split: list.split)
qed

text \<open>C40: Exact resume: a log whose first \<open>RUN_START\<close> carries another run or configuration, or that has none, is refused with a
  \<open>ValueError\<close>; otherwise the resumed run skips precisely the instances for which the log holds an \<open>INSTANCE_END\<close> without
  an error, so failed and interrupted instances run again and finished ones never do.\<close>

theorem resume_exact:
  assumes "\<forall>r \<in> set rs. json_ok (PDict r)"
    and "\<forall>r \<in> set rs. finished r \<longrightarrow> (\<exists>q. dget r ''question_id'' = Some (PStr q))"
  shows "case completed_cells (Some (log_text rs)) run_id configuration of
     Inl e \<Rightarrow> \<not> started_as run_id configuration rs \<and> e \<in> ValueError ` {''resume log has no RUN_START'', ''resume run_id mismatch'',
         ''resume configuration fingerprint mismatch''}
   | Inr cells \<Rightarrow> started_as run_id configuration rs \<and>
       (\<forall>inst. opened cells inst = PStr ''CELL_SKIPPED'' \<longleftrightarrow>
          (\<exists>r \<in> set rs. finished r \<and> vget r ''question_id'' = PStr (in_id inst)))"
  using completed_of_log [OF assms, of run_id configuration] by (auto simp: opened_def split: sum.splits) (force simp: image_iff)



subsection \<open>Witnesses\<close>

definition demo_chat :: "rat chat" where
  "demo_chat = \<lparr>ch_create = \<lambda>q w. (Inr \<lparr>cm_choices = [(Some ''yes'', None)], cm_model = [], cm_headers = \<lambda>_. None, cm_status = 200\<rparr>, w),
     ch_perf = \<lambda>w. (w, w + 1), ch_sha256 = \<lambda>t. t\<rparr>"

definition demo_harness :: "rat harness" where
  "demo_harness = \<lparr>hs_hooks = demo_hooks, hs_chat = demo_chat, hs_fuel = 31\<rparr>"

definition demo_run :: run_config where
  "demo_run = \<lparr>rf_system = ''demo'', rf_run_id = ''r1'', rf_seed = 0, rf_configuration = ''c1'', rf_ingest = default_ingest,
     rf_settle_policy = ''per_instance'', rf_on_error = ''continue'', rf_reader = default_reader, rf_judge = default_judge,
     rf_benchmark = ''longmemeval'', rf_config_path = ''demo.yaml'', rf_system_config = [], rf_benchmark_config = [],
     rf_proxy_url = ''http://localhost:8080'', rf_limit = None, rf_question_ids = None, rf_overrides = PDict [], rf_resume = False\<rparr>"

definition demo_instance :: lme_instance where
  "demo_instance = \<lparr>in_id = ''q1'', in_type = ''multi-session'', in_question = ''Where is the key?'', in_answer = ''under the mat'',
     in_date = ''2023/05/30 (Tue) 22:10'', in_sessions = [\<lparr>ss_id = ''s1'', ss_date = ''2023/05/20 (Sat) 02:21'', ss_index = 0,
       ss_turns = [\<lparr>tn_role = ''user'', tn_content = ''The key is under the mat.'', tn_answer = True\<rparr>]\<rparr>],
     in_answer_sessions = [''s1'']\<rparr>"

definition demo_runner :: "rat runner" where
  "demo_runner = \<lparr>rn_adapter = demo_adapter 1, rn_ctx = [], rn_log = [], rn_instances = 0, rn_correct = 0, rn_errors = 0, rn_timings = []\<rparr>"

lemma demo_live: "live demo_harness id \<lparr>sc_timeout = 30, sc_interval = 1, sc_cleanup = True\<rparr>"
  using demo_clock by (auto simp: live_def demo_harness_def demo_chat_def chat_ok_def forward_def intro!: exI [of _ 30])

lemma demo_steady: "steady id \<lparr>sc_timeout = 30, sc_interval = 1, sc_cleanup = True\<rparr> demo_runner"
  using demo_inv [of 1] by (simp add: steady_def demo_runner_def) (simp add: demo_adapter_def)

lemma demo_start: "rn_ctx demo_runner = []" "rn_instances demo_runner = 0" "rn_errors demo_runner = 0" "rn_correct demo_runner = 0"
  by (simp_all add: demo_runner_def)

lemma opened_1: "opened [] demo_instance = PStr ''INSTANCE_START''"
  by (simp add: opened_def)



theorem instance_protocol_witness:
  "\<exists>r rn' new. run_instance demo_run demo_harness demo_instance 0 demo_runner = Some (r, rn') \<and>
     rn_log rn' = rn_log demo_runner @ new \<and> rn_ctx rn' = [] \<and> (\<exists>ks. harness_kinds new = PStr ''INSTANCE_START'' # ks)"
proof -
  obtain r rn' where run: "run_instance demo_run demo_harness demo_instance 0 demo_runner = Some (r, rn')"
    by (rule goes_onD [OF goes_instance [OF demo_live] demo_steady])
  show ?thesis using instance_protocol [OF run] run by blast
qed

theorem labels_never_leak_witness:
  "unlabel demo_instance \<noteq> demo_instance \<and>
   blind_phases demo_run demo_harness demo_instance = blind_phases demo_run demo_harness (unlabel demo_instance)"
  using labels_never_leak [of demo_run demo_harness demo_instance]
  by (simp add: demo_run_def default_ingest_def) (simp add: unlabel_def demo_instance_def)


definition demo_log :: "pyval dict list" where
  "demo_log = [[(''event_type'', PStr ''RUN_START''), (''run_id'', PStr ''r1''), (''configuration_id'', PStr ''c1'')],
     [(''event_type'', PStr ''INSTANCE_END''), (''question_id'', PStr ''q1''), (''error'', PNone)]]"

theorem resume_exact_witness:
  "case completed_cells (Some (log_text demo_log)) ''r1'' ''c1'' of
     Inl e \<Rightarrow> False | Inr cells \<Rightarrow> opened cells demo_instance = PStr ''CELL_SKIPPED''"
proof -
  have "\<forall>r \<in> set demo_log. json_ok (PDict r)" by (simp add: demo_log_def json_ok_PDict)
  moreover have "\<forall>r \<in> set demo_log. finished r \<longrightarrow> (\<exists>q. dget r ''question_id'' = Some (PStr q))"
    by (simp add: demo_log_def finished_def vget_def)
  ultimately have "case completed_cells (Some (log_text demo_log)) ''r1'' ''c1'' of
     Inl e \<Rightarrow> \<not> started_as ''r1'' ''c1'' demo_log \<and> e \<in> ValueError ` {''resume log has no RUN_START'', ''resume run_id mismatch'',
         ''resume configuration fingerprint mismatch''}
   | Inr cells \<Rightarrow> started_as ''r1'' ''c1'' demo_log \<and>
       (\<forall>inst. opened cells inst = PStr ''CELL_SKIPPED'' \<longleftrightarrow>
          (\<exists>r \<in> set demo_log. finished r \<and> vget r ''question_id'' = PStr (in_id inst)))"
    by (rule resume_exact)
  moreover have "started_as ''r1'' ''c1'' demo_log" by (simp add: demo_log_def started_as_def vget_def)
  moreover have "\<exists>r \<in> set demo_log. finished r \<and> vget r ''question_id'' = PStr (in_id demo_instance)"
    by (simp add: demo_log_def finished_def vget_def demo_instance_def)
  ultimately show ?thesis by (simp split: sum.splits)
qed

end
